(* ===== verification/Prelude.thy ===== *)
theory Prelude
  imports Main "HOL-Library.Word" "HOL-Library.Signed_Division"
begin

unbundle bit_operations_syntax

text \<open>
  What every component shares: the types the Go program's values are modelled by, the parts of
  Go's language and standard library the sources use (\<^verbatim>\<open>binary.BigEndian\<close>, \<^verbatim>\<open>strconv\<close>,
  \<^verbatim>\<open>strings\<close>, integer division), and the lemmas on bytes, words and lists that the components'
  proofs rest on.

  A \<^verbatim>\<open>byte\<close> is an 8-bit word, a \<^verbatim>\<open>uint32\<close> a 32-bit word and a \<^verbatim>\<open>uint64\<close> a 64-bit word, so
  shifts, masks and wrap-around are the machine's. A length or an index is a \<open>nat\<close>; an \<^verbatim>\<open>int\<close>,
  an \<^verbatim>\<open>int64\<close> or a \<^verbatim>\<open>time.Duration\<close> is a mathematical integer, with the conversion to a
  narrower word written where the source writes it.
\<close>

type_synonym byte = "8 word"
type_synonym uint32 = "32 word"
type_synonym uint64 = "64 word"
type_synonym bytes = "byte list"

named_theorems wire_simps
named_theorems conn_simps

section \<open>Go's standard library, as far as the sources use it\<close>

definition append_uint16 :: "bytes \<Rightarrow> 16 word \<Rightarrow> bytes" where
  "append_uint16 dst v = dst @ [ucast (drop_bit 8 v), ucast v]"

definition append_uint32 :: "bytes \<Rightarrow> uint32 \<Rightarrow> bytes" where
  "append_uint32 dst v =
     dst @ [ucast (drop_bit 24 v), ucast (drop_bit 16 v), ucast (drop_bit 8 v), ucast v]"

definition put_uint32 :: "bytes \<Rightarrow> nat \<Rightarrow> uint32 \<Rightarrow> bytes" where
  "put_uint32 buf off v =
     buf[off := ucast (drop_bit 24 v), off + 1 := ucast (drop_bit 16 v),
         off + 2 := ucast (drop_bit 8 v), off + 3 := ucast v]"

definition uint32_of_bytes :: "byte \<Rightarrow> byte \<Rightarrow> byte \<Rightarrow> byte \<Rightarrow> uint32" where
  "uint32_of_bytes a b c d =
     push_bit 24 (ucast a) OR push_bit 16 (ucast b) OR push_bit 8 (ucast c) OR ucast d"

definition bytes_of :: "string \<Rightarrow> bytes" where
  "bytes_of s = map (\<lambda>c. of_nat (of_char c)) s"

definition string_of_bytes :: "bytes \<Rightarrow> string" where
  "string_of_bytes bs = map (\<lambda>b. char_of (unat b)) bs"

definition digit_char :: "nat \<Rightarrow> char" where
  "digit_char d = char_of (48 + d)"

fun itoa_nat :: "nat \<Rightarrow> string" where
  "itoa_nat n = (if n < 10 then [digit_char n] else itoa_nat (n div 10) @ [digit_char (n mod 10)])"

declare itoa_nat.simps [simp del]

text \<open>\<^verbatim>\<open>strconv.Itoa\<close>, and \<^verbatim>\<open>fmt\<close>'s verb \<^verbatim>\<open>%d\<close>.\<close>

definition itoa :: "int \<Rightarrow> string" where
  "itoa v = (if v < 0 then CHR ''-'' # itoa_nat (nat (- v)) else itoa_nat (nat v))"

definition is_digit :: "char \<Rightarrow> bool" where
  "is_digit c \<longleftrightarrow> 48 \<le> (of_char c :: nat) \<and> (of_char c :: nat) \<le> 57"

definition digit_val :: "char \<Rightarrow> nat" where
  "digit_val c = of_char c - 48"

definition nat_of_digits :: "string \<Rightarrow> nat" where
  "nat_of_digits s = foldl (\<lambda>acc c. 10 * acc + digit_val c) 0 s"

text \<open>
  \<^verbatim>\<open>strconv.Atoi\<close>: an optional sign, then one digit or more, with a value that fits in an
  \<^verbatim>\<open>int\<close>; anything else is an error.
\<close>

definition atoi :: "string \<Rightarrow> int option" where
  "atoi s =
     (let neg = (s \<noteq> [] \<and> hd s = CHR ''-'');
          ds = (if s \<noteq> [] \<and> (hd s = CHR ''-'' \<or> hd s = CHR ''+'') then tl s else s);
          v = (if neg then - int (nat_of_digits ds) else int (nat_of_digits ds))
      in if ds = [] \<or> \<not> list_all is_digit ds then None
         else if - (2 ^ 63) \<le> v \<and> v < 2 ^ 63 then Some v else None)"

section \<open>Shared lemmas\<close>

subsection \<open>Lists\<close>

lemma take_append_exact [simp]: "n = length xs \<Longrightarrow> take n (xs @ ys) = xs"
  by simp

lemma drop_append_exact [simp]: "n = length xs \<Longrightarrow> drop n (xs @ ys) = ys"
  by simp

lemma sum_list_map_update:
  fixes f :: "'a \<Rightarrow> nat"
  assumes "i < length xs"
  shows "sum_list (map f (xs[i := x])) + f (xs ! i) = sum_list (map f xs) + f x"
  using assms
proof (induction xs arbitrary: i)
  case Nil
  then show ?case by simp
next
  case (Cons a xs)
  then show ?case by (cases i) auto
qed

subsection \<open>Bytes and words\<close>

lemma length_append_uint32 [simp]: "length (append_uint32 dst v) = length dst + 4"
  by (simp add: append_uint32_def)

lemma length_put_uint32 [simp]: "length (put_uint32 buf off v) = length buf"
  by (simp add: put_uint32_def)

lemma uint32_of_bytes_split [wire_simps]:
  "uint32_of_bytes (ucast (drop_bit 24 v)) (ucast (drop_bit 16 v)) (ucast (drop_bit 8 v)) (ucast v) = v"
  for v :: uint32
proof (rule bit_word_eqI)
  fix n
  assume "n < LENGTH(32)"
  then show "bit (uint32_of_bytes (ucast (drop_bit 24 v)) (ucast (drop_bit 16 v))
      (ucast (drop_bit 8 v)) (ucast v)) n \<longleftrightarrow> bit v n"
    by (cases "8 \<le> n"; cases "16 \<le> n"; cases "24 \<le> n") (auto simp: uint32_of_bytes_def bit_simps)
qed

lemma unat_drop_bit_div: "unat (drop_bit n v) = unat v div 2 ^ n" for v :: "'a :: len word"
  by (rule trans [OF unat_drop_bit_eq drop_bit_eq_div])

text \<open>Patching a field of a frame that is followed by anything.\<close>

lemma put_uint32_append:
  assumes "length pre = off"
  shows "put_uint32 (pre @ a # b # c # d # rest) off v = append_uint32 pre v @ rest"
  using assms by (simp add: put_uint32_def append_uint32_def list_update_append)

subsection \<open>Decimal numbers\<close>

lemma digit_char_eval [simp]:
  "digit_char 0 = CHR ''0''" "digit_char (Suc 0) = CHR ''1''" "digit_char 1 = CHR ''1''"
  "digit_char 2 = CHR ''2''" "digit_char 3 = CHR ''3''" "digit_char 4 = CHR ''4''"
  "digit_char 5 = CHR ''5''" "digit_char 6 = CHR ''6''" "digit_char 7 = CHR ''7''"
  "digit_char 8 = CHR ''8''" "digit_char 9 = CHR ''9''"
  by (simp_all add: digit_char_def char_of_def bit_0)

lemma itoa_nat_nonempty [simp]: "itoa_nat n \<noteq> []"
  by (subst itoa_nat.simps) simp

lemma of_char_digit_char: "d < 10 \<Longrightarrow> (of_char (digit_char d) :: nat) = 48 + d"
  by (simp add: digit_char_def)

lemma digit_val_digit_char [simp]: "d < 10 \<Longrightarrow> digit_val (digit_char d) = d"
  by (simp add: digit_val_def of_char_digit_char)

lemma is_digit_digit_char [simp]: "d < 10 \<Longrightarrow> is_digit (digit_char d)"
  by (simp add: is_digit_def of_char_digit_char)

lemma itoa_nat_digits: "list_all is_digit (itoa_nat n)"
proof (induction n rule: itoa_nat.induct)
  case (1 n)
  then show ?case by (subst itoa_nat.simps) auto
qed

lemma nat_of_digits_snoc: "nat_of_digits (s @ [c]) = 10 * nat_of_digits s + digit_val c"
  by (simp add: nat_of_digits_def)

lemma nat_of_digits_itoa_nat [simp]: "nat_of_digits (itoa_nat n) = n"
proof (induction n rule: itoa_nat.induct)
  case (1 n)
  show ?case
  proof (cases "n < 10")
    case True
    then show ?thesis
      by (subst itoa_nat.simps) (simp add: nat_of_digits_def)
  next
    case False
    with "1.IH" show ?thesis
      by (subst itoa_nat.simps) (simp add: nat_of_digits_snoc)
  qed
qed

lemma length_itoa_nat: "n < 10 ^ k \<Longrightarrow> 0 < k \<Longrightarrow> length (itoa_nat n) \<le> k"
proof (induction k arbitrary: n)
  case 0
  then show ?case by simp
next
  case (Suc k)
  show ?case
  proof (cases "n < 10")
    case True
    then show ?thesis by (subst itoa_nat.simps) simp
  next
    case False
    with Suc.prems have "0 < k" by (cases k) auto
    moreover from Suc.prems have "n div 10 < 10 ^ k"
      by (simp add: less_mult_imp_div_less mult.commute)
    ultimately show ?thesis using Suc.IH [of "n div 10"] False by (subst itoa_nat.simps) simp
  qed
qed

lemma hd_itoa_nat_digit: "is_digit (hd (itoa_nat n))"
  using itoa_nat_digits [of n] itoa_nat_nonempty [of n]
  by (cases "itoa_nat n") auto

lemma atoi_itoa:
  assumes "- (2 ^ 63) \<le> v" and "v < 2 ^ 63"
  shows "atoi (itoa v) = Some v"
proof -
  have "hd (itoa_nat n) \<noteq> CHR ''-''" "hd (itoa_nat n) \<noteq> CHR ''+''" for n
    using hd_itoa_nat_digit [of n] by (auto simp: is_digit_def)
  with assms show ?thesis
    by (auto simp: atoi_def itoa_def Let_def itoa_nat_digits)
qed

end
