(* ===== verification/Codec.thy ===== *)
theory Codec
  imports Prelude
begin

text \<open>
  The contract between what the client writes and what its peer reads: an encoder whose output a
  decoder recognises whatever follows it. It is stated once, as the locale \<open>prefix_codec\<close>, and
  interpreted twice: for HTTP/2 frames (theory \<open>Frames\<close>) and for HPACK header fields (theory
  \<open>Hpack\<close>). The locale's lemmas carry the round trip from one item to a whole buffer of them,
  and say that two different sequences never share an encoding.
\<close>

text \<open>
  Decode a buffer to its end. Every item takes at least a byte, so the length of the buffer is
  fuel enough; \<open>None\<close> is a buffer the decoder refuses or one with bytes left over.
\<close>

fun decode_list :: "(bytes \<Rightarrow> ('a \<times> bytes) option) \<Rightarrow> nat \<Rightarrow> bytes \<Rightarrow> 'a list option" where
  "decode_list dec fuel [] = Some []"
| "decode_list dec 0 (b # bs) = None"
| "decode_list dec (Suc fuel) (b # bs) =
     (case dec (b # bs) of
        None \<Rightarrow> None
      | Some (x, rest) \<Rightarrow> map_option (Cons x) (decode_list dec fuel rest))"

lemma decode_list_step:
  assumes "bs \<noteq> []" and "dec bs = Some (x, rest)"
  shows "decode_list dec (Suc fuel) bs = map_option (Cons x) (decode_list dec fuel rest)"
  using assms by (cases bs) auto

text \<open>A buffer the decoder accepts is accepted with any more fuel, and to the same result.\<close>

lemma decode_list_fuel_mono:
  "decode_list dec fuel bs = Some xs \<Longrightarrow> fuel \<le> fuel' \<Longrightarrow> decode_list dec fuel' bs = Some xs"
proof (induction dec fuel bs arbitrary: fuel' xs rule: decode_list.induct)
  case (1 dec fuel)
  then show ?case by simp
next
  case (2 dec b bs)
  then show ?case by simp
next
  case (3 dec fuel b bs)
  from "3.prems" obtain x rest ys where
    dec: "dec (b # bs) = Some (x, rest)" and ys: "decode_list dec fuel rest = Some ys" "xs = x # ys"
    by (auto split: option.splits)
  from "3.prems"(2) obtain k where k: "fuel' = Suc k" "fuel \<le> k" by (cases fuel') auto
  have "decode_list dec k rest = Some ys"
    using "3.IH" [OF dec refl ys(1) k(2)] by simp
  with dec ys k show ?case by simp
qed

locale prefix_codec =
  fixes enc :: "'a \<Rightarrow> bytes"
    and dec :: "bytes \<Rightarrow> ('a \<times> bytes) option"
    and wf :: "'a \<Rightarrow> bool"
  assumes dec_enc: "wf x \<Longrightarrow> dec (enc x @ rest) = Some (x, rest)"
    and enc_nonempty: "wf x \<Longrightarrow> enc x \<noteq> []"
begin

lemma decode_list_concat:
  "list_all wf xs \<Longrightarrow> length (concat (map enc xs)) \<le> fuel \<Longrightarrow>
   decode_list dec fuel (concat (map enc xs)) = Some xs"
proof (induction xs arbitrary: fuel)
  case Nil
  then show ?case by simp
next
  case (Cons x xs)
  let ?rest = "concat (map enc xs)"
  from Cons.prems have wf: "wf x" "list_all wf xs" and ne: "enc x \<noteq> []"
    using enc_nonempty by auto
  from ne Cons.prems obtain k where k: "fuel = Suc k" "length ?rest \<le> k"
    by (cases fuel; cases "enc x") auto
  have "decode_list dec (Suc k) (enc x @ ?rest) = map_option (Cons x) (decode_list dec k ?rest)"
    using ne dec_enc [OF wf(1)] by (intro decode_list_step) auto
  with Cons.IH [OF wf(2) k(2)] k show ?case by simp
qed

lemma decode_list_all:
  "list_all wf xs \<Longrightarrow>
   decode_list dec (length (concat (map enc xs))) (concat (map enc xs)) = Some xs"
  by (rule decode_list_concat) auto

lemma concat_enc_inj:
  assumes "list_all wf xs" and "list_all wf ys" and "concat (map enc xs) = concat (map enc ys)"
  shows "xs = ys"
proof -
  have "Some xs = decode_list dec (length (concat (map enc xs))) (concat (map enc xs))"
    using assms(1) by (simp add: decode_list_all)
  also have "\<dots> = Some ys"
    using assms(2,3) by (simp add: decode_list_all)
  finally show ?thesis by simp
qed

end

end
