(* ===== verification/Frames.thy ===== *)
theory Frames
  imports Codec
begin

unbundle bit_operations_syntax

text \<open>
  The frames the client writes: \<^verbatim>\<open>benchcli-go/protocol/http2.go\<close> from its constants to
  \<^verbatim>\<open>appendData\<close>, and the connection preface. What they are held to is the frame layout of
  RFC 9113 section 4.1, given here as a reader of frames, \<open>parse_frame\<close>.
\<close>

section \<open>The code\<close>

subsection \<open>Constants\<close>

definition frameData :: byte where [simp]: "frameData = 0x0"
definition frameHeaders :: byte where [simp]: "frameHeaders = 0x1"
definition frameSettings :: byte where [simp]: "frameSettings = 0x4"
definition framePing :: byte where [simp]: "framePing = 0x6"
definition frameWindowUpdate :: byte where [simp]: "frameWindowUpdate = 0x8"

definition flagEndStream :: byte where [simp]: "flagEndStream = 0x1"
definition flagAck :: byte where [simp]: "flagAck = 0x1"
definition flagEndHeaders :: byte where [simp]: "flagEndHeaders = 0x4"

definition frameHeaderLen :: nat where [simp]: "frameHeaderLen = 9"
definition defaultMaxFrameSize :: nat where "defaultMaxFrameSize = 16384"
definition defaultWindow :: int where [simp]: "defaultWindow = 65535"
definition maxStreamID :: uint32 where "maxStreamID = 0x7fffffff"

definition ClientStreamWindow :: int where "ClientStreamWindow = 2 ^ 30"
definition ClientConnWindow :: int where "ClientConnWindow = 2 ^ 30"

subsection \<open>Frame writers\<close>

definition appendFrameHeader :: "bytes \<Rightarrow> nat \<Rightarrow> byte \<Rightarrow> byte \<Rightarrow> uint32 \<Rightarrow> bytes" where
  "appendFrameHeader dst len typ flags streamID =
     dst @ [of_nat (drop_bit 16 len), of_nat (drop_bit 8 len), of_nat len, typ, flags,
       ucast (drop_bit 24 streamID) AND 0x7f, ucast (drop_bit 16 streamID),
       ucast (drop_bit 8 streamID), ucast streamID]"

definition appendWindowUpdate :: "bytes \<Rightarrow> uint32 \<Rightarrow> uint32 \<Rightarrow> bytes" where
  "appendWindowUpdate dst streamID increment =
     append_uint32 (appendFrameHeader dst 4 frameWindowUpdate 0 streamID) (increment AND 0x7fffffff)"

definition appendSettingsAck :: "bytes \<Rightarrow> bytes" where
  "appendSettingsAck dst = appendFrameHeader dst 0 frameSettings flagAck 0"

definition appendPingAck :: "bytes \<Rightarrow> bytes \<Rightarrow> bytes" where
  "appendPingAck dst data = appendFrameHeader dst 8 framePing flagAck 0 @ data"

definition appendHeaders :: "bytes \<Rightarrow> uint32 \<Rightarrow> bytes \<Rightarrow> bool \<Rightarrow> bytes" where
  "appendHeaders dst streamID block endStream =
     (let flags = (if endStream then flagEndHeaders OR flagEndStream else flagEndHeaders)
      in appendFrameHeader dst (length block) frameHeaders flags streamID @ block)"

function appendData :: "bytes \<Rightarrow> uint32 \<Rightarrow> bytes \<Rightarrow> bool \<Rightarrow> bytes" where
  "appendData dst streamID data endStream =
     (let n = min (length data) defaultMaxFrameSize;
          flags = (if endStream \<and> n = length data then flagEndStream else 0);
          dst' = appendFrameHeader dst n frameData flags streamID @ take n data;
          data' = drop n data
      in if length data' = 0 then dst' else appendData dst' streamID data' endStream)"
  by pat_completeness auto
termination
  by (relation "measure (\<lambda>(dst, streamID, data, endStream). length data)")
    (auto simp: defaultMaxFrameSize_def)

declare appendData.simps [simp del]

definition clientPreface :: bytes where
  "clientPreface =
     (let buf = bytes_of ''PRI * HTTP/2.0'' @ [13, 10, 13, 10] @ bytes_of ''SM'' @ [13, 10, 13, 10];
          settings = append_uint32 (append_uint16 [] 0x2) 0;
          settings = append_uint32 (append_uint16 settings 0x4) (word_of_int ClientStreamWindow);
          buf = appendFrameHeader buf (length settings) frameSettings 0 0 @ settings
      in appendWindowUpdate buf 0 (word_of_int (ClientConnWindow - defaultWindow)))"

definition ClientPreface :: bytes where
  "ClientPreface = [] @ clientPreface"

section \<open>The frame layout the peer reads\<close>

datatype frame = Frame (f_type: byte) (f_flags: byte) (f_stream: uint32) (f_payload: bytes)

text \<open>
  RFC 9113 section 4.1: a 24-bit length, type, flags, a reserved bit that is ignored, a 31-bit
  stream identifier, then the payload.
\<close>

fun parse_frame :: "bytes \<Rightarrow> (frame \<times> bytes) option" where
  "parse_frame (l2 # l1 # l0 # t # fl # i3 # i2 # i1 # i0 # rest) =
     (let n = unat l2 * 2 ^ 16 + unat l1 * 2 ^ 8 + unat l0 in
      if n \<le> length rest
      then Some (Frame t fl (uint32_of_bytes i3 i2 i1 i0 AND 0x7fffffff) (take n rest), drop n rest)
      else None)"
| "parse_frame _ = None"

definition parse_frames :: "bytes \<Rightarrow> frame list option" where
  "parse_frames bs = decode_list parse_frame (length bs) bs"

definition frame_bytes :: "frame \<Rightarrow> bytes" where
  "frame_bytes f =
     appendFrameHeader [] (length (f_payload f)) (f_type f) (f_flags f) (f_stream f) @ f_payload f"

definition wf_frame :: "frame \<Rightarrow> bool" where
  "wf_frame f \<longleftrightarrow> length (f_payload f) < 2 ^ 24 \<and> f_stream f \<le> maxStreamID"

text \<open>
  What a body is on the wire: DATA frames of at most \<^const>\<open>defaultMaxFrameSize\<close> bytes, all
  but the last of them full, and END_STREAM, if asked for, on the last alone.
\<close>

function chunks :: "nat \<Rightarrow> 'a list \<Rightarrow> 'a list list" where
  "chunks n xs = (if length xs \<le> n \<or> n = 0 then [xs] else take n xs # chunks n (drop n xs))"
  by pat_completeness auto
termination
  by (relation "measure (\<lambda>(n, xs). length xs)") auto

declare chunks.simps [simp del]

definition data_frames :: "uint32 \<Rightarrow> bytes \<Rightarrow> bool \<Rightarrow> frame list" where
  "data_frames sid data endStream =
     (let cs = chunks defaultMaxFrameSize data
      in map (Frame frameData 0 sid) (butlast cs) @
         [Frame frameData (if endStream then flagEndStream else 0) sid (last cs)])"

definition headers_frame :: "uint32 \<Rightarrow> bytes \<Rightarrow> bool \<Rightarrow> frame" where
  "headers_frame sid block endStream =
     Frame frameHeaders (if endStream then flagEndHeaders OR flagEndStream else flagEndHeaders) sid block"

definition request_frames :: "uint32 \<Rightarrow> bytes \<Rightarrow> bytes \<Rightarrow> frame list" where
  "request_frames sid block body =
     headers_frame sid block (body = []) # (if body = [] then [] else data_frames sid body True)"

section \<open>Lemmas\<close>

subsection \<open>One frame\<close>

lemma length_bytes_24:
  fixes n :: nat
  assumes "n < 2 ^ 24"
  shows "unat (of_nat (drop_bit 16 n) :: byte) * 2 ^ 16 + unat (of_nat (drop_bit 8 n) :: byte) * 2 ^ 8
    + unat (of_nat n :: byte) = n"
proof -
  have "n div 65536 = n div 256 div 256"
    by (simp flip: div_mult2_eq)
  then have "n div 65536 * 65536 + n div 256 mod 256 * 256 + n mod 256 = n"
    using div_mult_mod_eq [of "n div 256" 256] div_mult_mod_eq [of n 256] by linarith
  with assms show ?thesis by (simp add: unat_of_nat drop_bit_eq_div)
qed

lemma mask_7f: "(0x7f :: byte) = mask 7"
  by (simp add: mask_eq_exp_minus_1)

lemma mask_7fffffff: "(0x7fffffff :: uint32) = mask 31"
  by (simp add: mask_eq_exp_minus_1)

lemma stream_id_bytes [wire_simps]:
  "uint32_of_bytes (ucast (drop_bit 24 v) AND 0x7f) (ucast (drop_bit 16 v)) (ucast (drop_bit 8 v)) (ucast v)
     = v AND 0x7fffffff"
  for v :: uint32
proof (rule bit_word_eqI)
  fix n
  assume "n < LENGTH(32)"
  then show "bit (uint32_of_bytes (ucast (drop_bit 24 v) AND 0x7f) (ucast (drop_bit 16 v))
      (ucast (drop_bit 8 v)) (ucast v)) n \<longleftrightarrow> bit (v AND 0x7fffffff) n"
    unfolding mask_7f mask_7fffffff
    by (cases "8 \<le> n"; cases "16 \<le> n"; cases "24 \<le> n") (auto simp: uint32_of_bytes_def bit_simps)
qed

lemma and_7fffffff_idem [simp]: "(v AND 0x7fffffff) AND 0x7fffffff = (v AND 0x7fffffff :: uint32)"
  by (simp add: and.assoc)

lemma and_7fffffff_id: "v \<le> maxStreamID \<Longrightarrow> v AND 0x7fffffff = v"
proof -
  assume "v \<le> maxStreamID"
  then have "unat v < 2 ^ 31"
    unfolding maxStreamID_def by (simp add: word_le_nat_alt)
  then have "unat (take_bit 31 v) = unat v"
    by (simp add: unsigned_take_bit_eq take_bit_nat_eq_self)
  then have "take_bit 31 v = v" by (rule word_unat_eq_iff [THEN iffD2])
  then show ?thesis
    unfolding mask_7fffffff by (simp flip: take_bit_eq_mask)
qed

lemma and_7fffffff_le [simp]: "(v AND 0x7fffffff :: uint32) \<le> maxStreamID"
  unfolding maxStreamID_def by (rule word_and_le1)

lemma length_appendFrameHeader [simp]:
  "length (appendFrameHeader dst n t fl sid) = length dst + frameHeaderLen"
  by (simp add: appendFrameHeader_def)

lemma appendFrameHeader_dst: "appendFrameHeader dst n t fl sid = dst @ appendFrameHeader [] n t fl sid"
  by (simp add: appendFrameHeader_def)

lemma parse_frame_header:
  assumes "length payload < 2 ^ 24"
  shows "parse_frame (appendFrameHeader [] (length payload) t fl sid @ payload @ rest) =
    Some (Frame t fl (sid AND 0x7fffffff) payload, rest)"
  using assms length_bytes_24 [OF assms]
  by (simp add: appendFrameHeader_def Let_def wire_simps)

lemma frame_bytes_Frame:
  "frame_bytes (Frame t fl sid payload) = appendFrameHeader [] (length payload) t fl sid @ payload"
  by (simp add: frame_bytes_def)

lemma parse_frame_bytes:
  "wf_frame f \<Longrightarrow> parse_frame (frame_bytes f @ rest) = Some (f, rest)"
  by (cases f) (simp add: frame_bytes_def wf_frame_def parse_frame_header and_7fffffff_id)

lemma frame_bytes_nonempty: "frame_bytes f \<noteq> []"
  by (simp add: frame_bytes_def appendFrameHeader_def)

interpretation frame_codec: prefix_codec frame_bytes parse_frame wf_frame
  by unfold_locales (auto simp: parse_frame_bytes frame_bytes_nonempty)

lemma parse_frames_concat:
  "list_all wf_frame fs \<Longrightarrow> parse_frames (concat (map frame_bytes fs)) = Some fs"
  unfolding parse_frames_def by (rule frame_codec.decode_list_all)

lemma length_frame_bytes: "length (frame_bytes f) = 9 + length (f_payload f)"
  by (simp add: frame_bytes_def)

subsection \<open>Chunks\<close>

lemma chunks_short: "length xs \<le> n \<Longrightarrow> chunks n xs = [xs]"
  by (simp add: chunks.simps)

lemma chunks_long: "n < length xs \<Longrightarrow> 0 < n \<Longrightarrow> chunks n xs = take n xs # chunks n (drop n xs)"
  by (subst chunks.simps) simp

lemma chunks_nonempty [simp]: "chunks n xs \<noteq> []"
  by (subst chunks.simps) simp

lemma concat_chunks [simp]: "concat (chunks n xs) = xs"
proof (induction n xs rule: chunks.induct)
  case (1 n xs)
  then show ?case by (subst chunks.simps) simp
qed

lemma chunks_bound: "0 < n \<Longrightarrow> c \<in> set (chunks n xs) \<Longrightarrow> length c \<le> n"
proof (induction n xs rule: chunks.induct)
  case (1 n xs)
  then show ?case
    by (subst (asm) (2) chunks.simps) (auto split: if_splits)
qed

subsection \<open>The writers against the layout\<close>

lemma appendHeaders_frame:
  "appendHeaders dst sid block es = dst @ frame_bytes (headers_frame sid block es)"
  by (simp add: appendHeaders_def headers_frame_def frame_bytes_def Let_def
      appendFrameHeader_dst [of dst])

lemma data_frames_short:
  "length data \<le> defaultMaxFrameSize \<Longrightarrow>
   data_frames sid data es = [Frame frameData (if es then flagEndStream else 0) sid data]"
  by (simp add: data_frames_def chunks_short)

lemma data_frames_long:
  "defaultMaxFrameSize < length data \<Longrightarrow>
   data_frames sid data es =
     Frame frameData 0 sid (take defaultMaxFrameSize data) #
     data_frames sid (drop defaultMaxFrameSize data) es"
  by (simp add: data_frames_def chunks_long Let_def defaultMaxFrameSize_def)

lemma appendData_frames:
  "appendData dst sid data es = dst @ concat (map frame_bytes (data_frames sid data es))"
proof (induction dst sid data es rule: appendData.induct)
  case (1 dst sid data es)
  show ?case
  proof (cases "length data \<le> defaultMaxFrameSize")
    case True
    then show ?thesis
      by (subst appendData.simps)
        (simp add: data_frames_short frame_bytes_def min_def Let_def appendFrameHeader_dst [of dst])
  next
    case False
    with "1.IH" [OF refl refl refl refl] show ?thesis
      by (subst appendData.simps)
        (simp add: data_frames_long frame_bytes_Frame min_def Let_def appendFrameHeader_dst [of dst])
  qed
qed

lemma data_frames_wf: "sid \<le> maxStreamID \<Longrightarrow> list_all wf_frame (data_frames sid data es)"
proof -
  assume "sid \<le> maxStreamID"
  moreover have "length c < 2 ^ 24" if "c \<in> set (chunks defaultMaxFrameSize data)" for c
    using chunks_bound [OF _ that] by (simp add: defaultMaxFrameSize_def)
  ultimately show ?thesis
    by (auto simp: data_frames_def Let_def list_all_iff wf_frame_def dest: in_set_butlastD)
qed

lemma data_frames_payloads: "concat (map f_payload (data_frames sid data es)) = data"
proof -
  have "concat (map f_payload (data_frames sid data es)) =
      concat (butlast (chunks defaultMaxFrameSize data) @ [last (chunks defaultMaxFrameSize data)])"
    by (simp add: data_frames_def Let_def comp_def)
  also have "\<dots> = data"
    by (simp only: append_butlast_last_id [OF chunks_nonempty] concat_chunks)
  finally show ?thesis .
qed

lemma request_frames_wf:
  "sid \<le> maxStreamID \<Longrightarrow> length block < 2 ^ 24 \<Longrightarrow> list_all wf_frame (request_frames sid block body)"
  by (simp add: request_frames_def headers_frame_def wf_frame_def data_frames_wf)

subsection \<open>Properties\<close>

text \<open>A DATA write of any body, on any stream the client may use, is read back as frames of
  at most 16384 bytes, all of them on that stream, which carry exactly the body; and END_STREAM is
  set on the last one and no other, just when it was asked for.\<close>

theorem appendData_roundtrip:
  assumes "sid \<le> maxStreamID"
  shows "\<exists>fs. parse_frames (appendData [] sid data endStream) = Some fs
    \<and> concat (map f_payload fs) = data
    \<and> fs \<noteq> []
    \<and> list_all (\<lambda>f. f_type f = frameData \<and> f_stream f = sid
        \<and> length (f_payload f) \<le> defaultMaxFrameSize) fs
    \<and> list_all (\<lambda>f. f_flags f = 0) (butlast fs)
    \<and> f_flags (last fs) = (if endStream then flagEndStream else 0)"
proof (intro exI conjI)
  let ?fs = "data_frames sid data endStream"
  show "parse_frames (appendData [] sid data endStream) = Some ?fs"
    using assms by (simp add: appendData_frames parse_frames_concat data_frames_wf)
  show "concat (map f_payload ?fs) = data" by (rule data_frames_payloads)
  show "?fs \<noteq> []" by (simp add: data_frames_def Let_def)
  have "length c \<le> defaultMaxFrameSize" if "c \<in> set (chunks defaultMaxFrameSize data)" for c
    using that by (rule chunks_bound [rotated]) (simp add: defaultMaxFrameSize_def)
  then show "list_all (\<lambda>f. f_type f = frameData \<and> f_stream f = sid
      \<and> length (f_payload f) \<le> defaultMaxFrameSize) ?fs"
    by (auto simp: data_frames_def Let_def list_all_iff dest: in_set_butlastD)
  show "list_all (\<lambda>f. f_flags f = 0) (butlast ?fs)"
    by (auto simp: data_frames_def Let_def list_all_iff butlast_append)
  show "f_flags (last ?fs) = (if endStream then flagEndStream else 0)"
    by (simp add: data_frames_def Let_def)
qed

theorem appendData_roundtrip_witness:
  "\<exists>fs. parse_frames (appendData [] 7 (replicate 40000 1) True) = Some fs
    \<and> concat (map f_payload fs) = replicate 40000 1
    \<and> f_flags (last fs) = flagEndStream"
proof -
  have "(7 :: uint32) \<le> maxStreamID" by (simp add: maxStreamID_def)
  from appendData_roundtrip [OF this, of "replicate 40000 1" True] show ?thesis by auto
qed

text \<open>The connection preface is the 24 octets RFC 9113 opens a connection with, then a SETTINGS
  frame that turns push off and gives every stream a window of \<^const>\<open>ClientStreamWindow\<close>, then
  a WINDOW_UPDATE that takes the connection's window from the default to
  \<^const>\<open>ClientConnWindow\<close>.\<close>

theorem clientPreface_frames:
  "take 24 ClientPreface = bytes_of ''PRI * HTTP/2.0'' @ [13, 10, 13, 10] @ bytes_of ''SM'' @ [13, 10, 13, 10]
   \<and> parse_frames (drop 24 ClientPreface) = Some
      [Frame frameSettings 0 0 ([0, 2, 0, 0, 0, 0] @ append_uint32 [0, 4] (word_of_int ClientStreamWindow)),
       Frame frameWindowUpdate 0 0 (append_uint32 [] (word_of_int (ClientConnWindow - defaultWindow)))]
   \<and> defaultWindow + uint (word_of_int (ClientConnWindow - defaultWindow) :: uint32) = ClientConnWindow"
  by (simp add: ClientPreface_def clientPreface_def Let_def ClientStreamWindow_def ClientConnWindow_def
      append_uint16_def append_uint32_def appendWindowUpdate_def appendFrameHeader_def bytes_of_def
      parse_frames_def uint32_of_bytes_def drop_bit_eq_div)

end
