(* ===== verification/Hpack.thy ===== *)
theory Hpack
  imports Codec
begin

unbundle bit_operations_syntax

text \<open>
  The client's HPACK encoder: \<^verbatim>\<open>EncodeHeaderBlock\<close>, \<^verbatim>\<open>appendLiteral\<close> and
  \<^verbatim>\<open>appendHpackInt\<close> of \<^verbatim>\<open>benchcli-go/protocol/http2.go\<close>. What it is held to is the
  decoding RFC 7541 prescribes (integers of section 5.1, string literals of section 5.2, the field
  representations of section 6, the static table of appendix A), given here as a decoder without a
  dynamic table: it refuses every representation that would add to the table or resize it, so a
  block it accepts is one that leaves a peer's table as it found it.
\<close>

section \<open>The code\<close>

text \<open>The loop of \<^verbatim>\<open>appendHpackInt\<close>, seven bits at a time.\<close>

function hpackIntTail :: "bytes \<Rightarrow> uint64 \<Rightarrow> bytes" where
  "hpackIntTail dst v =
     (if 128 \<le> v then hpackIntTail (dst @ [ucast (v AND 0x7f) OR 0x80]) (drop_bit 7 v)
      else dst @ [ucast v])"
  by pat_completeness auto
termination
proof (relation "measure (\<lambda>(dst, v). unat v)")
  show "wf (measure (\<lambda>(dst :: bytes, v :: uint64). unat v))" by simp
next
  fix dst :: bytes and v :: uint64
  assume "128 \<le> v"
  then have "128 \<le> unat v" by (simp add: word_le_nat_alt)
  then show "((dst @ [ucast (v AND 0x7f) OR 0x80], drop_bit 7 v), (dst, v))
      \<in> measure (\<lambda>(dst, v). unat v)"
    by (simp only: in_measure case_prod_conv unat_drop_bit_div) simp
qed

declare hpackIntTail.simps [simp del]

definition appendHpackInt :: "bytes \<Rightarrow> nat \<Rightarrow> byte \<Rightarrow> uint64 \<Rightarrow> bytes" where
  "appendHpackInt dst n first v =
     (let limit = push_bit n 1 - 1 in
      if v < limit then dst @ [first OR ucast v]
      else hpackIntTail (dst @ [first OR ucast limit]) (v - limit))"

definition appendLiteral :: "bytes \<Rightarrow> nat \<Rightarrow> string \<Rightarrow> bytes" where
  "appendLiteral dst nameIndex value =
     (let dst = appendHpackInt dst 4 0x00 (of_nat nameIndex);
          dst = appendHpackInt dst 7 0x00 (of_nat (length value))
      in dst @ bytes_of value)"

text \<open>A Go slice that may be nil is an option: \<^term>\<open>None\<close> is nil, of length 0.\<close>

definition slice_len :: "bytes option \<Rightarrow> nat" where
  "slice_len body = (case body of None \<Rightarrow> 0 | Some b \<Rightarrow> length b)"

definition EncodeHeaderBlock :: "string \<Rightarrow> string \<Rightarrow> string \<Rightarrow> bytes option \<Rightarrow> bytes" where
  "EncodeHeaderBlock method authority path body =
     (let block = (if method = ''GET'' then [0x82]
                   else if method = ''POST'' then [0x83]
                   else appendLiteral [] 2 method);
          block = block @ [0x86];
          block = appendLiteral block 4 path;
          block = appendLiteral block 1 authority
      in if body \<noteq> None \<or> method = ''POST'' \<or> method = ''PUT''
         then appendLiteral (appendLiteral block 31 ''application/octet-stream'')
                28 (itoa (int (slice_len body)))
         else block)"

section \<open>Decoding, as RFC 7541 has it\<close>

fun dec_int_tail :: "nat \<Rightarrow> nat \<Rightarrow> bytes \<Rightarrow> (nat \<times> bytes) option" where
  "dec_int_tail acc m [] = None"
| "dec_int_tail acc m (b # bs) =
     (let acc' = acc + unat b mod 128 * 2 ^ m in
      if 128 \<le> unat b then dec_int_tail acc' (m + 7) bs else Some (acc', bs))"

fun dec_int :: "nat \<Rightarrow> bytes \<Rightarrow> (nat \<times> bytes) option" where
  "dec_int n [] = None"
| "dec_int n (b # bs) =
     (let i = unat b mod 2 ^ n in
      if i < 2 ^ n - 1 then Some (i, bs) else dec_int_tail i 0 bs)"

text \<open>A string literal that is not Huffman coded: the top bit of its first byte is clear.\<close>

fun dec_string :: "bytes \<Rightarrow> (string \<times> bytes) option" where
  "dec_string [] = None"
| "dec_string (b # bs) =
     (if 128 \<le> unat b then None
      else case dec_int 7 (b # bs) of
        None \<Rightarrow> None
      | Some (len, rest) \<Rightarrow>
          if len \<le> length rest then Some (string_of_bytes (take len rest), drop len rest) else None)"

datatype field_repr = Indexed nat | LiteralNoIndex nat string

fun parse_field :: "bytes \<Rightarrow> (field_repr \<times> bytes) option" where
  "parse_field [] = None"
| "parse_field (b # bs) =
     (if 128 \<le> unat b then map_option (\<lambda>(i, rest). (Indexed i, rest)) (dec_int 7 (b # bs))
      else if unat b < 16 then
        (case dec_int 4 (b # bs) of
           None \<Rightarrow> None
         | Some (i, rest) \<Rightarrow>
             if i = 0 then None
             else map_option (\<lambda>(v, rest'). (LiteralNoIndex i v, rest')) (dec_string rest))
      else None)"

definition hpack_static :: "(string \<times> string) list" where
  "hpack_static =
    [('':authority'', ''''), ('':method'', ''GET''), ('':method'', ''POST''), ('':path'', ''/''),
     ('':path'', ''/index.html''), ('':scheme'', ''http''), ('':scheme'', ''https''),
     ('':status'', ''200''), ('':status'', ''204''), ('':status'', ''206''), ('':status'', ''304''),
     ('':status'', ''400''), ('':status'', ''404''), ('':status'', ''500''), (''accept-charset'', ''''),
     (''accept-encoding'', ''gzip, deflate''), (''accept-language'', ''''), (''accept-ranges'', ''''),
     (''accept'', ''''), (''access-control-allow-origin'', ''''), (''age'', ''''), (''allow'', ''''),
     (''authorization'', ''''), (''cache-control'', ''''), (''content-disposition'', ''''),
     (''content-encoding'', ''''), (''content-language'', ''''), (''content-length'', ''''),
     (''content-location'', ''''), (''content-range'', ''''), (''content-type'', ''''), (''cookie'', ''''),
     (''date'', ''''), (''etag'', ''''), (''expect'', ''''), (''expires'', ''''), (''from'', ''''),
     (''host'', ''''), (''if-match'', ''''), (''if-modified-since'', ''''), (''if-none-match'', ''''),
     (''if-range'', ''''), (''if-unmodified-since'', ''''), (''last-modified'', ''''), (''link'', ''''),
     (''location'', ''''), (''max-forwards'', ''''), (''proxy-authenticate'', ''''),
     (''proxy-authorization'', ''''), (''range'', ''''), (''referer'', ''''), (''refresh'', ''''),
     (''retry-after'', ''''), (''server'', ''''), (''set-cookie'', ''''),
     (''strict-transport-security'', ''''), (''transfer-encoding'', ''''), (''user-agent'', ''''),
     (''vary'', ''''), (''via'', ''''), (''www-authenticate'', '''')]"

definition static_entry :: "nat \<Rightarrow> (string \<times> string) option" where
  "static_entry i =
     (if 1 \<le> i \<and> i \<le> length hpack_static then Some (hpack_static ! (i - 1)) else None)"

fun resolve_field :: "field_repr \<Rightarrow> (string \<times> string) option" where
  "resolve_field (Indexed i) = static_entry i"
| "resolve_field (LiteralNoIndex i v) = map_option (\<lambda>(name, _). (name, v)) (static_entry i)"

definition decode_block :: "bytes \<Rightarrow> (string \<times> string) list option" where
  "decode_block bs =
     (case decode_list parse_field (length bs) bs of
        None \<Rightarrow> None
      | Some reprs \<Rightarrow> those (map resolve_field reprs))"

text \<open>The encoder's side of a representation, and which of them it can write.\<close>

fun enc_field :: "field_repr \<Rightarrow> bytes" where
  "enc_field (Indexed i) = [0x80 OR of_nat i]"
| "enc_field (LiteralNoIndex i v) = appendLiteral [] i v"

fun wf_field :: "field_repr \<Rightarrow> bool" where
  "wf_field (Indexed i) \<longleftrightarrow> i < 127"
| "wf_field (LiteralNoIndex i v) \<longleftrightarrow> 0 < i \<and> i < 2 ^ 64 \<and> length v < 2 ^ 64"

text \<open>
  The representations a request's header block is made of, and the header list it stands for.
\<close>

definition carries_body :: "string \<Rightarrow> bytes option \<Rightarrow> bool" where
  "carries_body method body \<longleftrightarrow> body \<noteq> None \<or> method = ''POST'' \<or> method = ''PUT''"

definition block_reprs :: "string \<Rightarrow> string \<Rightarrow> string \<Rightarrow> bytes option \<Rightarrow> field_repr list" where
  "block_reprs method authority path body =
     [if method = ''GET'' then Indexed 2 else if method = ''POST'' then Indexed 3
      else LiteralNoIndex 2 method,
      Indexed 6, LiteralNoIndex 4 path, LiteralNoIndex 1 authority] @
     (if carries_body method body
      then [LiteralNoIndex 31 ''application/octet-stream'',
            LiteralNoIndex 28 (itoa (int (slice_len body)))]
      else [])"

definition request_fields :: "string \<Rightarrow> string \<Rightarrow> string \<Rightarrow> bytes option \<Rightarrow> (string \<times> string) list" where
  "request_fields method authority path body =
     [('':method'', method), ('':scheme'', ''http''), ('':path'', path), ('':authority'', authority)] @
     (if carries_body method body
      then [(''content-type'', ''application/octet-stream''),
            (''content-length'', itoa (int (slice_len body)))]
      else [])"

section \<open>Lemmas\<close>

subsection \<open>Strings as bytes\<close>

lemma length_bytes_of [simp]: "length (bytes_of s) = length s"
  by (simp add: bytes_of_def)

lemma string_of_bytes_of [simp]: "string_of_bytes (bytes_of s) = s"
  by (induction s) (auto simp: string_of_bytes_def bytes_of_def unat_of_nat take_bit_nat_eq_self)

subsection \<open>Integers\<close>

lemma hpackIntTail_append: "hpackIntTail (pre @ dst) v = pre @ hpackIntTail dst v"
proof (induction dst v rule: hpackIntTail.induct)
  case (1 dst v)
  then show ?case
    by (simp add: hpackIntTail.simps [of "pre @ dst" v] hpackIntTail.simps [of dst v])
qed

lemma hpackIntTail_dst: "hpackIntTail dst v = dst @ hpackIntTail [] v"
  using hpackIntTail_append [of dst "[]" v] by simp

lemma appendHpackInt_dst: "appendHpackInt dst n first v = dst @ appendHpackInt [] n first v"
  by (simp add: appendHpackInt_def Let_def hpackIntTail_dst [of "dst @ _"] hpackIntTail_dst [of "[_]"])

lemma appendLiteral_Nil:
  "appendLiteral [] i v =
     appendHpackInt [] 4 0 (of_nat i) @ appendHpackInt [] 7 0 (of_nat (length v)) @ bytes_of v"
  by (simp add: appendLiteral_def Let_def appendHpackInt_dst [of "appendHpackInt _ _ _ _"])

lemma appendLiteral_dst: "appendLiteral dst i v = dst @ appendLiteral [] i v"
  unfolding appendLiteral_Nil
  by (simp add: appendLiteral_def Let_def appendHpackInt_dst [of dst] appendHpackInt_dst [of "dst @ _"])

lemma nat_or_128: "k < 128 \<Longrightarrow> k OR 128 = k + (128 :: nat)"
proof -
  assume "k < 128"
  then have "k = take_bit 7 k" by (simp add: take_bit_nat_eq_self)
  moreover have "(128 :: nat) = push_bit 7 1" by simp
  ultimately have "k AND 128 = 0"
    by (metis (no_types) bit_eq_iff bit_and_iff bit_take_bit_iff bit_push_bit_iff
        bit_0_eq bot_apply bot_bool_def not_le)
  then show ?thesis by (rule disjunctive_add_eq_or [symmetric])
qed

lemma unat_low_bits: "unat (ucast (v AND 0x7f) OR 0x80 :: byte) = unat v mod 128 + 128"
  for v :: uint64
proof -
  have m: "(0x7f :: uint64) = mask 7" by (simp add: mask_eq_exp_minus_1)
  have "unat (ucast (v AND 0x7f) OR 0x80 :: byte) = take_bit 7 (unat v) OR 128"
    unfolding m by (simp add: unsigned_or_eq unsigned_ucast_eq unsigned_take_bit_eq
        take_bit_take_bit flip: take_bit_eq_mask)
  then show ?thesis by (simp add: nat_or_128 take_bit_eq_mod)
qed

lemma split_7_bits: "k mod 128 * 2 ^ m + k div 128 * 2 ^ (m + 7) = k * 2 ^ m" for k :: nat
proof -
  have "k * 2 ^ m = (k div 128 * 128 + k mod 128) * 2 ^ m" by simp
  also have "\<dots> = k div 128 * 128 * 2 ^ m + k mod 128 * 2 ^ m" by (rule distrib_right)
  also have "\<dots> = k mod 128 * 2 ^ m + k div 128 * 2 ^ (m + 7)" by (simp add: power_add)
  finally show ?thesis ..
qed

lemma hpackIntTail_Cons:
  "128 \<le> v \<Longrightarrow> hpackIntTail [] v = (ucast (v AND 0x7f) OR 0x80) # hpackIntTail [] (drop_bit 7 v)"
  using hpackIntTail_dst [of "[ucast (v AND 0x7f) OR 0x80]" "drop_bit 7 v"]
  by (subst hpackIntTail.simps) simp

lemma dec_int_tail_hpackIntTail:
  "dec_int_tail acc m (hpackIntTail [] v @ rest) = Some (acc + unat v * 2 ^ m, rest)"
proof (induction "unat v" arbitrary: v acc m rule: less_induct)
  case less
  show ?case
  proof (cases "128 \<le> v")
    case True
    let ?b = "ucast (v AND 0x7f) OR 0x80 :: byte" and ?acc = "acc + unat v mod 128 * 2 ^ m"
    from True have "128 \<le> unat v" by (simp add: word_le_nat_alt)
    then have IH: "dec_int_tail ?acc (m + 7) (hpackIntTail [] (drop_bit 7 v) @ rest) =
        Some (?acc + unat v div 128 * 2 ^ (m + 7), rest)"
      using less [of "drop_bit 7 v" ?acc "m + 7"] unat_drop_bit_div [of 7 v] by simp
    have "dec_int_tail acc m (hpackIntTail [] v @ rest) =
        dec_int_tail ?acc (m + 7) (hpackIntTail [] (drop_bit 7 v) @ rest)"
      by (simp only: hpackIntTail_Cons [OF True] append_Cons dec_int_tail.simps unat_low_bits)
        (simp add: Let_def)
    with IH split_7_bits [of "unat v" m] show ?thesis by simp
  next
    case False
    then have "unat v < 128" by (simp add: word_le_nat_alt)
    with False show ?thesis
      by (subst hpackIntTail.simps) (simp add: unsigned_ucast_eq take_bit_nat_eq_self)
  qed
qed

lemma unat_first_byte:
  assumes "n \<le> 8" and "unat first mod 2 ^ n = 0" and "unat x < 2 ^ n"
  shows "unat (first OR ucast x :: byte) mod 2 ^ n = unat x"
    and "unat (first OR ucast x :: byte) div 2 ^ n = unat first div 2 ^ n"
proof -
  have "(2 :: nat) ^ n \<le> 2 ^ 8" using assms(1) by (rule power_increasing) simp
  with assms(3) have x: "unat (ucast x :: byte) = unat x"
    by (simp add: unsigned_ucast_eq take_bit_nat_eq_self)
  have or: "unat (first OR ucast x :: byte) = unat first OR unat x"
    by (simp add: unsigned_or_eq x)
  have "take_bit n (unat first OR unat x) = unat x"
    using assms(2,3) by (simp add: take_bit_nat_eq_self flip: take_bit_eq_mod)
  then show "unat (first OR ucast x :: byte) mod 2 ^ n = unat x"
    by (simp add: or take_bit_eq_mod)
  have "drop_bit n (unat x) = 0" using assms(3) by (simp add: drop_bit_eq_div)
  then have "drop_bit n (unat first OR unat x) = drop_bit n (unat first)" by simp
  then show "unat (first OR ucast x :: byte) div 2 ^ n = unat first div 2 ^ n"
    by (simp add: or drop_bit_eq_div)
qed

lemma unat_limit: "n \<le> 8 \<Longrightarrow> unat (push_bit n 1 - 1 :: uint64) = 2 ^ n - 1"
proof -
  assume "n \<le> 8"
  then have "n \<in> {0, 1, 2, 3, 4, 5, 6, 7, 8}" by auto
  then show ?thesis by auto
qed

lemma dec_int_appendHpackInt:
  assumes n: "0 < n" "n \<le> 8" and first: "unat first mod 2 ^ n = 0"
  shows "dec_int n (appendHpackInt [] n first v @ rest) = Some (unat v, rest)"
proof -
  let ?limit = "push_bit n 1 - 1 :: uint64"
  have lim: "unat ?limit = 2 ^ n - 1" using n(2) by (rule unat_limit)
  show ?thesis
  proof (cases "v < ?limit")
    case True
    with lim have v: "unat v < 2 ^ n - 1" by (simp add: word_less_nat_alt)
    with unat_first_byte(1) [OF n(2) first, of v] True show ?thesis
      by (simp add: appendHpackInt_def Let_def)
  next
    case False
    then have "?limit \<le> v" by simp
    then have v: "unat (v - ?limit) = unat v - (2 ^ n - 1)" and le: "2 ^ n - 1 \<le> unat v"
      using lim by (simp_all add: unat_sub word_le_nat_alt)
    have "unat (first OR ucast ?limit :: byte) mod 2 ^ n = 2 ^ n - 1"
      using unat_first_byte(1) [OF n(2) first, of ?limit] lim by simp
    with False v le show ?thesis
      by (simp add: appendHpackInt_def Let_def hpackIntTail_dst [of "[_]"] dec_int_tail_hpackIntTail)
  qed
qed

text \<open>How long an integer gets: one byte for a small one, and never more than eleven.\<close>

lemma length_hpackIntTail: "unat v < 128 ^ k \<Longrightarrow> 0 < k \<Longrightarrow> length (hpackIntTail [] v) \<le> k"
proof (induction k arbitrary: v)
  case 0
  then show ?case by simp
next
  case (Suc k)
  show ?case
  proof (cases "128 \<le> v")
    case True
    then have ge: "128 \<le> unat v" by (simp add: word_le_nat_alt)
    have "unat v div 128 < 128 ^ k"
      using Suc.prems(1) by (simp add: less_mult_imp_div_less mult.commute)
    then have "unat (drop_bit 7 v) < 128 ^ k" using unat_drop_bit_div [of 7 v] by simp
    moreover from ge Suc.prems(1) have "0 < k" by (cases k) auto
    ultimately show ?thesis using Suc.IH [of "drop_bit 7 v"] True by (simp add: hpackIntTail_Cons)
  next
    case False
    then show ?thesis by (subst hpackIntTail.simps) simp
  qed
qed

lemma length_appendHpackInt: "length (appendHpackInt [] n first v) \<le> 11"
proof -
  have "unat x < 128 ^ 10" for x :: uint64
    using unsigned_less [of x, where 'a = nat] by (rule less_le_trans) simp
  then have "length (hpackIntTail [] x) \<le> 10" for x :: uint64
    by (rule length_hpackIntTail) simp_all
  then show ?thesis
    by (simp add: appendHpackInt_def Let_def hpackIntTail_dst [of "[_]"])
qed

subsection \<open>Fields\<close>

lemma appendHpackInt_Cons: "\<exists>b bs. appendHpackInt [] n first v = b # bs"
  by (cases "appendHpackInt [] n first v")
    (auto simp: appendHpackInt_def Let_def hpackIntTail_dst [of "[_]"] split: if_splits)

lemma hd_appendHpackInt_less:
  assumes "n \<le> 8" and "appendHpackInt [] n 0 v = b # bs"
  shows "unat b < 2 ^ n"
proof -
  let ?limit = "push_bit n 1 - 1 :: uint64"
  have lim: "unat ?limit = 2 ^ n - 1" using assms(1) by (rule unat_limit)
  have "unat (ucast x :: byte) < 2 ^ n" if "x \<le> ?limit" for x :: uint64
  proof -
    have "(0 :: nat) < 2 ^ n" by simp
    with that [unfolded word_le_nat_alt lim] have "unat x < 2 ^ n" by linarith
    moreover have "unat (ucast x :: byte) \<le> unat x" by (simp add: unsigned_ucast_eq)
    ultimately show ?thesis by (rule le_less_trans [rotated])
  qed
  with assms(2) show ?thesis
    by (auto simp: appendHpackInt_def Let_def hpackIntTail_dst [of "[_]"] split: if_splits)
qed

lemma dec_string_append:
  assumes "length v < 2 ^ 64"
  shows "dec_string (appendHpackInt [] 7 0 (of_nat (length v)) @ bytes_of v @ rest) = Some (v, rest)"
proof -
  obtain b bs where b: "appendHpackInt [] 7 0 (of_nat (length v)) = b # bs"
    using appendHpackInt_Cons by blast
  have "unat b < 2 ^ 7" by (rule hd_appendHpackInt_less [OF _ b]) simp
  moreover have "unat (of_nat (length v) :: uint64) = length v"
    using assms by (simp add: unat_of_nat take_bit_nat_eq_self)
  moreover note dec_int_appendHpackInt [of 7 0 "of_nat (length v)" "bytes_of v @ rest"]
  ultimately show ?thesis by (simp add: b)
qed

lemma parse_field_enc: "wf_field f \<Longrightarrow> parse_field (enc_field f @ rest) = Some (f, rest)"
proof (cases f)
  case (Indexed i)
  moreover assume "wf_field f"
  ultimately have i: "i < 127" by simp
  then have "unat (of_nat i :: byte) = i" by (simp add: unat_of_nat take_bit_nat_eq_self)
  with i have "unat (0x80 OR of_nat i :: byte) = 128 + i"
    using nat_or_128 [of i] by (simp add: unsigned_or_eq or.commute)
  with i Indexed show ?thesis by (simp add: Let_def)
next
  case (LiteralNoIndex i v)
  moreover assume "wf_field f"
  ultimately have i: "0 < i" "i < 2 ^ 64" and v: "length v < 2 ^ 64" by simp_all
  obtain b bs where b: "appendHpackInt [] 4 0 (of_nat i) = b # bs"
    using appendHpackInt_Cons by blast
  have "unat b < 2 ^ 4" by (rule hd_appendHpackInt_less [OF _ b]) simp
  moreover have "unat (of_nat i :: uint64) = i"
    using i by (simp add: unat_of_nat take_bit_nat_eq_self)
  moreover note dec_int_appendHpackInt [of 4 0 "of_nat i"
      "appendHpackInt [] 7 0 (of_nat (length v)) @ bytes_of v @ rest"]
  ultimately show ?thesis
    using i LiteralNoIndex by (simp add: appendLiteral_Nil b dec_string_append [OF v])
qed

lemma enc_field_nonempty: "enc_field f \<noteq> []"
  using appendHpackInt_Cons [of 4 0] by (cases f) (auto simp: appendLiteral_Nil, metis list.distinct(1))

interpretation field_codec: prefix_codec enc_field parse_field wf_field
  by unfold_locales (auto simp: parse_field_enc enc_field_nonempty)

subsection \<open>Header blocks\<close>

lemma EncodeHeaderBlock_reprs:
  "EncodeHeaderBlock method authority path body =
     concat (map enc_field (block_reprs method authority path body))"
  by (simp add: EncodeHeaderBlock_def block_reprs_def carries_body_def Let_def
      appendLiteral_dst [of "appendLiteral _ _ _"] appendLiteral_dst [of "_ @ _"] appendLiteral_dst [of "_ # _"])

lemma length_itoa_len: "slice_len body < 2 ^ 63 \<Longrightarrow> length (itoa (int (slice_len body))) \<le> 19"
  by (simp add: itoa_def length_itoa_nat)

lemma block_reprs_wf:
  assumes "length method < 2 ^ 63" and "length authority < 2 ^ 63" and "length path < 2 ^ 63"
    and "slice_len body < 2 ^ 63"
  shows "list_all wf_field (block_reprs method authority path body)"
  using assms length_itoa_len [OF assms(4)] by (simp add: block_reprs_def)

lemma resolve_block_reprs:
  "those (map resolve_field (block_reprs method authority path body)) =
     Some (request_fields method authority path body)"
  by (simp add: block_reprs_def request_fields_def static_entry_def hpack_static_def)

lemma length_appendLiteral: "length (appendLiteral [] i v) \<le> 22 + length v"
  using length_appendHpackInt [of 4 0 "of_nat i"] length_appendHpackInt [of 7 0 "of_nat (length v)"]
  by (simp add: appendLiteral_Nil)

lemma length_enc_field: "length (enc_field f) \<le> (case f of Indexed i \<Rightarrow> 1 | LiteralNoIndex i v \<Rightarrow> 22 + length v)"
  using length_appendLiteral by (cases f) simp_all

section \<open>Properties\<close>

text \<open>An HPACK integer, for every prefix length and every 64-bit value, is decoded back to the
  value, whatever follows it on the wire; and it takes at most eleven bytes.\<close>

theorem appendHpackInt_roundtrip:
  assumes "0 < n" and "n \<le> 8" and "unat first mod 2 ^ n = 0"
  shows "\<exists>bs. appendHpackInt dst n first v = dst @ bs \<and> length bs \<le> 11
    \<and> dec_int n (bs @ rest) = Some (unat v, rest)"
  using dec_int_appendHpackInt [OF assms] length_appendHpackInt appendHpackInt_dst by blast

theorem appendHpackInt_roundtrip_witness:
  "\<exists>bs. appendHpackInt [9] 5 0x60 1337 = [9] @ bs \<and> length bs \<le> 11
    \<and> dec_int 5 (bs @ [1, 2]) = Some (1337, [1, 2])"
  using appendHpackInt_roundtrip [of 5 "0x60" "[9]" 1337 "[1, 2]"] by simp

lemma decode_EncodeHeaderBlock:
  assumes "length method < 2 ^ 63" and "length authority < 2 ^ 63" and "length path < 2 ^ 63"
    and "slice_len body < 2 ^ 63"
  shows "decode_block (EncodeHeaderBlock method authority path body) =
    Some (request_fields method authority path body)"
  using field_codec.decode_list_all [OF block_reprs_wf [OF assms]]
  by (simp add: decode_block_def EncodeHeaderBlock_reprs resolve_block_reprs)

text \<open>C20. A request's header block, decoded as RFC 7541 has it and without a dynamic table, is the
  request's header list: method, scheme, path and authority, and, for a request that carries a body,
  its content-type and its content-length. The decoder refuses whatever would touch the dynamic
  table, so the block leaves it as it found it.\<close>

theorem EncodeHeaderBlock_roundtrip:
  assumes "length method < 2 ^ 63" and "length authority < 2 ^ 63" and "length path < 2 ^ 63"
    and "slice_len body < 2 ^ 63"
  shows "decode_block (EncodeHeaderBlock method authority path body) =
    Some (request_fields method authority path body)"
  using assms by (rule decode_EncodeHeaderBlock)

theorem EncodeHeaderBlock_roundtrip_witness:
  "decode_block (EncodeHeaderBlock ''POST'' (replicate 300 CHR ''h'') ''/echo'' (Some (replicate 1024 0))) =
    Some [('':method'', ''POST''), ('':scheme'', ''http''), ('':path'', ''/echo''),
      ('':authority'', replicate 300 CHR ''h''), (''content-type'', ''application/octet-stream''),
      (''content-length'', ''1024'')]"
proof -
  have "itoa (int (slice_len (Some (replicate 1024 (0 :: byte))))) = ''1024''"
    by (simp add: slice_len_def itoa_def itoa_nat.simps)
  with EncodeHeaderBlock_roundtrip [of "''POST''" "replicate 300 CHR ''h''" "''/echo''" "Some (replicate 1024 0)"]
  show ?thesis by (simp add: request_fields_def carries_body_def slice_len_def)
qed

lemma length_EncodeHeaderBlock:
  assumes "slice_len body < 2 ^ 63"
  shows "length (EncodeHeaderBlock method authority path body)
    \<le> 160 + length method + length authority + length path"
proof -
  have "length (enc_field f) \<le> (case f of Indexed i \<Rightarrow> 1 | LiteralNoIndex i v \<Rightarrow> 22 + length v)" for f
    by (rule length_enc_field)
  note b = this [of "LiteralNoIndex 2 method"] this [of "LiteralNoIndex 4 path"]
    this [of "LiteralNoIndex 1 authority"] this [of "LiteralNoIndex 31 ''application/octet-stream''"]
    this [of "LiteralNoIndex 28 (itoa (int (slice_len body)))"]
  show ?thesis
    using b length_itoa_len [OF assms]
    by (simp add: EncodeHeaderBlock_reprs block_reprs_def del: enc_field.simps(2))
qed

text \<open>A header block is small: at most 160 bytes more than its method, authority and path
  together, so one HEADERS frame within every peer's frame size limit carries it whole unless those
  three are longer than sixteen thousand bytes.\<close>

theorem EncodeHeaderBlock_small:
  assumes "slice_len body < 2 ^ 63"
  shows "length (EncodeHeaderBlock method authority path body)
    \<le> 160 + length method + length authority + length path"
  using assms by (rule length_EncodeHeaderBlock)

theorem EncodeHeaderBlock_small_witness:
  "length (EncodeHeaderBlock ''GET'' ''[::1]'' ''/echo'' None) \<le> 160 + 3 + 5 + 5"
  using EncodeHeaderBlock_small [of None "''GET''" "''[::1]''" "''/echo''"] by (simp add: slice_len_def)

end
