(* ===== verification/Request.thy ===== *)
theory Request
  imports Frames Hpack
begin

unbundle bit_operations_syntax

text \<open>
  A request encoded once and written again and again: \<^verbatim>\<open>Request\<close>, \<^verbatim>\<open>NewRequest\<close>,
  \<^verbatim>\<open>AppendTo\<close>, \<^verbatim>\<open>Repeat\<close>, \<^verbatim>\<open>BatchSize\<close> and \<^verbatim>\<open>ValidateBatch\<close> of
  \<^verbatim>\<open>benchcli-go/protocol/http2.go\<close>. The optimised path - a cached encoding with stream
  identifiers patched in at remembered offsets - is shown to write exactly the frames the plain
  frame writers of theory \<open>Frames\<close> would.
\<close>

section \<open>The code\<close>

record Request =
  req_Block :: bytes
  req_Body :: "bytes option"
  req_encoded :: bytes
  req_idOffsets :: "nat list"

definition slice_bytes :: "bytes option \<Rightarrow> bytes" where
  "slice_bytes body = (case body of None \<Rightarrow> [] | Some b \<Rightarrow> b)"

text \<open>The loop of \<^verbatim>\<open>NewRequest\<close>: one DATA frame per \<open>defaultMaxFrameSize\<close> bytes of body.\<close>

function newRequestLoop :: "bytes \<Rightarrow> nat \<Rightarrow> bytes \<times> nat list \<Rightarrow> bytes \<times> nat list" where
  "newRequestLoop body off (encoded, idOffsets) =
     (if off < length body then
        (let idOffsets' = idOffsets @ [length encoded + 5];
             last = min (off + defaultMaxFrameSize) (length body);
             encoded' = appendData encoded 0 (take (last - off) (drop off body)) (last = length body)
         in newRequestLoop body (off + defaultMaxFrameSize) (encoded', idOffsets'))
      else (encoded, idOffsets))"
  by pat_completeness auto
termination
  by (relation "measure (\<lambda>(body, off, acc). length body - off)") (auto simp: defaultMaxFrameSize_def)

declare newRequestLoop.simps [simp del]

definition NewRequest :: "string \<Rightarrow> string \<Rightarrow> string \<Rightarrow> bytes option \<Rightarrow> Request" where
  "NewRequest meth authority path body =
     (let block = EncodeHeaderBlock meth authority path body;
          hasBody = (0 < slice_len body);
          idOffsets = [5];
          encoded = appendHeaders [] 0 block (\<not> hasBody);
          (encoded, idOffsets) =
            (if hasBody then newRequestLoop (slice_bytes body) 0 (encoded, idOffsets)
             else (encoded, idOffsets))
      in \<lparr>req_Block = block, req_Body = body, req_encoded = encoded, req_idOffsets = idOffsets\<rparr>)"

definition Request_Len :: "Request \<Rightarrow> nat" where
  "Request_Len r = length (req_encoded r)"

definition AppendTo :: "Request \<Rightarrow> bytes \<Rightarrow> uint32 \<Rightarrow> bytes" where
  "AppendTo r dst streamID =
     foldl (\<lambda>buf off. put_uint32 buf (length dst + off) (streamID AND 0x7fffffff))
       (dst @ req_encoded r) (req_idOffsets r)"

definition Repeat :: "Request \<Rightarrow> bytes \<Rightarrow> uint32 \<Rightarrow> nat \<Rightarrow> bytes" where
  "Repeat r dst firstID n =
     foldl (\<lambda>buf i. AppendTo r buf (firstID + of_nat (2 * i))) dst [0..<n]"

text \<open>\<^verbatim>\<open>BatchSize\<close>; a request of no bytes is a division by zero, which panics (\<open>None\<close>).\<close>

function batchLoop :: "int \<Rightarrow> int \<Rightarrow> int" where
  "batchLoop rate batch =
     (if batch > 1 \<and> rate smod batch \<noteq> 0 then batchLoop rate (batch - 1) else batch)"
  by pat_completeness auto
termination
  by (relation "measure (\<lambda>(rate, batch). nat batch)") auto

declare batchLoop.simps [simp del]

definition BatchSize :: "int \<Rightarrow> int \<Rightarrow> int \<Rightarrow> (int \<times> int) option" where
  "BatchSize reqLen rate maxLen =
     (if reqLen = 0 then None
      else let batch = maxLen sdiv reqLen;
               batch = (if batch < 1 then 1 else batch);
               batch = batchLoop rate batch
           in Some (batch, rate sdiv batch))"

datatype batch_error = BatchNegative int | BatchDoesNotDivide int int

definition ValidateBatch :: "int \<Rightarrow> int \<Rightarrow> batch_error option" where
  "ValidateBatch batch rate =
     (if batch < 0 then Some (BatchNegative batch)
      else if batch > 0 \<and> rate smod batch \<noteq> 0 then Some (BatchDoesNotDivide batch rate)
      else None)"

section \<open>What a request writer promises\<close>

text \<open>
  The interface the connection relies on: a request written on a stream is the HEADERS frame of its
  block, then the DATA frames of its body, on that stream. A batch then is those frames on
  consecutive odd or even identifiers. Which requests it holds for is the locale's \<open>made\<close>.
\<close>

definition batch_ids :: "uint32 \<Rightarrow> nat \<Rightarrow> uint32 list" where
  "batch_ids firstID n = map (\<lambda>i. firstID + of_nat (2 * i)) [0..<n]"

definition made_request :: "Request \<Rightarrow> bool" where
  "made_request r \<longleftrightarrow> (\<exists>meth authority path body. r = NewRequest meth authority path body)"

definition append_all :: "(bytes \<Rightarrow> uint32 \<Rightarrow> bytes) \<Rightarrow> bytes \<Rightarrow> uint32 list \<Rightarrow> bytes" where
  "append_all app dst ids = foldl app dst ids"

locale request_writer =
  fixes append_to :: "'r \<Rightarrow> bytes \<Rightarrow> uint32 \<Rightarrow> bytes"
    and block :: "'r \<Rightarrow> bytes"
    and body :: "'r \<Rightarrow> bytes"
    and made :: "'r \<Rightarrow> bool"
  assumes append_to_frames:
    "made r \<Longrightarrow> append_to r dst sid = dst @ concat (map frame_bytes (request_frames sid (block r) (body r)))"
begin

lemma parse_append_to:
  "made r \<Longrightarrow> sid \<le> maxStreamID \<Longrightarrow> length (block r) < 2 ^ 24 \<Longrightarrow>
   parse_frames (append_to r [] sid) = Some (request_frames sid (block r) (body r))"
  by (simp add: append_to_frames parse_frames_concat request_frames_wf)

lemma append_all_frames:
  "made r \<Longrightarrow> append_all (append_to r) dst ids =
     dst @ concat (map frame_bytes (concat (map (\<lambda>sid. request_frames sid (block r) (body r)) ids)))"
  by (induction ids arbitrary: dst) (simp_all add: append_all_def append_to_frames)

lemma parse_append_all:
  assumes "made r" and "list_all (\<lambda>sid. sid \<le> maxStreamID) ids" and "length (block r) < 2 ^ 24"
  shows "parse_frames (append_all (append_to r) [] ids) =
    Some (concat (map (\<lambda>sid. request_frames sid (block r) (body r)) ids))"
proof -
  have "list_all wf_frame (concat (map (\<lambda>sid. request_frames sid (block r) (body r)) ids))"
    using assms(2,3) request_frames_wf by (fastforce simp: list_all_iff)
  then show ?thesis using assms(1) by (simp add: append_all_frames parse_frames_concat)
qed

end

section \<open>Lemmas\<close>

subsection \<open>Patching a stream identifier\<close>

definition with_stream :: "uint32 \<Rightarrow> frame \<Rightarrow> frame" where
  "with_stream sid f = Frame (f_type f) (f_flags f) sid (f_payload f)"

text \<open>Where the stream identifiers of a run of frames are, from an offset on.\<close>

fun offsets_of :: "nat \<Rightarrow> frame list \<Rightarrow> nat list" where
  "offsets_of off [] = []"
| "offsets_of off (f # fs) = (off + 5) # offsets_of (off + length (frame_bytes f)) fs"

lemma masked_id_bytes:
  "(ucast (drop_bit 24 (v AND 0x7fffffff)) :: byte) = ucast (drop_bit 24 v) AND 0x7f"
  "(ucast (drop_bit 16 (v AND 0x7fffffff)) :: byte) = ucast (drop_bit 16 v)"
  "(ucast (drop_bit 8 (v AND 0x7fffffff)) :: byte) = ucast (drop_bit 8 v)"
  "(ucast (v AND 0x7fffffff) :: byte) = ucast v"
  for v :: uint32
  unfolding mask_7fffffff mask_7f
  by (rule bit_word_eqI; auto simp: bit_simps)+

lemma patch_frame:
  "put_uint32 (pre @ frame_bytes f @ rest) (length pre + 5) (sid AND 0x7fffffff) =
     pre @ frame_bytes (with_stream sid f) @ rest"
  using put_uint32_append [of "pre @ _ # _ # _ # _ # [_]" "length pre + 5"]
  by (cases f) (simp add: frame_bytes_Frame with_stream_def appendFrameHeader_def
      append_uint32_def masked_id_bytes del: drop_bit_and)

lemma patch_frames:
  "foldl (\<lambda>buf off. put_uint32 buf (start + off) (sid AND 0x7fffffff))
     (pre @ concat (map frame_bytes fs)) (offsets_of (length pre - start) fs) =
   pre @ concat (map (frame_bytes \<circ> with_stream sid) fs)" if "start \<le> length pre"
  using that
proof (induction fs arbitrary: pre)
  case Nil
  then show ?case by simp
next
  case (Cons f fs)
  let ?pre = "pre @ frame_bytes (with_stream sid f)"
  have len: "length ?pre - start = length pre - start + length (frame_bytes f)"
    using Cons.prems by (simp add: length_frame_bytes with_stream_def)
  show ?case
    using Cons.IH [of ?pre] Cons.prems patch_frame [of pre f "concat (map frame_bytes fs)" sid]
    by (simp add: len [symmetric])
qed

subsection \<open>What \<^verbatim>\<open>NewRequest\<close> caches\<close>

lemma offsets_of_append:
  "offsets_of off (fs @ gs) = offsets_of off fs @ offsets_of (off + length (concat (map frame_bytes fs))) gs"
  by (induction fs arbitrary: off) (auto simp: add.assoc)

lemma newRequestLoop_frames:
  "off < length body \<Longrightarrow>
   newRequestLoop body off (encoded, offs) =
     (encoded @ concat (map frame_bytes (data_frames 0 (drop off body) True)),
      offs @ offsets_of (length encoded) (data_frames 0 (drop off body) True))"
proof (induction "length body - off" arbitrary: off encoded offs rule: less_induct)
  case less
  let ?n = defaultMaxFrameSize
  show ?case
  proof (cases "off + ?n < length body")
    case True
    let ?f = "Frame frameData 0 0 (take ?n (drop off body))"
    have chunk: "appendData encoded 0 (take ?n (drop off body)) False = encoded @ frame_bytes ?f"
      by (simp add: appendData_frames data_frames_short)
    have long: "data_frames 0 (drop off body) True = ?f # data_frames 0 (drop (off + ?n) body) True"
      using True by (simp add: data_frames_long add.commute)
    have "newRequestLoop body off (encoded, offs) =
        newRequestLoop body (off + ?n) (encoded @ frame_bytes ?f, offs @ [length encoded + 5])"
      using True less.prems by (subst newRequestLoop.simps) (simp add: Let_def min_def chunk)
    then show ?thesis
      using less.hyps [of "off + ?n" "encoded @ frame_bytes ?f"] True less.prems
      by (simp add: long defaultMaxFrameSize_def)
  next
    case False
    then have short: "length (drop off body) \<le> ?n" by simp
    with False less.prems show ?thesis
      by (subst newRequestLoop.simps)
        (auto simp: Let_def min_def appendData_frames data_frames_short newRequestLoop.simps [of body "off + ?n"])
  qed
qed

lemma slice_bytes_Nil: "slice_bytes body = [] \<longleftrightarrow> slice_len body = 0"
  by (auto simp: slice_bytes_def slice_len_def split: option.splits)

lemma NewRequest_frames:
  fixes meth authority path body
  defines "r \<equiv> NewRequest meth authority path body"
  defines "fs \<equiv> request_frames 0 (req_Block r) (slice_bytes (req_Body r))"
  shows "req_encoded r = concat (map frame_bytes fs)" and "req_idOffsets r = offsets_of 0 fs"
proof -
  let ?b = "slice_bytes body"
  let ?h = "headers_frame 0 (EncodeHeaderBlock meth authority path body) (?b = [])"
  have "?b \<noteq> [] \<Longrightarrow> newRequestLoop ?b 0 (frame_bytes ?h, [5]) =
      (frame_bytes ?h @ concat (map frame_bytes (data_frames 0 ?b True)),
       [5] @ offsets_of (length (frame_bytes ?h)) (data_frames 0 ?b True))"
    using newRequestLoop_frames [of 0 ?b "frame_bytes ?h" "[5]"] by simp
  then have "req_encoded r = concat (map frame_bytes fs) \<and> req_idOffsets r = offsets_of 0 fs"
    by (cases "?b = []")
      (auto simp: r_def fs_def NewRequest_def Let_def request_frames_def appendHeaders_frame
        slice_bytes_Nil)
  then show "req_encoded r = concat (map frame_bytes fs)" and "req_idOffsets r = offsets_of 0 fs"
    by simp_all
qed

lemma with_stream_request_frames:
  "map (with_stream sid) (request_frames sid' block body) = request_frames sid block body"
  by (simp add: request_frames_def headers_frame_def data_frames_def with_stream_def Let_def)

lemma AppendTo_frames:
  assumes "made_request r"
  shows "AppendTo r dst sid =
    dst @ concat (map frame_bytes (request_frames sid (req_Block r) (slice_bytes (req_Body r))))"
proof -
  let ?fs = "request_frames 0 (req_Block r) (slice_bytes (req_Body r))"
  from assms obtain meth authority path body where r: "r = NewRequest meth authority path body"
    by (auto simp: made_request_def)
  note nr = NewRequest_frames [of meth authority path body, folded r]
  have "AppendTo r dst sid = dst @ concat (map (frame_bytes \<circ> with_stream sid) ?fs)"
    using patch_frames [of "length dst" dst sid ?fs] by (simp add: AppendTo_def nr)
  also have "map (frame_bytes \<circ> with_stream sid) ?fs = map frame_bytes (map (with_stream sid) ?fs)"
    by simp
  finally show ?thesis by (simp only: with_stream_request_frames)
qed

interpretation request_impl: request_writer AppendTo req_Block "\<lambda>r. slice_bytes (req_Body r)" made_request
  by unfold_locales (rule AppendTo_frames)

lemma Repeat_append_all: "Repeat r dst firstID n = append_all (AppendTo r) dst (batch_ids firstID n)"
  by (simp add: Repeat_def append_all_def batch_ids_def foldl_map)

text \<open>A batch that ends within the identifier space never wraps around.\<close>

lemma batch_ids_le:
  assumes "unat firstID + 2 * (n - 1) < 2 ^ 31" and "i < n"
  shows "unat (firstID + of_nat (2 * i) :: uint32) = unat firstID + 2 * i"
proof -
  have "unat firstID + 2 * i < 2 ^ 32" using assms by simp
  then show ?thesis by (simp add: unat_word_ariths unat_of_nat take_bit_nat_eq_self)
qed

lemma batch_ids_bound:
  assumes "unat firstID + 2 * (n - 1) < 2 ^ 31"
  shows "list_all (\<lambda>sid. sid \<le> maxStreamID) (batch_ids firstID n)"
  using batch_ids_le [OF assms] assms
  by (auto simp: list_all_iff batch_ids_def maxStreamID_def word_le_nat_alt)

subsection \<open>Batches\<close>

lemma smod_0_iff_dvd: "0 < b \<Longrightarrow> a smod b = 0 \<longleftrightarrow> b dvd a" for a b :: int
  by (auto simp: signed_modulo_int_def sgn_0_0 simp flip: dvd_eq_mod_eq_0)

lemma sdiv_exact: "0 < b \<Longrightarrow> b dvd a \<Longrightarrow> b * (a sdiv b) = a" for a b :: int
  using mult_sdiv_smod_eq [of b a] smod_0_iff_dvd [of b a] by simp

lemma sdiv_fits:
  fixes b c m :: int
  assumes "0 < c" and "1 \<le> b"
  shows "b * c \<le> m \<longleftrightarrow> b \<le> m sdiv c"
proof (cases "0 \<le> m")
  case True
  then have "m sdiv c = m div c" using assms(1) by (auto simp: signed_divide_int_def sgn_if)
  moreover have "b * c \<le> m" if "b \<le> m div c"
    using mult_right_mono [OF that, of c] pos_mod_sign [OF assms(1), of m] assms(1)
      div_mult_mod_eq [of m c] by linarith
  moreover have "m < b * c" if "m div c + 1 \<le> b"
    using mult_right_mono [OF that, of c, unfolded distrib_right] assms(1)
      pos_mod_bound [OF assms(1), of m] div_mult_mod_eq [of m c] by linarith
  ultimately show ?thesis by fastforce
next
  case False
  then have "m sdiv c = - (- m div c)" using assms(1) by (simp add: signed_divide_int_def sgn_if)
  moreover have "0 \<le> - m div c" using assms(1) False by (simp add: pos_imp_zdiv_nonneg_iff)
  moreover have "0 < b * c" using assms by simp
  ultimately show ?thesis using False assms(2) by linarith
qed

lemma batchLoop_spec:
  "1 \<le> b \<Longrightarrow> 1 \<le> batchLoop rate b \<and> batchLoop rate b \<le> b \<and> batchLoop rate b dvd rate
     \<and> (\<forall>d. 1 \<le> d \<longrightarrow> d \<le> b \<longrightarrow> d dvd rate \<longrightarrow> d \<le> batchLoop rate b)"
proof (induction rate b rule: batchLoop.induct)
  case (1 rate b)
  show ?case
  proof (cases "b > 1 \<and> rate smod b \<noteq> 0")
    case True
    then have nd: "\<not> b dvd rate" using smod_0_iff_dvd [of b rate] by simp
    from True have step: "batchLoop rate b = batchLoop rate (b - 1)"
      by (subst batchLoop.simps) simp
    have "d \<le> b - 1" if "d \<le> b" "d dvd rate" for d
      using that nd by (cases "d = b") auto
    with "1.IH" [OF True] True show ?thesis unfolding step by auto
  next
    case False
    then have "b dvd rate" using "1.prems" by (cases "b = 1") (auto simp: smod_0_iff_dvd)
    with False "1.prems" show ?thesis by (subst (1 2 3 4) batchLoop.simps) auto
  qed
qed

section \<open>Properties\<close>

text \<open>C19. The request written from its cached encoding, with only the stream identifiers patched
  in, is byte for byte what the frame writers produce for it on that stream: its HEADERS frame,
  ending the stream when there is no body, then its body's DATA frames.\<close>

theorem AppendTo_equals_writers:
  fixes meth authority path body
  defines "r \<equiv> NewRequest meth authority path body"
  shows "AppendTo r dst streamID =
    (if slice_len body = 0 then appendHeaders dst streamID (req_Block r) True
     else appendData (appendHeaders dst streamID (req_Block r) False) streamID (slice_bytes body) True)"
proof -
  have "made_request r" by (auto simp: made_request_def r_def)
  moreover have "req_Body r = body" by (simp add: r_def NewRequest_def Let_def split: prod.splits)
  ultimately show ?thesis
    by (simp add: AppendTo_frames request_frames_def appendHeaders_frame appendData_frames slice_bytes_Nil)
qed

text \<open>A batch written with \<^const>\<open>Repeat\<close> is read back as the request's frames on each of
  n consecutive stream identifiers, in order, as long as the last of them is a stream identifier.\<close>

theorem Repeat_roundtrip:
  fixes meth authority path body
  defines "r \<equiv> NewRequest meth authority path body"
  assumes "unat firstID + 2 * (n - 1) < 2 ^ 31" and "length (req_Block r) < 2 ^ 24"
  shows "parse_frames (Repeat r [] firstID n) =
    Some (concat (map (\<lambda>i. request_frames (firstID + of_nat (2 * i)) (req_Block r) (slice_bytes body)) [0..<n]))"
proof -
  have made: "made_request r" by (auto simp: made_request_def r_def)
  have body: "req_Body r = body" by (simp add: r_def NewRequest_def Let_def split: prod.splits)
  have "parse_frames (Repeat r [] firstID n) =
      Some (concat (map (\<lambda>sid. request_frames sid (req_Block r) (slice_bytes body)) (batch_ids firstID n)))"
    unfolding Repeat_append_all body [symmetric]
    by (rule request_impl.parse_append_all [OF made batch_ids_bound [OF assms(2)] assms(3)])
  then show ?thesis by (simp add: batch_ids_def comp_def)
qed

theorem Repeat_roundtrip_witness:
  "parse_frames (Repeat (NewRequest ''GET'' ''h'' ''/echo'' None) [] 7 3) = Some
    [headers_frame 7 (EncodeHeaderBlock ''GET'' ''h'' ''/echo'' None) True,
     headers_frame 9 (EncodeHeaderBlock ''GET'' ''h'' ''/echo'' None) True,
     headers_frame 11 (EncodeHeaderBlock ''GET'' ''h'' ''/echo'' None) True]"
proof -
  have block: "req_Block (NewRequest ''GET'' ''h'' ''/echo'' None) = EncodeHeaderBlock ''GET'' ''h'' ''/echo'' None"
    by (simp add: NewRequest_def Let_def split: prod.splits)
  have "length (EncodeHeaderBlock ''GET'' ''h'' ''/echo'' None) < 2 ^ 24"
    by (simp add: EncodeHeaderBlock_def Let_def appendLiteral_def appendHpackInt_def bytes_of_def)
  with Repeat_roundtrip [of 7 3 "''GET''" "''h''" "''/echo''" None] block show ?thesis
    by (simp add: request_frames_def slice_bytes_def upt_rec)
qed

lemma ValidateBatch_iff:
  "ValidateBatch batch rate = None \<longleftrightarrow> batch = 0 \<or> 0 < batch \<and> batch dvd rate"
  using smod_0_iff_dvd [of batch rate] by (auto simp: ValidateBatch_def)

lemma NewRequest_Len_pos: "0 < Request_Len (NewRequest meth authority path body)"
  unfolding Request_Len_def NewRequest_frames(1) by (simp add: request_frames_def frame_bytes_def)

lemma BatchSize_spec:
  assumes "0 < reqLen"
  shows "\<exists>batch tick. BatchSize reqLen rate maxLen = Some (batch, tick)
    \<and> 1 \<le> batch \<and> batch * tick = rate
    \<and> (batch * reqLen \<le> maxLen \<or> batch = 1)
    \<and> (\<forall>b. 1 \<le> b \<and> b dvd rate \<and> b * reqLen \<le> maxLen \<longrightarrow> b \<le> batch)"
proof -
  let ?q = "maxLen sdiv reqLen"
  define b0 where "b0 = (if ?q < 1 then 1 else ?q)"
  define batch where "batch = batchLoop rate b0"
  have fits: "b * reqLen \<le> maxLen \<longleftrightarrow> b \<le> ?q" if "1 \<le> b" for b
    using assms that by (rule sdiv_fits)
  have "1 \<le> b0" by (simp add: b0_def)
  from batchLoop_spec [OF this, of rate] have spec: "1 \<le> batch" "batch \<le> b0" "batch dvd rate"
    and largest: "\<And>b. 1 \<le> b \<Longrightarrow> b \<le> b0 \<Longrightarrow> b dvd rate \<Longrightarrow> b \<le> batch"
    by (auto simp: batch_def)
  have "BatchSize reqLen rate maxLen = Some (batch, rate sdiv batch)"
    using assms by (simp add: BatchSize_def Let_def batch_def b0_def)
  moreover have "batch * (rate sdiv batch) = rate"
    using spec by (intro sdiv_exact) auto
  moreover have "batch * reqLen \<le> maxLen \<or> batch = 1"
    using spec fits [of batch] by (auto simp: b0_def split: if_splits)
  moreover have "b \<le> batch" if "1 \<le> b" "b dvd rate" "b * reqLen \<le> maxLen" for b
    using that largest [of b] fits [of b] by (auto simp: b0_def split: if_splits)
  ultimately show ?thesis using spec(1) by blast
qed

text \<open>\<^const>\<open>BatchSize\<close> returns for every request of at least a byte, and what it returns is
  the largest batch that divides the rate and fits in the buffer - or one request, when not even
  one fits - and the number of writes a second that sends exactly the rate.\<close>

theorem BatchSize_largest:
  assumes "0 < reqLen"
  shows "\<exists>batch tick. BatchSize reqLen rate maxLen = Some (batch, tick)
    \<and> 1 \<le> batch \<and> batch * tick = rate
    \<and> (batch * reqLen \<le> maxLen \<or> batch = 1)
    \<and> (\<forall>b. 1 \<le> b \<and> b dvd rate \<and> b * reqLen \<le> maxLen \<longrightarrow> b \<le> batch)"
  using BatchSize_spec [OF assms] .

theorem BatchSize_largest_witness:
  "\<exists>batch tick. BatchSize 1100 200 16384 = Some (batch, tick) \<and> batch * tick = 200
     \<and> batch = 10 \<and> tick = 20"
  using BatchSize_largest [of 1100 200 16384]
  by (simp add: BatchSize_def batchLoop.simps)

end
