(* ===== verification/ClientConn.thy ===== *)
theory ClientConn
  imports Request
begin

unbundle bit_operations_syntax

text \<open>
  One HTTP/2 connection of the benchmark client: the state and every operation of
  \<^verbatim>\<open>benchcli-go/protocol/clientconn.go\<close>.

  A \<^verbatim>\<open>*stream\<close> is a reference into a store (\<open>cc_heap\<close>), since the connection's map, the
  waiting \<^verbatim>\<open>Do\<close> and the two pools all point at stream objects and what is proved of them is
  that they never alias. A stream's \<open>done\<close> channel is the number of values in it, absent for a
  stream \<^verbatim>\<open>WriteBatch\<close> opened. The connection's map is a list of its entries: ranging over it
  visits them in the list's order, one of the orders Go may choose. The capacity of a body buffer
  is the least one \<^verbatim>\<open>append\<close> may give it.

  What is outside the repository is a parameter. Of \<^verbatim>\<open>golang.org/x/net/http2\<close> it is the frames
  its framer hands the reader (\<open>rframe\<close>) and the header decoder (\<open>hpack_decoder\<close>); of
  \<^verbatim>\<open>net.Conn\<close>, whether a write failed, and of \<^verbatim>\<open>sync.Pool\<close>, which pooled object, if any, a
  \<^verbatim>\<open>Get\<close> returns.

  A call is cut where its goroutine gives up a lock: a definition for a part of \<^verbatim>\<open>Do\<close> or \<^verbatim>\<open>WriteBatch\<close> is what happens
  while \<^verbatim>\<open>mu\<close> or \<^verbatim>\<open>wmu\<close> is held, and the writer's state between two of them is a value of
  \<open>thread\<close>. The reader's handling of one frame is one definition, which also covers the moment after it has given
  up \<^verbatim>\<open>mu\<close>, when it finishes the streams it took out of the map. These are the steps that theory \<open>ConnSteps\<close> interleaves.
\<close>

section \<open>Data\<close>

datatype err = ErrConnClosed | ErrGoAway uint32 | ErrStreamReset uint32 | ErrStreamsExhausted
  | ErrNoStatus | ErrBodyTooLarge | ErrPushPromise
  | ErrConnClosedBy err \<comment> \<open>\<^verbatim>\<open>fmt.Errorf("%w: %w", ErrConnClosed, err)\<close>\<close>
  | IOErr string \<comment> \<open>an error of the network, the framer or the header decoder\<close>

definition MaxBodySize :: int where "MaxBodySize = 64 * 2 ^ 20"

record Result =
  res_Status :: int
  res_Body :: bytes
  res_N :: int
  res_Err :: "err option"

type_synonym sref = nat

record stream =
  st_id :: uint32
  st_keep :: bool
  st_sendWindow :: int
  st_status :: int
  st_body :: bytes
  st_cap :: nat
  st_n :: int
  st_err :: "err option"
  st_done :: "nat option"

definition new_stream :: "nat option \<Rightarrow> stream" where
  "new_stream done =
     \<lparr>st_id = 0, st_keep = False, st_sendWindow = 0, st_status = 0, st_body = [], st_cap = 0,
      st_n = 0, st_err = None, st_done = done\<rparr>"

datatype rframe =
    DataFrame uint32 nat bytes bool \<comment> \<open>stream, length with padding, data, END_STREAM\<close>
  | HeadersFrame uint32 bytes bool bool \<comment> \<open>stream, fragment, END_HEADERS, END_STREAM\<close>
  | ContinuationFrame uint32 bytes bool \<comment> \<open>stream, fragment, END_HEADERS\<close>
  | SettingsFrame bool "(nat \<times> uint32) list" \<comment> \<open>ACK, settings by identifier\<close>
  | WindowUpdateFrame uint32 uint32
  | PingFrame bool bytes
  | RSTStreamFrame uint32 uint32
  | GoAwayFrame uint32 uint32 \<comment> \<open>last stream, error code\<close>
  | PushPromiseFrame
  | OtherFrame

record 'd hpack_decoder =
  dec_Write :: "'d \<Rightarrow> bytes \<Rightarrow> 'd \<times> (string \<times> string) list \<times> err option"
  dec_Close :: "'d \<Rightarrow> 'd \<times> err option"

record 'd ClientConn =
  cc_dec :: 'd
  cc_heap :: "sref \<Rightarrow> stream"
  cc_next :: sref \<comment> \<open>the next reference an allocation returns\<close>
  cc_doPool :: "sref list"
  cc_batchPool :: "sref list"
  cc_wire :: "bytes list" \<comment> \<open>what \<^verbatim>\<open>conn.Write\<close> was given, in order\<close>
  cc_closed :: bool
  cc_wmu :: bool \<comment> \<open>\<^verbatim>\<open>wmu\<close> is held across two steps of a writer\<close>
  cc_streams :: "(uint32 \<times> sref) list"
  cc_active :: int
  cc_nextID :: uint32
  cc_connSendWindow :: int
  cc_peerInitialWindow :: int
  cc_peerMaxStreams :: int
  cc_err :: "err option"
  cc_settingsSeen :: bool
  cc_readerDone :: bool
  cc_hasOnResult :: bool
  cc_results :: "Result list" \<comment> \<open>what \<^verbatim>\<open>OnResult\<close> was called with\<close>
  cc_hdrStream :: "sref option"
  cc_hdrStatus :: int
  cc_hdrEnd :: bool
  cc_recvConsumed :: int

text \<open>Where a goroutine that writes requests is, between the steps below.\<close>

datatype thread =
    DoStart Request bool nat \<comment> \<open>called with a request, keep and the capacity of dst\<close>
  | DoSlot sref Request \<comment> \<open>waiting for a slot\<close>
  | DoOpen sref Request \<comment> \<open>has a slot, about to number its stream\<close>
  | DoFlush sref Request bytes nat \<comment> \<open>holds wmu, about to write its HEADERS\<close>
  | DoBody sref bytes \<comment> \<open>the rest of the body, waiting for window\<close>
  | DoBodyFlush sref bytes nat \<comment> \<open>about to write the first bytes of the rest\<close>
  | DoWait sref \<comment> \<open>at \<open><-s.done\<close>\<close>
  | DoReturn Result
  | BatchStart Request int bool
  | BatchOpen Request int bool \<comment> \<open>has its slots, about to number its streams\<close>
  | BatchFlush Request int bytes \<comment> \<open>holds wmu, about to write\<close>
  | BatchReturn int "err option"

section \<open>Go maps and pools\<close>

definition map_get :: "('k \<times> 'v) list \<Rightarrow> 'k \<Rightarrow> 'v option" where
  "map_get m k = map_of m k"

definition map_put :: "('k \<times> 'v) list \<Rightarrow> 'k \<Rightarrow> 'v \<Rightarrow> ('k \<times> 'v) list" where
  "map_put m k v = filter (\<lambda>e. fst e \<noteq> k) m @ [(k, v)]"

definition map_del :: "('k \<times> 'v) list \<Rightarrow> 'k \<Rightarrow> ('k \<times> 'v) list" where
  "map_del m k = filter (\<lambda>e. fst e \<noteq> k) m"

definition pool_take :: "(sref list \<Rightarrow> nat option) \<Rightarrow> sref list \<Rightarrow> (sref \<times> sref list) option" where
  "pool_take pick pool =
     (case pick pool of
        None \<Rightarrow> None
      | Some i \<Rightarrow>
          if i < length pool then Some (pool ! i, take i pool @ drop (Suc i) pool) else None)"

definition alloc :: "stream \<Rightarrow> 'd ClientConn \<Rightarrow> sref \<times> 'd ClientConn" where
  "alloc s cc =
     (cc_next cc, cc\<lparr>cc_heap := (cc_heap cc)(cc_next cc := s), cc_next := Suc (cc_next cc)\<rparr>)"

definition doStreamPool_Get :: "(sref list \<Rightarrow> nat option) \<Rightarrow> 'd ClientConn \<Rightarrow> sref \<times> 'd ClientConn" where
  "doStreamPool_Get pick cc =
     (case pool_take pick (cc_doPool cc) of
        Some (r, pool) \<Rightarrow> (r, cc\<lparr>cc_doPool := pool\<rparr>)
      | None \<Rightarrow> alloc (new_stream (Some 0)) cc)"

definition batchStreamPool_Get :: "(sref list \<Rightarrow> nat option) \<Rightarrow> 'd ClientConn \<Rightarrow> sref \<times> 'd ClientConn" where
  "batchStreamPool_Get pick cc =
     (case pool_take pick (cc_batchPool cc) of
        Some (r, pool) \<Rightarrow> (r, cc\<lparr>cc_batchPool := pool\<rparr>)
      | None \<Rightarrow> alloc (new_stream None) cc)"

definition upd_stream :: "sref \<Rightarrow> (stream \<Rightarrow> stream) \<Rightarrow> 'd ClientConn \<Rightarrow> 'd ClientConn" where
  "upd_stream r f cc = cc\<lparr>cc_heap := (cc_heap cc)(r := f (cc_heap cc r))\<rparr>"

section \<open>Operations\<close>

definition conn_Write :: "err option \<Rightarrow> bytes \<Rightarrow> 'd ClientConn \<Rightarrow> err option \<times> 'd ClientConn" where
  "conn_Write w buf cc = (w, cc\<lparr>cc_wire := cc_wire cc @ [buf]\<rparr>)"

definition conn_Close :: "'d ClientConn \<Rightarrow> 'd ClientConn" where
  "conn_Close cc = cc\<lparr>cc_closed := True\<rparr>"

text \<open>
  \<^verbatim>\<open>NewClientConn\<close> on a connection whose first write ends with \<open>w\<close>; the reader starts unless
  that failed.
\<close>

definition NewClientConn :: "'d \<Rightarrow> bool \<Rightarrow> err option \<Rightarrow> err + 'd ClientConn" where
  "NewClientConn d onResult w =
     (let cc = \<lparr>cc_dec = d, cc_heap = (\<lambda>_. new_stream None), cc_next = 0, cc_doPool = [],
                cc_batchPool = [], cc_wire = [], cc_closed = False, cc_wmu = False,
                cc_streams = [], cc_active = 0, cc_nextID = 1,
                cc_connSendWindow = defaultWindow, cc_peerInitialWindow = defaultWindow,
                cc_peerMaxStreams = 100, cc_err = None, cc_settingsSeen = False,
                cc_readerDone = False, cc_hasOnResult = onResult, cc_results = [],
                cc_hdrStream = None, cc_hdrStatus = 0, cc_hdrEnd = False, cc_recvConsumed = 0\<rparr>;
          (e, cc) = conn_Write w clientPreface cc
      in case e of Some x \<Rightarrow> Inl x | None \<Rightarrow> Inr cc)"

definition SettingsSeen :: "'d ClientConn \<Rightarrow> bool" where
  "SettingsSeen cc = cc_settingsSeen cc"

definition Conn_Err :: "'d ClientConn \<Rightarrow> err option" where
  "Conn_Err cc = cc_err cc"

definition MaxStreams :: "'d ClientConn \<Rightarrow> int" where
  "MaxStreams cc = cc_peerMaxStreams cc"

definition InitialWindow :: "'d ClientConn \<Rightarrow> int" where
  "InitialWindow cc = cc_peerInitialWindow cc"

definition failLocked :: "err \<Rightarrow> 'd ClientConn \<Rightarrow> 'd ClientConn" where
  "failLocked e cc = (if cc_err cc = None then cc\<lparr>cc_err := Some e\<rparr> else cc)"

definition putStream :: "sref \<Rightarrow> 'd ClientConn \<Rightarrow> 'd ClientConn" where
  "putStream r cc =
     (let cc = upd_stream r (\<lambda>s. s\<lparr>st_id := 0, st_keep := False, st_status := 0, st_n := 0,
                                  st_err := None, st_sendWindow := 0\<rparr>) cc
      in if st_done (cc_heap cc r) \<noteq> None
         then (upd_stream r (\<lambda>s. s\<lparr>st_body := [], st_cap := 0\<rparr>) cc)\<lparr>cc_doPool := r # cc_doPool cc\<rparr>
         else (upd_stream r (\<lambda>s. if st_cap s > 64 * 2 ^ 10 then s\<lparr>st_body := [], st_cap := 0\<rparr> else s) cc)
                \<lparr>cc_batchPool := r # cc_batchPool cc\<rparr>)"

definition takeWindowLocked :: "sref \<Rightarrow> nat \<Rightarrow> 'd ClientConn \<Rightarrow> nat \<times> 'd ClientConn" where
  "takeWindowLocked r n cc =
     (let take = min (int n) (min (max (cc_connSendWindow cc) 0)
                                  (max (st_sendWindow (cc_heap cc r)) 0));
          cc = cc\<lparr>cc_connSendWindow := cc_connSendWindow cc - take\<rparr>
      in (nat take, upd_stream r (\<lambda>s. s\<lparr>st_sendWindow := st_sendWindow s - take\<rparr>) cc))"

subsection \<open>\<^verbatim>\<open>Do\<close> and \<^verbatim>\<open>writeStream\<close>\<close>

text \<open>A step's result is \<open>None\<close> while the goroutine waits: on the condition, on a lock, on a channel.\<close>

type_synonym 'd wstep = "(thread \<times> 'd ClientConn) option"

definition Do_start :: "(sref list \<Rightarrow> nat option) \<Rightarrow> Request \<Rightarrow> bool \<Rightarrow> nat \<Rightarrow> 'd ClientConn \<Rightarrow> 'd wstep" where
  "Do_start pick req keep dstcap cc =
     (let (r, cc) = doStreamPool_Get pick cc
      in Some (DoSlot r req, upd_stream r (\<lambda>s. s\<lparr>st_keep := keep, st_body := [], st_cap := dstcap\<rparr>) cc))"

definition Do_slot :: "sref \<Rightarrow> Request \<Rightarrow> 'd ClientConn \<Rightarrow> 'd wstep" where
  "Do_slot r req cc =
     (case cc_err cc of
        None \<Rightarrow>
          if cc_active cc \<ge> cc_peerMaxStreams cc then None
          else Some (DoOpen r req, cc\<lparr>cc_active := cc_active cc + 1\<rparr>)
      | Some e \<Rightarrow>
          Some (DoReturn \<lparr>res_Status = 0, res_Body = [], res_N = 0, res_Err = Some e\<rparr>, putStream r cc))"

text \<open>\<^verbatim>\<open>s.err = err; s.done <- struct{}{}\<close>\<close>

definition end_with :: "err \<Rightarrow> sref \<Rightarrow> 'd ClientConn \<Rightarrow> 'd ClientConn" where
  "end_with e r cc = upd_stream r (\<lambda>s. s\<lparr>st_err := Some e, st_done := map_option Suc (st_done s)\<rparr>) cc"

definition writeStream_open :: "sref \<Rightarrow> Request \<Rightarrow> 'd ClientConn \<Rightarrow> 'd wstep" where
  "writeStream_open r req cc =
     (if cc_wmu cc then None
      else case cc_err cc of
        Some e \<Rightarrow> Some (DoWait r, end_with e r (cc\<lparr>cc_active := cc_active cc - 1\<rparr>))
      | None \<Rightarrow>
          if cc_nextID cc > maxStreamID
          then let cc = failLocked ErrStreamsExhausted (cc\<lparr>cc_active := cc_active cc - 1\<rparr>)
               in Some (DoWait r, conn_Close (end_with ErrStreamsExhausted r cc))
          else
            let sid = cc_nextID cc;
                cc = upd_stream r (\<lambda>s. s\<lparr>st_id := sid\<rparr>) cc;
                cc = cc\<lparr>cc_nextID := cc_nextID cc + 2, cc_streams := map_put (cc_streams cc) sid r\<rparr>;
                cc = upd_stream r (\<lambda>s. s\<lparr>st_sendWindow := cc_peerInitialWindow cc\<rparr>) cc;
                body = slice_bytes (req_Body req);
                (take, cc) = takeWindowLocked r (length body) cc;
                buf = (if take = length body then AppendTo req [] sid
                       else let buf = appendHeaders [] sid (req_Block req) False
                            in if take > 0 then appendData buf sid (List.take take body) False else buf)
            in Some (DoFlush r req buf take, cc\<lparr>cc_wmu := True\<rparr>))"

text \<open>
  What follows a write of the first \<open>n\<close> bytes of the body: \<^verbatim>\<open>writeStream\<close> returns when the
  write failed, and \<^verbatim>\<open>Do\<close> closes the connection then; else it goes on with the rest, or returns
  when there is none.
\<close>

definition after_write :: "sref \<Rightarrow> bytes \<Rightarrow> nat \<Rightarrow> err option \<Rightarrow> 'd ClientConn \<Rightarrow> thread \<times> 'd ClientConn" where
  "after_write r body n e cc =
     (case e of
        Some _ \<Rightarrow> (DoWait r, conn_Close cc)
      | None \<Rightarrow> (if drop n body = [] then DoWait r else DoBody r (drop n body), cc))"

definition writeStream_flush :: "err option \<Rightarrow> sref \<Rightarrow> Request \<Rightarrow> bytes \<Rightarrow> nat \<Rightarrow> 'd ClientConn \<Rightarrow> 'd wstep" where
  "writeStream_flush w r req buf n cc =
     (let (e, cc) = conn_Write w buf cc
      in Some (after_write r (slice_bytes (req_Body req)) n e (cc\<lparr>cc_wmu := False\<rparr>)))"

definition writeStream_body :: "sref \<Rightarrow> bytes \<Rightarrow> 'd ClientConn \<Rightarrow> 'd wstep" where
  "writeStream_body r body cc =
     (let s = cc_heap cc r;
          open = (map_get (cc_streams cc) (st_id s) = Some r)
      in if cc_err cc = None \<and> open \<and> min (cc_connSendWindow cc) (st_sendWindow s) \<le> 0 then None
         else if cc_err cc \<noteq> None \<or> \<not> open then Some (DoWait r, cc)
         else let (take, cc) = takeWindowLocked r (length body) cc
              in Some (DoBodyFlush r body take, cc))"

definition writeStream_bodyFlush :: "err option \<Rightarrow> sref \<Rightarrow> bytes \<Rightarrow> nat \<Rightarrow> 'd ClientConn \<Rightarrow> 'd wstep" where
  "writeStream_bodyFlush w r body n cc =
     (if cc_wmu cc then None
      else let buf = appendData [] (st_id (cc_heap cc r)) (take n body) (n = length body);
               (e, cc) = conn_Write w buf cc
           in Some (after_write r body n e cc))"

definition Do_wait :: "sref \<Rightarrow> 'd ClientConn \<Rightarrow> 'd wstep" where
  "Do_wait r cc =
     (case st_done (cc_heap cc r) of
        Some (Suc k) \<Rightarrow>
          let cc = upd_stream r (\<lambda>s. s\<lparr>st_done := Some k\<rparr>) cc;
              s = cc_heap cc r
          in Some (DoReturn \<lparr>res_Status = st_status s, res_Body = st_body s, res_N = st_n s,
                             res_Err = st_err s\<rparr>, putStream r cc)
      | _ \<Rightarrow> None)"

subsection \<open>\<^verbatim>\<open>WriteBatch\<close>\<close>

definition WriteBatch_reserve :: "Request \<Rightarrow> int \<Rightarrow> bool \<Rightarrow> 'd ClientConn \<Rightarrow> 'd wstep" where
  "WriteBatch_reserve req n keep cc =
     (let bodyLen = int (slice_len (req_Body req))
      in case cc_err cc of
        Some e \<Rightarrow> Some (BatchReturn 0 (Some e), cc)
      | None \<Rightarrow>
          if cc_active cc + n > cc_peerMaxStreams cc \<or> cc_connSendWindow cc < n * bodyLen
             \<or> cc_peerInitialWindow cc < bodyLen
          then Some (BatchReturn 0 None, cc)
          else Some (BatchOpen req n keep,
                     cc\<lparr>cc_active := cc_active cc + n,
                        cc_connSendWindow := cc_connSendWindow cc - n * bodyLen\<rparr>))"

text \<open>One turn of the loop that makes the batch's streams.\<close>

definition WriteBatch_stream ::
  "(sref list \<Rightarrow> nat option) \<Rightarrow> int \<Rightarrow> bool \<Rightarrow> uint32 \<Rightarrow> 'd ClientConn \<Rightarrow> 'd ClientConn" where
  "WriteBatch_stream pick bodyLen keep sid cc =
     (let (r, cc) = batchStreamPool_Get pick cc;
          cc = upd_stream r (\<lambda>s. s\<lparr>st_id := sid, st_keep := keep, st_body := [],
                                  st_sendWindow := cc_peerInitialWindow cc - bodyLen\<rparr>) cc
      in cc\<lparr>cc_streams := map_put (cc_streams cc) sid r\<rparr>)"

definition WriteBatch_open ::
  "(sref list \<Rightarrow> nat option) \<Rightarrow> Request \<Rightarrow> int \<Rightarrow> bool \<Rightarrow> 'd ClientConn \<Rightarrow> 'd wstep" where
  "WriteBatch_open pick req n keep cc =
     (if cc_wmu cc then None
      else if cc_err cc \<noteq> None \<or> cc_nextID cc + word_of_int (2 * (n - 1)) > maxStreamID
      then let cc = (if cc_err cc = None then failLocked ErrStreamsExhausted cc else cc)
           in Some (BatchReturn 0 (cc_err cc), cc\<lparr>cc_active := cc_active cc - n\<rparr>)
      else
        let first = cc_nextID cc;
            bodyLen = int (slice_len (req_Body req));
            cc = cc\<lparr>cc_nextID := cc_nextID cc + word_of_int (2 * n)\<rparr>;
            cc = foldl (\<lambda>cc i. WriteBatch_stream pick bodyLen keep (first + of_nat (2 * i)) cc)
                   cc [0..<nat n];
            buf = Repeat req [] first (nat n)
        in Some (BatchFlush req n buf, cc\<lparr>cc_wmu := True\<rparr>))"

definition WriteBatch_flush :: "err option \<Rightarrow> Request \<Rightarrow> int \<Rightarrow> bytes \<Rightarrow> 'd ClientConn \<Rightarrow> 'd wstep" where
  "WriteBatch_flush w req n buf cc =
     (let (e, cc) = conn_Write w buf cc;
          cc = cc\<lparr>cc_wmu := False\<rparr>
      in case e of
           Some x \<Rightarrow> Some (BatchReturn 0 (Some x), conn_Close cc)
         | None \<Rightarrow> Some (BatchReturn n None, cc))"

fun thread_step :: "(sref list \<Rightarrow> nat option) \<Rightarrow> err option \<Rightarrow> thread \<Rightarrow> 'd ClientConn \<Rightarrow> 'd wstep" where
  "thread_step pick w (DoStart req keep dstcap) cc = Do_start pick req keep dstcap cc"
| "thread_step pick w (DoSlot r req) cc = Do_slot r req cc"
| "thread_step pick w (DoOpen r req) cc = writeStream_open r req cc"
| "thread_step pick w (DoFlush r req buf n) cc = writeStream_flush w r req buf n cc"
| "thread_step pick w (DoBody r body) cc = writeStream_body r body cc"
| "thread_step pick w (DoBodyFlush r body n) cc = writeStream_bodyFlush w r body n cc"
| "thread_step pick w (DoWait r) cc = Do_wait r cc"
| "thread_step pick w (DoReturn res) cc = None"
| "thread_step pick w (BatchStart req n keep) cc = WriteBatch_reserve req n keep cc"
| "thread_step pick w (BatchOpen req n keep) cc = WriteBatch_open pick req n keep cc"
| "thread_step pick w (BatchFlush req n buf) cc = WriteBatch_flush w req n buf cc"
| "thread_step pick w (BatchReturn n e) cc = None"

subsection \<open>The reader\<close>

definition writeControl :: "err option \<Rightarrow> bytes \<Rightarrow> 'd ClientConn \<Rightarrow> err option \<times> 'd ClientConn" where
  "writeControl w frame cc = conn_Write w frame cc"

definition finish :: "sref \<Rightarrow> 'd ClientConn \<Rightarrow> 'd ClientConn" where
  "finish r cc =
     (let s = cc_heap cc r
      in case st_done s of
           Some k \<Rightarrow> upd_stream r (\<lambda>s. s\<lparr>st_done := Some (Suc k)\<rparr>) cc
         | None \<Rightarrow>
             putStream r
               (if cc_hasOnResult cc
                then cc\<lparr>cc_results := cc_results cc @
                          [\<lparr>res_Status = st_status s, res_Body = st_body s, res_N = st_n s,
                            res_Err = st_err s\<rparr>]\<rparr>
                else cc))"

definition take_stream :: "uint32 \<Rightarrow> 'd ClientConn \<Rightarrow> sref option \<times> 'd ClientConn" where
  "take_stream sid cc =
     (case map_get (cc_streams cc) sid of
        None \<Rightarrow> (None, cc)
      | Some r \<Rightarrow> (Some r, cc\<lparr>cc_streams := map_del (cc_streams cc) sid,
                                cc_active := cc_active cc - 1\<rparr>))"

definition end_stream :: "sref \<Rightarrow> 'd ClientConn \<Rightarrow> 'd ClientConn" where
  "end_stream r cc =
     (let (taken, cc) = take_stream (st_id (cc_heap cc r)) cc
      in if taken = Some r then finish r cc else cc)"

definition set_err :: "err \<Rightarrow> stream \<Rightarrow> stream" where
  "set_err e s = s\<lparr>st_err := Some e\<rparr>"

definition fail_streams :: "err \<Rightarrow> sref list \<Rightarrow> 'd ClientConn \<Rightarrow> 'd ClientConn" where
  "fail_streams e refs cc = foldl (\<lambda>cc r. finish r (upd_stream r (set_err e) cc)) cc refs"

definition onSetting :: "nat \<times> uint32 \<Rightarrow> 'd ClientConn \<Rightarrow> 'd ClientConn" where
  "onSetting setting cc =
     (let (sid, val) = setting
      in if sid = 4 \<comment> \<open>SETTINGS_INITIAL_WINDOW_SIZE\<close> then
           let delta = uint val - cc_peerInitialWindow cc;
               cc = cc\<lparr>cc_peerInitialWindow := uint val\<rparr>
           in foldl (\<lambda>cc e. upd_stream (snd e) (\<lambda>s. s\<lparr>st_sendWindow := st_sendWindow s + delta\<rparr>) cc)
                cc (cc_streams cc)
         else if sid = 3 \<comment> \<open>SETTINGS_MAX_CONCURRENT_STREAMS\<close> then
           cc\<lparr>cc_peerMaxStreams := min (uint val) (2 ^ 20)\<rparr>
         else cc)"

definition onSettings :: "err option \<Rightarrow> (nat \<times> uint32) list \<Rightarrow> 'd ClientConn \<Rightarrow> err option \<times> 'd ClientConn" where
  "onSettings w settings cc =
     (let cc = foldl (\<lambda>cc s. onSetting s cc) cc settings;
          (e, cc) = writeControl w (appendSettingsAck []) cc
      in case e of Some x \<Rightarrow> (Some x, cc) | None \<Rightarrow> (None, cc\<lparr>cc_settingsSeen := True\<rparr>))"

definition onGoAway :: "uint32 \<Rightarrow> uint32 \<Rightarrow> 'd ClientConn \<Rightarrow> 'd ClientConn" where
  "onGoAway lastStreamID code cc =
     (let cc = failLocked (ErrGoAway code) cc;
          refused = filter (\<lambda>e. fst e > lastStreamID) (cc_streams cc);
          cc = cc\<lparr>cc_streams := filter (\<lambda>e. \<not> fst e > lastStreamID) (cc_streams cc),
                  cc_active := cc_active cc - int (length refused)\<rparr>
      in case cc_err cc of
           None \<Rightarrow> cc \<comment> \<open>never: failLocked has set it\<close>
         | Some e \<Rightarrow> fail_streams e (map snd refused) cc)"

definition add_data :: "bytes \<Rightarrow> stream \<Rightarrow> stream" where
  "add_data data s =
     (let s = s\<lparr>st_n := st_n s + int (length data)\<rparr>
      in if st_keep s then
           if st_n s > MaxBodySize
           then (if st_err s = None then s\<lparr>st_err := Some ErrBodyTooLarge\<rparr> else s)
           else s\<lparr>st_body := st_body s @ data, st_cap := max (st_cap s) (length (st_body s @ data))\<rparr>
         else s)"

definition recv_window :: "err option \<Rightarrow> nat \<Rightarrow> 'd ClientConn \<Rightarrow> err option \<times> 'd ClientConn" where
  "recv_window w len cc =
     (let cc = cc\<lparr>cc_recvConsumed := cc_recvConsumed cc + int len\<rparr>
      in if cc_recvConsumed cc \<ge> ClientConnWindow div 2
         then let (e, cc) = writeControl w (appendWindowUpdate [] 0 (word_of_int (cc_recvConsumed cc))) cc
              in case e of Some x \<Rightarrow> (Some x, cc) | None \<Rightarrow> (None, cc\<lparr>cc_recvConsumed := 0\<rparr>)
         else (None, cc))"

definition onData ::
  "err option \<Rightarrow> uint32 \<Rightarrow> nat \<Rightarrow> bytes \<Rightarrow> bool \<Rightarrow> 'd ClientConn \<Rightarrow> err option \<times> 'd ClientConn" where
  "onData w sid len data ended cc =
     (let (e, cc) = recv_window w len cc
      in case e of
           Some x \<Rightarrow> (Some x, cc)
         | None \<Rightarrow>
             (case map_get (cc_streams cc) sid of
                None \<Rightarrow> (None, cc)
              | Some r \<Rightarrow>
                  let cc = upd_stream r (add_data data) cc
                  in (None, if ended then end_stream r cc else cc)))"

definition startHeaders :: "uint32 \<Rightarrow> bool \<Rightarrow> 'd ClientConn \<Rightarrow> 'd ClientConn" where
  "startHeaders sid endStream cc =
     cc\<lparr>cc_hdrStream := map_get (cc_streams cc) sid, cc_hdrStatus := 0, cc_hdrEnd := endStream\<rparr>"

definition onHeaderField :: "string \<times> string \<Rightarrow> 'd ClientConn \<Rightarrow> 'd ClientConn" where
  "onHeaderField field cc =
     (let (name, value) = field
      in if name = '':status'' then
           (case atoi value of Some status \<Rightarrow> cc\<lparr>cc_hdrStatus := status\<rparr> | None \<Rightarrow> cc)
         else cc)"

definition apply_status :: "int \<Rightarrow> stream \<Rightarrow> stream" where
  "apply_status status s =
     (if status \<ge> 200 \<and> st_status s = 0 then s\<lparr>st_status := status\<rparr>
      else if status \<ge> 100 \<and> status < 200 then s
      else if status = 0 \<and> st_status s = 0 \<and> st_err s = None then s\<lparr>st_err := Some ErrNoStatus\<rparr>
      else s)"

definition onHeaderBlock ::
  "'d hpack_decoder \<Rightarrow> bytes \<Rightarrow> bool \<Rightarrow> 'd ClientConn \<Rightarrow> err option \<times> 'd ClientConn" where
  "onHeaderBlock D fragment ended cc =
     (let (d, fields, e) = dec_Write D (cc_dec cc) fragment;
          cc = foldl (\<lambda>cc f. onHeaderField f cc) (cc\<lparr>cc_dec := d\<rparr>) fields
      in case e of
           Some x \<Rightarrow> (Some x, cc)
         | None \<Rightarrow>
             if \<not> ended then (None, cc)
             else let (d, e) = dec_Close D (cc_dec cc);
                      cc = cc\<lparr>cc_dec := d\<rparr>
                  in case e of
                       Some x \<Rightarrow> (Some x, cc)
                     | None \<Rightarrow>
                         (case cc_hdrStream cc of
                            None \<Rightarrow> (None, cc)
                          | Some r \<Rightarrow>
                              let cc = cc\<lparr>cc_hdrStream := None\<rparr>;
                                  cc = upd_stream r (apply_status (cc_hdrStatus cc)) cc
                              in (None, if cc_hdrEnd cc then end_stream r cc else cc)))"

definition onWindowUpdate :: "uint32 \<Rightarrow> uint32 \<Rightarrow> 'd ClientConn \<Rightarrow> 'd ClientConn" where
  "onWindowUpdate sid increment cc =
     (if sid = 0 then cc\<lparr>cc_connSendWindow := cc_connSendWindow cc + uint increment\<rparr>
      else case map_get (cc_streams cc) sid of
             None \<Rightarrow> cc
           | Some r \<Rightarrow> upd_stream r (\<lambda>s. s\<lparr>st_sendWindow := st_sendWindow s + uint increment\<rparr>) cc)"

definition onRSTStream :: "uint32 \<Rightarrow> uint32 \<Rightarrow> 'd ClientConn \<Rightarrow> 'd ClientConn" where
  "onRSTStream sid code cc =
     (case take_stream sid cc of
        (None, cc) \<Rightarrow> cc
      | (Some r, cc) \<Rightarrow> finish r (upd_stream r (set_err (ErrStreamReset code)) cc))"

text \<open>One turn of the loop of \<^verbatim>\<open>read\<close>: \<open>Some\<close> error ends it.\<close>

fun read_frame ::
  "'d hpack_decoder \<Rightarrow> err option \<Rightarrow> rframe \<Rightarrow> 'd ClientConn \<Rightarrow> err option \<times> 'd ClientConn" where
  "read_frame D w (DataFrame sid len data ended) cc = onData w sid len data ended cc"
| "read_frame D w (HeadersFrame sid fragment endHeaders endStream) cc =
     onHeaderBlock D fragment endHeaders (startHeaders sid endStream cc)"
| "read_frame D w (ContinuationFrame sid fragment endHeaders) cc = onHeaderBlock D fragment endHeaders cc"
| "read_frame D w (SettingsFrame ack settings) cc =
     (if ack then (None, cc) else onSettings w settings cc)"
| "read_frame D w (WindowUpdateFrame sid increment) cc = (None, onWindowUpdate sid increment cc)"
| "read_frame D w (PingFrame ack data) cc =
     (if ack then (None, cc) else writeControl w (appendPingAck [] data) cc)"
| "read_frame D w (RSTStreamFrame sid code) cc = (None, onRSTStream sid code cc)"
| "read_frame D w (GoAwayFrame lastStreamID code) cc = (None, onGoAway lastStreamID code cc)"
| "read_frame D w PushPromiseFrame cc = (Some ErrPushPromise, cc)"
| "read_frame D w OtherFrame cc = (None, cc)"

text \<open>What \<^verbatim>\<open>readLoop\<close> does once \<^verbatim>\<open>read\<close> has returned \<open>e\<close>.\<close>

definition readLoop_exit :: "err option \<Rightarrow> 'd ClientConn \<Rightarrow> 'd ClientConn" where
  "readLoop_exit e cc =
     (let cc = conn_Close cc;
          e = (case e of None \<Rightarrow> ErrConnClosed | Some x \<Rightarrow> x);
          cc = failLocked e cc;
          e = (case cc_err cc of None \<Rightarrow> e | Some x \<Rightarrow> x);
          streams = cc_streams cc;
          cc = cc\<lparr>cc_streams := [], cc_active := cc_active cc - int (length streams)\<rparr>;
          cc = fail_streams (ErrConnClosedBy e) (map snd streams) cc
      in cc\<lparr>cc_settingsSeen := True, cc_readerDone := True\<rparr>)"

text \<open>
  The reader on its own: the frames the framer delivers, each with the result of the control write
  it may cause, and the error that ends the input.
\<close>

fun read ::
  "'d hpack_decoder \<Rightarrow> (rframe \<times> err option) list \<Rightarrow> err \<Rightarrow> 'd ClientConn \<Rightarrow> err option \<times> 'd ClientConn" where
  "read D [] e cc = (Some e, cc)"
| "read D ((f, w) # fs) e cc =
     (case read_frame D w f cc of
        (Some x, cc') \<Rightarrow> (Some x, cc')
      | (None, cc') \<Rightarrow> read D fs e cc')"

definition readLoop :: "'d hpack_decoder \<Rightarrow> (rframe \<times> err option) list \<Rightarrow> err \<Rightarrow> 'd ClientConn \<Rightarrow> 'd ClientConn" where
  "readLoop D fs e cc = (case read D fs e cc of (x, cc') \<Rightarrow> readLoop_exit x cc')"

end
