(* ===== verification/Reach.thy ===== *)
theory Reach
  imports Main
begin

text \<open>
  What the concurrent parts of the program share: a state that starts in one of some ways and moves by steps of a relation,
  and the kinds of contract their proofs rest on. \<open>invariant\<close> asks that a predicate holds at the start
  and is kept by every step; \<open>layered_invariant\<close> proves a further one on top of it; \<open>winding_down\<close> adds a measure every step lowers and that a state with no step left
  is finished, so that every schedule ends, and ends finished. They are interpreted on the client connection, the workers
  that dial, the echo benchmark's channel and the rate benchmark's writers and readers.
\<close>

inductive reach :: "('s \<Rightarrow> bool) \<Rightarrow> ('s \<Rightarrow> 's \<Rightarrow> bool) \<Rightarrow> 's \<Rightarrow> bool" for start move where
  reach_start: "start s \<Longrightarrow> reach start move s"
| reach_move: "reach start move s \<Longrightarrow> move s t \<Longrightarrow> reach start move t"

text \<open>A schedule: the states it goes through after the first.\<close>

fun schedule :: "('s \<Rightarrow> 's \<Rightarrow> bool) \<Rightarrow> 's \<Rightarrow> 's list \<Rightarrow> bool" where
  "schedule move s [] \<longleftrightarrow> True"
| "schedule move s (t # ts) \<longleftrightarrow> move s t \<and> schedule move t ts"

lemma reach_schedule: "reach start move s \<Longrightarrow> schedule move s ts \<Longrightarrow> reach start move (last (s # ts))"
proof (induction ts arbitrary: s)
  case (Cons t ts)
  then have "reach start move t" by (auto intro: reach_move)
  with Cons.IH [of t] Cons.prems show ?case by simp
qed simp

locale invariant =
  fixes start :: "'s \<Rightarrow> bool" and move :: "'s \<Rightarrow> 's \<Rightarrow> bool" and inv :: "'s \<Rightarrow> bool"
  assumes inv_start: "start s \<Longrightarrow> inv s"
    and inv_move: "inv s \<Longrightarrow> move s t \<Longrightarrow> inv t"
begin

lemma inv_reach: "reach start move s \<Longrightarrow> inv s"
  by (induction rule: reach.induct) (auto intro: inv_start inv_move)

lemma inv_schedule: "inv s \<Longrightarrow> schedule move s ts \<Longrightarrow> inv (last (s # ts))"
proof (induction ts arbitrary: s)
  case (Cons t ts)
  then have "inv t" by (auto intro: inv_move)
  with Cons.IH [of t] Cons.prems show ?case by simp
qed simp

end

text \<open>A predicate whose steps need the invariant: the two together are one.\<close>

locale layered_invariant = invariant start move inv
  for start :: "'s \<Rightarrow> bool" and move :: "'s \<Rightarrow> 's \<Rightarrow> bool" and inv :: "'s \<Rightarrow> bool" +
  fixes layer :: "'s \<Rightarrow> bool"
  assumes layer_start: "start s \<Longrightarrow> layer s"
    and layer_move: "inv s \<Longrightarrow> layer s \<Longrightarrow> move s t \<Longrightarrow> layer t"

sublocale layered_invariant \<subseteq> both: invariant start move "\<lambda>s. inv s \<and> layer s"
  by unfold_locales (auto intro: inv_start inv_move layer_start layer_move)

context layered_invariant
begin

lemma layer_reach: "reach start move s \<Longrightarrow> layer s"
  using both.inv_reach by blast

end

locale winding_down = invariant start move inv
  for start :: "'s \<Rightarrow> bool" and move :: "'s \<Rightarrow> 's \<Rightarrow> bool" and inv :: "'s \<Rightarrow> bool" +
  fixes left :: "'s \<Rightarrow> nat" and finished :: "'s \<Rightarrow> bool"
  assumes left_move: "inv s \<Longrightarrow> move s t \<Longrightarrow> left t < left s"
    and not_stuck: "inv s \<Longrightarrow> \<not> finished s \<Longrightarrow> \<exists>t. move s t"
begin

text \<open>No schedule is longer than what is left at its start.\<close>

lemma schedule_length: "inv s \<Longrightarrow> schedule move s ts \<Longrightarrow> length ts + left (last (s # ts)) \<le> left s"
proof (induction ts arbitrary: s)
  case (Cons t ts)
  then have "inv t" "left t < left s" using inv_move left_move by auto
  with Cons.IH [of t] Cons.prems show ?case by simp
qed simp

text \<open>One that can go no further has finished.\<close>

lemma schedule_ends: "inv s \<Longrightarrow> schedule move s ts \<Longrightarrow> \<nexists>t. move (last (s # ts)) t \<Longrightarrow> finished (last (s # ts))"
  using inv_schedule not_stuck by blast

text \<open>And every schedule can be carried on to a finished state.\<close>

lemma schedule_finishes:
  assumes "inv s"
  shows "\<exists>ts. schedule move s ts \<and> finished (last (s # ts)) \<and> length ts \<le> left s"
  using assms
proof (induction "left s" arbitrary: s rule: less_induct)
  case less
  show ?case
  proof (cases "finished s")
    case True
    then show ?thesis by (intro exI [of _ "[]"]) simp
  next
    case False
    then obtain t where t: "move s t" using not_stuck less.prems by blast
    then have "left t < left s" "inv t" using left_move inv_move less.prems by auto
    from less.hyps [OF this] obtain ts where "schedule move t ts" "finished (last (t # ts))" "length ts \<le> left t"
      by blast
    with t \<open>left t < left s\<close> show ?thesis by (intro exI [of _ "t # ts"]) auto
  qed
qed

end

end
