(* ===== verification/ConnSteps.thy ===== *)
theory ConnSteps
  imports ClientConn Reach
begin

text \<open>
  The connection under every schedule: any number of goroutines in \<^verbatim>\<open>Do\<close> and \<^verbatim>\<open>WriteBatch\<close>,
  and the reader, taking the steps of theory \<open>ClientConn\<close> in any order.

  The bookkeeping the steps share is abstracted by \<open>view\<close>: which object is at which stream
  identifier, what is in the pools, how many values are in each \<open>done\<close> channel, the count of
  active streams, the next identifier and the write lock. Everything the reader does to it is one
  abstract operation, \<open>a_close\<close>: take some streams out of the map and finish each of them. The
  invariant \<open>conn_inv\<close> is stated over the view, shown for each operation, and lifted to every
  reachable state.
\<close>

section \<open>The system\<close>

record 'd system =
  sys_cc :: "'d ClientConn"
  sys_threads :: "thread list"
  sys_expect :: "uint32 option" \<comment> \<open>the framer's: the stream whose header block is unfinished\<close>
  sys_read :: "rframe list" \<comment> \<open>the frames the reader has handled\<close>

text \<open>
  What the framer promises of the frames it returns (RFC 9113 section 6.10, and \<^verbatim>\<open>ReadFrame\<close>'s
  check of the frame order): a header block that has not ended is followed by nothing but
  CONTINUATION frames of its stream, and a CONTINUATION frame follows nothing else; a frame's
  length is of 24 bits, and the data of a DATA frame is what its padding leaves of it;
  a PING frame carries eight bytes.
\<close>

fun framer_ok :: "uint32 option \<Rightarrow> rframe \<Rightarrow> bool" where
  "framer_ok expect (ContinuationFrame sid fragment endHeaders) \<longleftrightarrow> expect = Some sid"
| "framer_ok expect (DataFrame sid len data ended) \<longleftrightarrow> expect = None \<and> length data \<le> len \<and> len < 2 ^ 24"
| "framer_ok expect (PingFrame ack data) \<longleftrightarrow> expect = None \<and> length data = 8"
| "framer_ok expect f \<longleftrightarrow> expect = None"

fun framer_next :: "rframe \<Rightarrow> uint32 option" where
  "framer_next (HeadersFrame sid fragment endHeaders endStream) = (if endHeaders then None else Some sid)"
| "framer_next (ContinuationFrame sid fragment endHeaders) = (if endHeaders then None else Some sid)"
| "framer_next f = None"

text \<open>
  A call a client of the connection may make: with a request \<^verbatim>\<open>NewRequest\<close> made, whose header
  block one frame can carry; a batch is of at least one request.
\<close>

definition call_request :: "Request \<Rightarrow> bool" where
  "call_request req \<longleftrightarrow> made_request req \<and> length (req_Block req) < 2 ^ 24"

fun is_call :: "thread \<Rightarrow> bool" where
  "is_call (DoStart req keep dstcap) \<longleftrightarrow> call_request req"
| "is_call (BatchStart req n keep) \<longleftrightarrow> call_request req \<and> 1 \<le> n"
| "is_call t \<longleftrightarrow> False"

inductive step :: "'d hpack_decoder \<Rightarrow> 'd system \<Rightarrow> 'd system \<Rightarrow> bool" for D where
  call: "is_call t \<Longrightarrow> step D s (s\<lparr>sys_threads := sys_threads s @ [t]\<rparr>)"
| run: "i < length (sys_threads s) \<Longrightarrow>
     thread_step pick w (sys_threads s ! i) (sys_cc s) = Some (t, cc) \<Longrightarrow>
     step D s (s\<lparr>sys_cc := cc, sys_threads := (sys_threads s)[i := t]\<rparr>)"
| frame: "\<not> cc_readerDone (sys_cc s) \<Longrightarrow> framer_ok (sys_expect s) f \<Longrightarrow>
     read_frame D w f (sys_cc s) = (None, cc) \<Longrightarrow>
     (cc_wmu (sys_cc s) \<Longrightarrow> cc_wire cc = cc_wire (sys_cc s)) \<Longrightarrow>
     step D s (s\<lparr>sys_cc := cc, sys_expect := framer_next f, sys_read := sys_read s @ [f]\<rparr>)"
| frame_error: "\<not> cc_readerDone (sys_cc s) \<Longrightarrow> framer_ok (sys_expect s) f \<Longrightarrow>
     read_frame D w f (sys_cc s) = (Some e, cc) \<Longrightarrow>
     (cc_wmu (sys_cc s) \<Longrightarrow> cc_wire cc = cc_wire (sys_cc s)) \<Longrightarrow>
     step D s (s\<lparr>sys_cc := readLoop_exit (Some e) cc\<rparr>)"
| read_error: "\<not> cc_readerDone (sys_cc s) \<Longrightarrow>
     step D s (s\<lparr>sys_cc := readLoop_exit (Some e) (sys_cc s)\<rparr>)"
| close: "step D s (s\<lparr>sys_cc := conn_Close (sys_cc s)\<rparr>)"

text \<open>A connection as \<^verbatim>\<open>NewClientConn\<close> returns it, with no call on it yet, and the states its steps reach.\<close>

inductive opened :: "'d system \<Rightarrow> bool" where
  start: "NewClientConn d onResult None = Inr cc \<Longrightarrow>
     opened \<lparr>sys_cc = cc, sys_threads = [], sys_expect = None, sys_read = []\<rparr>"

abbreviation reachable :: "'d hpack_decoder \<Rightarrow> 'd system \<Rightarrow> bool" where
  "reachable D \<equiv> reach opened (step D)"

section \<open>The abstraction\<close>

record aconn =
  a_id :: "sref \<Rightarrow> uint32"
  a_done :: "sref \<Rightarrow> nat option"
  a_next :: sref
  a_doPool :: "sref list"
  a_batchPool :: "sref list"
  a_streams :: "(uint32 \<times> sref) list"
  a_active :: int
  a_nextID :: uint32
  a_wmu :: bool

definition view :: "'d ClientConn \<Rightarrow> aconn" where
  "view cc =
     \<lparr>a_id = (\<lambda>r. st_id (cc_heap cc r)), a_done = (\<lambda>r. st_done (cc_heap cc r)),
      a_next = cc_next cc, a_doPool = cc_doPool cc, a_batchPool = cc_batchPool cc,
      a_streams = cc_streams cc, a_active = cc_active cc, a_nextID = cc_nextID cc,
      a_wmu = cc_wmu cc\<rparr>"

definition a_refs :: "aconn \<Rightarrow> sref set" where
  "a_refs a = snd ` set (a_streams a)"

definition a_finish :: "sref \<Rightarrow> aconn \<Rightarrow> aconn" where
  "a_finish r a =
     (case a_done a r of
        Some k \<Rightarrow> a\<lparr>a_done := (a_done a)(r := Some (Suc k))\<rparr>
      | None \<Rightarrow> a\<lparr>a_id := (a_id a)(r := 0), a_batchPool := r # a_batchPool a\<rparr>)"

definition a_close :: "(uint32 \<times> sref) list \<Rightarrow> aconn \<Rightarrow> aconn" where
  "a_close es a =
     foldl (\<lambda>a e. a_finish (snd e) a)
       (a\<lparr>a_streams := filter (\<lambda>e. e \<notin> set es) (a_streams a),
          a_active := a_active a - int (length es)\<rparr>) es"

section \<open>The invariant\<close>

fun thread_ref :: "thread \<Rightarrow> sref option" where
  "thread_ref (DoSlot r req) = Some r"
| "thread_ref (DoOpen r req) = Some r"
| "thread_ref (DoFlush r req buf n) = Some r"
| "thread_ref (DoBody r body) = Some r"
| "thread_ref (DoBodyFlush r body n) = Some r"
| "thread_ref (DoWait r) = Some r"
| "thread_ref t = None"

text \<open>A \<^verbatim>\<open>Do\<close> that has handed its stream over: to the map, or to its own \<open>done\<close> channel.\<close>

fun issued :: "thread \<Rightarrow> bool" where
  "issued (DoFlush r req buf n) = True"
| "issued (DoBody r body) = True"
| "issued (DoBodyFlush r body n) = True"
| "issued (DoWait r) = True"
| "issued t = False"

text \<open>The streams a writer has counted in \<^verbatim>\<open>active\<close> and not opened yet.\<close>

fun reserved :: "thread \<Rightarrow> nat" where
  "reserved (DoOpen r req) = 1"
| "reserved (BatchOpen req n keep) = nat n"
| "reserved t = 0"

fun holds_wmu :: "thread \<Rightarrow> bool" where
  "holds_wmu (DoFlush r req buf n) = True"
| "holds_wmu (BatchFlush req n buf) = True"
| "holds_wmu t = False"

definition map_inv :: "aconn \<Rightarrow> bool" where
  "map_inv a \<longleftrightarrow> distinct (map fst (a_streams a)) \<and> (\<forall>(k, r) \<in> set (a_streams a). a_id a r = k)"

definition pool_inv :: "aconn \<Rightarrow> bool" where
  "pool_inv a \<longleftrightarrow>
     distinct (a_doPool a @ a_batchPool a)
     \<and> (\<forall>r \<in> set (a_doPool a). a_done a r = Some 0)
     \<and> (\<forall>r \<in> set (a_batchPool a). a_done a r = None)
     \<and> (\<forall>r \<in> a_refs a. r \<notin> set (a_doPool a) \<and> r \<notin> set (a_batchPool a))
     \<and> (\<forall>r \<in> set (a_doPool a) \<union> set (a_batchPool a) \<union> a_refs a. r < a_next a)"

definition ids_inv :: "aconn \<Rightarrow> bool" where
  "ids_inv a \<longleftrightarrow>
     odd (unat (a_nextID a)) \<and> unat (a_nextID a) \<le> 2 ^ 31 + 1
     \<and> (\<forall>k \<in> fst ` set (a_streams a). odd (unat k) \<and> unat k < unat (a_nextID a))"

definition owner_inv :: "aconn \<Rightarrow> thread list \<Rightarrow> bool" where
  "owner_inv a ths \<longleftrightarrow>
     (\<forall>i < length ths. \<forall>r. thread_ref (ths ! i) = Some r \<longrightarrow>
        r < a_next a \<and> r \<notin> set (a_doPool a)
        \<and> a_done a r = Some (if issued (ths ! i) \<and> r \<notin> a_refs a then 1 else 0)
        \<and> (r \<in> a_refs a \<longrightarrow> issued (ths ! i)))
     \<and> (\<forall>i < length ths. \<forall>j < length ths. \<forall>r.
          thread_ref (ths ! i) = Some r \<longrightarrow> thread_ref (ths ! j) = Some r \<longrightarrow> i = j)
     \<and> (\<forall>r \<in> a_refs a. a_done a r \<noteq> None \<longrightarrow> (\<exists>i < length ths. thread_ref (ths ! i) = Some r))"

definition count_inv :: "nat \<Rightarrow> aconn \<Rightarrow> thread list \<Rightarrow> bool" where
  "count_inv k a ths \<longleftrightarrow>
     a_active a = int (length (a_streams a)) + int (sum_list (map reserved ths)) + int k"

definition wmu_inv :: "aconn \<Rightarrow> thread list \<Rightarrow> bool" where
  "wmu_inv a ths \<longleftrightarrow>
     (a_wmu a \<longleftrightarrow> (\<exists>i < length ths. holds_wmu (ths ! i)))
     \<and> (\<forall>i < length ths. \<forall>j < length ths. holds_wmu (ths ! i) \<longrightarrow> holds_wmu (ths ! j) \<longrightarrow> i = j)"

text \<open>\<open>conn_inv k\<close>, with \<open>k\<close> streams counted by the step under way and in neither place yet.\<close>

definition conn_inv :: "nat \<Rightarrow> aconn \<Rightarrow> thread list \<Rightarrow> bool" where
  "conn_inv k a ths \<longleftrightarrow>
     map_inv a \<and> pool_inv a \<and> ids_inv a \<and> owner_inv a ths \<and> count_inv k a ths"

lemmas conn_inv_defs = conn_inv_def map_inv_def pool_inv_def ids_inv_def owner_inv_def count_inv_def
  a_refs_def

section \<open>Lemmas on the abstraction\<close>

lemma view_simps [simp]:
  "a_id (view cc) r = st_id (cc_heap cc r)" "a_done (view cc) r = st_done (cc_heap cc r)"
  "a_next (view cc) = cc_next cc" "a_doPool (view cc) = cc_doPool cc"
  "a_batchPool (view cc) = cc_batchPool cc" "a_streams (view cc) = cc_streams cc"
  "a_active (view cc) = cc_active cc" "a_nextID (view cc) = cc_nextID cc" "a_wmu (view cc) = cc_wmu cc"
  by (simp_all add: view_def)

text \<open>The fields the view leaves out, and those it shows.\<close>

lemma view_updates [simp]:
  "view (cc\<lparr>cc_dec := x0\<rparr>) = view cc"
  "view (cc\<lparr>cc_wire := x1\<rparr>) = view cc"
  "view (cc\<lparr>cc_closed := x2\<rparr>) = view cc"
  "view (cc\<lparr>cc_connSendWindow := x3\<rparr>) = view cc"
  "view (cc\<lparr>cc_peerInitialWindow := x4\<rparr>) = view cc"
  "view (cc\<lparr>cc_peerMaxStreams := x5\<rparr>) = view cc"
  "view (cc\<lparr>cc_err := x6\<rparr>) = view cc"
  "view (cc\<lparr>cc_settingsSeen := x7\<rparr>) = view cc"
  "view (cc\<lparr>cc_readerDone := x8\<rparr>) = view cc"
  "view (cc\<lparr>cc_hasOnResult := x9\<rparr>) = view cc"
  "view (cc\<lparr>cc_results := x10\<rparr>) = view cc"
  "view (cc\<lparr>cc_hdrStream := x11\<rparr>) = view cc"
  "view (cc\<lparr>cc_hdrStatus := x12\<rparr>) = view cc"
  "view (cc\<lparr>cc_hdrEnd := x13\<rparr>) = view cc"
  "view (cc\<lparr>cc_recvConsumed := x14\<rparr>) = view cc"
  "view (cc\<lparr>cc_next := y0\<rparr>) = (view cc)\<lparr>a_next := y0\<rparr>"
  "view (cc\<lparr>cc_doPool := y1\<rparr>) = (view cc)\<lparr>a_doPool := y1\<rparr>"
  "view (cc\<lparr>cc_batchPool := y2\<rparr>) = (view cc)\<lparr>a_batchPool := y2\<rparr>"
  "view (cc\<lparr>cc_streams := y3\<rparr>) = (view cc)\<lparr>a_streams := y3\<rparr>"
  "view (cc\<lparr>cc_active := y4\<rparr>) = (view cc)\<lparr>a_active := y4\<rparr>"
  "view (cc\<lparr>cc_nextID := y5\<rparr>) = (view cc)\<lparr>a_nextID := y5\<rparr>"
  "view (cc\<lparr>cc_wmu := y6\<rparr>) = (view cc)\<lparr>a_wmu := y6\<rparr>"
  by (simp_all add: view_def)

lemma map_get_Some: "map_get m k = Some v \<Longrightarrow> (k, v) \<in> set m"
  by (simp add: map_get_def map_of_SomeD)

lemma map_get_iff: "distinct (map fst m) \<Longrightarrow> map_get m k = Some v \<longleftrightarrow> (k, v) \<in> set m"
  by (simp add: map_get_def)

text \<open>An update of a stream's response fields or window is invisible to the view.\<close>

lemma view_upd_stream [conn_simps]:
  "(\<And>s. st_id (f s) = st_id s) \<Longrightarrow> (\<And>s. st_done (f s) = st_done s) \<Longrightarrow> view (upd_stream r f cc) = view cc"
  by (auto simp: view_def upd_stream_def)

lemma upd_stream_fields [simp]:
  "cc_streams (upd_stream r f cc) = cc_streams cc" "cc_active (upd_stream r f cc) = cc_active cc"
  "cc_nextID (upd_stream r f cc) = cc_nextID cc" "cc_next (upd_stream r f cc) = cc_next cc"
  "cc_doPool (upd_stream r f cc) = cc_doPool cc" "cc_batchPool (upd_stream r f cc) = cc_batchPool cc"
  "cc_wmu (upd_stream r f cc) = cc_wmu cc" "cc_err (upd_stream r f cc) = cc_err cc"
  "cc_hdrStream (upd_stream r f cc) = cc_hdrStream cc" "cc_hdrStatus (upd_stream r f cc) = cc_hdrStatus cc"
  "cc_hdrEnd (upd_stream r f cc) = cc_hdrEnd cc" "cc_readerDone (upd_stream r f cc) = cc_readerDone cc"
  "cc_peerMaxStreams (upd_stream r f cc) = cc_peerMaxStreams cc"
  "cc_peerInitialWindow (upd_stream r f cc) = cc_peerInitialWindow cc"
  "cc_connSendWindow (upd_stream r f cc) = cc_connSendWindow cc"
  "cc_wire (upd_stream r f cc) = cc_wire cc" "cc_recvConsumed (upd_stream r f cc) = cc_recvConsumed cc"
  "cc_heap (upd_stream r f cc) = (cc_heap cc)(r := f (cc_heap cc r))"
  by (simp_all add: upd_stream_def)

lemma view_finish: "view (finish r cc) = a_finish r (view cc)"
  by (cases "st_done (cc_heap cc r)")
    (auto simp: finish_def a_finish_def putStream_def upd_stream_def view_def Let_def)

lemma view_fail_streams:
  "view (fail_streams e refs cc) = foldl (\<lambda>a r. a_finish r a) (view cc) refs"
proof (induction refs arbitrary: cc)
  case Nil
  then show ?case by (simp add: fail_streams_def)
next
  case (Cons r refs)
  have "view (upd_stream r (set_err e) cc) = view cc"
    by (rule view_upd_stream) (simp_all add: set_err_def)
  with Cons.IH show ?case by (simp add: fail_streams_def view_finish)
qed

section \<open>Finishing streams keeps the invariant\<close>

lemma a_finish_None:
  "a_done a r = None \<Longrightarrow> a_finish r a = a\<lparr>a_id := (a_id a)(r := 0), a_batchPool := r # a_batchPool a\<rparr>"
  by (simp add: a_finish_def)

lemma a_finish_Some:
  "a_done a r = Some k \<Longrightarrow> a_finish r a = a\<lparr>a_done := (a_done a)(r := Some (Suc k))\<rparr>"
  by (simp add: a_finish_def)

lemma a_finish_fold:
  "distinct rs \<Longrightarrow>
   foldl (\<lambda>a r. a_finish r a) a rs =
     a\<lparr>a_id := (\<lambda>r. if r \<in> set rs \<and> a_done a r = None then 0 else a_id a r),
       a_done := (\<lambda>r. if r \<in> set rs then map_option Suc (a_done a r) else a_done a r),
       a_batchPool := rev (filter (\<lambda>r. a_done a r = None) rs) @ a_batchPool a\<rparr>"
proof (induction rs arbitrary: a)
  case Nil
  then show ?case by simp
next
  case (Cons r rs)
  then have r: "r \<notin> set rs" and IH: "\<And>a. foldl (\<lambda>a r. a_finish r a) a rs =
     a\<lparr>a_id := (\<lambda>r. if r \<in> set rs \<and> a_done a r = None then 0 else a_id a r),
       a_done := (\<lambda>r. if r \<in> set rs then map_option Suc (a_done a r) else a_done a r),
       a_batchPool := rev (filter (\<lambda>r. a_done a r = None) rs) @ a_batchPool a\<rparr>"
    by simp_all
  show ?case
  proof (cases "a_done a r")
    case None
    with r show ?thesis
      by (intro aconn.equality) (auto simp: IH a_finish_None fun_eq_iff)
  next
    case (Some k)
    with r have "filter (\<lambda>q. a_done (a_finish r a) q = None) rs = filter (\<lambda>q. a_done a q = None) rs"
      by (intro filter_cong) (auto simp: a_finish_Some)
    with r Some show ?thesis
      by (intro aconn.equality) (auto simp: IH a_finish_Some fun_eq_iff)
  qed
qed

lemma a_close_eq:
  assumes "distinct (map snd es)"
  shows "a_close es a =
    a\<lparr>a_id := (\<lambda>r. if r \<in> snd ` set es \<and> a_done a r = None then 0 else a_id a r),
      a_done := (\<lambda>r. if r \<in> snd ` set es then map_option Suc (a_done a r) else a_done a r),
      a_batchPool := rev (filter (\<lambda>r. a_done a r = None) (map snd es)) @ a_batchPool a,
      a_streams := filter (\<lambda>e. e \<notin> set es) (a_streams a),
      a_active := a_active a - int (length es)\<rparr>"
proof -
  have "a_close es a = foldl (\<lambda>a r. a_finish r a)
      (a\<lparr>a_streams := filter (\<lambda>e. e \<notin> set es) (a_streams a),
         a_active := a_active a - int (length es)\<rparr>) (map snd es)"
    by (simp add: a_close_def foldl_map)
  then show ?thesis by (simp add: a_finish_fold [OF assms] cong: if_cong)
qed

lemma map_inv_id: "map_inv a \<Longrightarrow> (k, r) \<in> set (a_streams a) \<Longrightarrow> a_id a r = k"
  by (auto simp: map_inv_def)

lemma map_inv_inj: "map_inv a \<Longrightarrow> inj_on snd (set (a_streams a))"
proof (rule inj_onI)
  fix x y
  assume "map_inv a" "x \<in> set (a_streams a)" "y \<in> set (a_streams a)" "snd x = snd y"
  then show "x = y" by (cases x; cases y) (auto dest: map_inv_id)
qed

lemma map_inv_snd_distinct:
  assumes "map_inv a" and "set es \<subseteq> set (a_streams a)" and "distinct es"
  shows "distinct (map snd es)"
  using assms(3) inj_on_subset [OF map_inv_inj [OF assms(1)] assms(2)] by (simp add: distinct_map)

lemma map_inv_distinct: "map_inv a \<Longrightarrow> distinct (a_streams a)"
  by (auto simp: map_inv_def distinct_map)

lemma length_filter_diff:
  assumes "distinct xs" and "distinct ys" and "set ys \<subseteq> set xs"
  shows "length (filter (\<lambda>x. x \<notin> set ys) xs) + length ys = length xs"
proof -
  have "set (filter (\<lambda>x. x \<notin> set ys) xs) = set xs - set ys" by auto
  then have "length (filter (\<lambda>x. x \<notin> set ys) xs) = card (set xs - set ys)"
    using assms(1) distinct_card [of "filter (\<lambda>x. x \<notin> set ys) xs"] by simp
  also have "\<dots> = card (set xs) - card (set ys)"
    using assms(3) by (intro card_Diff_subset) auto
  finally show ?thesis
    using assms distinct_card [of xs] distinct_card [of ys] card_mono [of "set xs" "set ys"] by simp
qed

text \<open>The references left in the map when some of its entries are closed.\<close>

lemma a_refs_close:
  assumes "map_inv a" and "set es \<subseteq> set (a_streams a)" and "distinct es"
  shows "a_refs (a_close es a) = a_refs a - snd ` set es"
proof -
  have "a_refs (a_close es a) = snd ` (set (a_streams a) - set es)"
    by (auto simp: a_close_eq [OF map_inv_snd_distinct [OF assms]] a_refs_def)
  also have "\<dots> = a_refs a - snd ` set es"
    unfolding a_refs_def by (rule inj_on_image_set_diff [OF map_inv_inj [OF assms(1)]]) (use assms(2) in auto)
  finally show ?thesis .
qed

lemma a_close_map_inv:
  assumes "map_inv a" and "set es \<subseteq> set (a_streams a)" and "distinct es"
  shows "map_inv (a_close es a)"
proof -
  have "r \<notin> snd ` set es" if "(k, r) \<in> set (a_streams a)" "(k, r) \<notin> set es" for k r
  proof
    assume "r \<in> snd ` set es"
    then obtain k' where k': "(k', r) \<in> set es" by auto
    then have "(k', r) = (k, r)"
      using inj_onD [OF map_inv_inj [OF assms(1)], of "(k', r)" "(k, r)"] that(1) assms(2) by auto
    with k' that(2) show False by simp
  qed
  with assms(1) show ?thesis
    by (auto simp: a_close_eq [OF map_inv_snd_distinct [OF assms]] map_inv_def distinct_map_filter)
qed

lemma a_close_pool_inv:
  assumes "map_inv a" and "set es \<subseteq> set (a_streams a)" and "distinct es" and "pool_inv a"
  shows "pool_inv (a_close es a)"
proof -
  note refs = a_refs_close [OF assms(1-3)]
  have ds: "distinct (map snd es)" by (rule map_inv_snd_distinct [OF assms(1-3)])
  have sub: "snd ` set es \<subseteq> a_refs a" using assms(2) by (auto simp: a_refs_def)
  show ?thesis
    using assms(4) sub ds unfolding pool_inv_def refs
    by (auto simp: a_close_eq [OF ds] distinct_map)
qed

lemma a_close_owner_inv:
  assumes "map_inv a" and "set es \<subseteq> set (a_streams a)" and "distinct es" and "owner_inv a ths"
  shows "owner_inv (a_close es a) ths"
proof -
  note refs = a_refs_close [OF assms(1-3)]
  have ds: "distinct (map snd es)" by (rule map_inv_snd_distinct [OF assms(1-3)])
  have sub: "snd ` set es \<subseteq> a_refs a" using assms(2) by (auto simp: a_refs_def)
  show ?thesis
    using assms(4) sub unfolding owner_inv_def refs
    by (auto simp: a_close_eq [OF ds])
qed

lemma a_close_inv:
  assumes "conn_inv k a ths" and "set es \<subseteq> set (a_streams a)" and "distinct es"
  shows "conn_inv k (a_close es a) ths"
proof -
  from assms(1) have m: "map_inv a" by (simp add: conn_inv_def)
  note ds = map_inv_snd_distinct [OF m assms(2,3)]
  have "ids_inv (a_close es a)"
    using assms(1) by (auto simp: a_close_eq [OF ds] conn_inv_def ids_inv_def)
  moreover have "count_inv k (a_close es a) ths"
    using assms(1) length_filter_diff [OF map_inv_distinct [OF m] assms(3,2)]
    by (auto simp: a_close_eq [OF ds] conn_inv_def count_inv_def)
  ultimately show ?thesis
    using assms(1) a_close_map_inv [OF m assms(2,3)] a_close_pool_inv [OF m assms(2,3)]
      a_close_owner_inv [OF m assms(2,3)]
    by (simp add: conn_inv_def)
qed

section \<open>What the reader does to the view\<close>

text \<open>The refinement: an operation of the reader is \<^const>\<open>a_close\<close> of some entries of the map.\<close>

definition closes :: "'d ClientConn \<Rightarrow> 'd ClientConn \<Rightarrow> bool" where
  "closes cc cc' \<longleftrightarrow>
     (\<exists>es. set es \<subseteq> set (cc_streams cc) \<and> distinct es \<and> view cc' = a_close es (view cc))"

lemma a_close_Nil: "a_close [] a = a"
  by (simp add: a_close_def)

lemma closes_same_view: "view cc' = view cc \<Longrightarrow> closes cc cc'"
  unfolding closes_def by (intro exI [of _ "[]"]) (simp add: a_close_Nil)

lemma closes_view_left: "view cc = view cc2 \<Longrightarrow> closes cc cc' \<Longrightarrow> closes cc2 cc'"
  unfolding closes_def by (metis view_simps(6))

lemma closes_inv:
  assumes "closes cc cc'" and "conn_inv k (view cc) ths"
  shows "conn_inv k (view cc') ths"
  using assms a_close_inv [of k "view cc" ths] by (auto simp: closes_def)

lemma map_del_entry:
  assumes "distinct (map fst m)" and "(k, v) \<in> set m"
  shows "map_del m k = filter (\<lambda>e. e \<noteq> (k, v)) m"
  unfolding map_del_def using assms
  by (intro filter_cong) (auto dest: eq_key_imp_eq_value)

lemma view_take_finish:
  assumes "map_inv (view cc)" and "(k, r) \<in> set (cc_streams cc)"
  shows "view (finish r (cc\<lparr>cc_streams := map_del (cc_streams cc) k, cc_active := cc_active cc - 1\<rparr>)) =
    a_close [(k, r)] (view cc)"
proof -
  have "map_del (cc_streams cc) k = filter (\<lambda>e. e \<noteq> (k, r)) (cc_streams cc)"
    using assms by (intro map_del_entry) (auto simp: map_inv_def)
  then have "view (cc\<lparr>cc_streams := map_del (cc_streams cc) k, cc_active := cc_active cc - 1\<rparr>) =
      (view cc)\<lparr>a_streams := filter (\<lambda>e. e \<notin> set [(k, r)]) (a_streams (view cc)),
         a_active := a_active (view cc) - int (length [(k, r)])\<rparr>"
    by (simp add: view_def)
  then show ?thesis by (simp add: view_finish a_close_def)
qed

lemma closes_entry:
  assumes "map_inv (view cc)" and "(k, r) \<in> set (cc_streams cc)"
  shows "closes cc (finish r (cc\<lparr>cc_streams := map_del (cc_streams cc) k, cc_active := cc_active cc - 1\<rparr>))"
  unfolding closes_def using assms by (intro exI [of _ "[(k, r)]"]) (simp add: view_take_finish)

lemma closes_end_stream:
  assumes "map_inv (view cc)" and "(k, r) \<in> set (cc_streams cc)"
  shows "closes cc (end_stream r cc)"
proof -
  have "st_id (cc_heap cc r) = k" using map_inv_id [OF assms(1)] assms(2) by simp
  moreover have "map_get (cc_streams cc) k = Some r"
    using assms by (simp add: map_get_iff map_inv_def)
  ultimately show ?thesis
    using closes_entry [OF assms] by (simp add: end_stream_def take_stream_def)
qed

lemma upd_stream_take:
  "upd_stream r f (cc\<lparr>cc_streams := m, cc_active := n\<rparr>) =
   (upd_stream r f cc)\<lparr>cc_streams := m, cc_active := n\<rparr>"
  by (simp add: upd_stream_def)

lemma closes_onRSTStream:
  assumes "map_inv (view cc)"
  shows "closes cc (onRSTStream sid code cc)"
proof (cases "map_get (cc_streams cc) sid")
  case None
  then show ?thesis by (simp add: onRSTStream_def take_stream_def closes_same_view)
next
  case (Some r)
  let ?cc = "upd_stream r (set_err (ErrStreamReset code)) cc"
  have v: "view ?cc = view cc" by (rule view_upd_stream) (simp_all add: set_err_def)
  have "onRSTStream sid code cc =
      finish r (?cc\<lparr>cc_streams := map_del (cc_streams ?cc) sid, cc_active := cc_active ?cc - 1\<rparr>)"
    using Some by (simp add: onRSTStream_def take_stream_def upd_stream_take)
  moreover have "closes ?cc \<dots>"
    using assms map_get_Some [OF Some] by (intro closes_entry) (simp_all add: v)
  ultimately show ?thesis using v closes_view_left by metis
qed

lemma view_failLocked [simp]: "view (failLocked e cc) = view cc"
  by (simp add: failLocked_def view_def)

lemma failLocked_streams [simp]: "cc_streams (failLocked e cc) = cc_streams cc"
  "cc_active (failLocked e cc) = cc_active cc"
  by (simp_all add: failLocked_def)

text \<open>Taking a set of entries out at once, as GOAWAY and the reader's exit do.\<close>

lemma closes_fail_streams:
  assumes "map_inv (view cc)"
  shows "closes cc (fail_streams e (map snd (filter P (cc_streams cc)))
    (cc\<lparr>cc_streams := filter (\<lambda>x. \<not> P x) (cc_streams cc),
       cc_active := cc_active cc - int (length (filter P (cc_streams cc)))\<rparr>))"
proof -
  let ?es = "filter P (cc_streams cc)"
  have "filter (\<lambda>x. x \<notin> set ?es) (cc_streams cc) = filter (\<lambda>x. \<not> P x) (cc_streams cc)"
    by (rule filter_cong) auto
  then have "view (fail_streams e (map snd ?es)
      (cc\<lparr>cc_streams := filter (\<lambda>x. \<not> P x) (cc_streams cc),
         cc_active := cc_active cc - int (length ?es)\<rparr>)) = a_close ?es (view cc)"
    by (simp add: view_fail_streams a_close_def foldl_map)
  moreover have "distinct ?es" using map_inv_distinct [OF assms] by simp
  ultimately show ?thesis unfolding closes_def by (intro exI [of _ ?es]) auto
qed

lemma closes_onGoAway:
  assumes "map_inv (view cc)"
  shows "closes cc (onGoAway lastStreamID code cc)"
proof -
  let ?cc = "failLocked (ErrGoAway code) cc"
  obtain e where e: "cc_err ?cc = Some e" by (cases "cc_err cc") (auto simp: failLocked_def)
  have "closes ?cc (onGoAway lastStreamID code cc)"
    using closes_fail_streams [of ?cc e "\<lambda>x. fst x > lastStreamID"] assms e
    by (simp add: onGoAway_def Let_def)
  then show ?thesis by (rule closes_view_left [rotated]) simp
qed

lemma closes_readLoop_exit:
  assumes "map_inv (view cc)"
  shows "closes cc (readLoop_exit x cc)"
proof -
  let ?cc = "failLocked (case x of None \<Rightarrow> ErrConnClosed | Some x \<Rightarrow> x) (conn_Close cc)"
  have v: "view ?cc = view cc" by (simp add: conn_Close_def)
  then have m: "map_inv (view ?cc)" using assms by simp
  have st: "filter (\<lambda>_. False) (cc_streams ?cc) = []" "filter (\<lambda>_. True) (cc_streams ?cc) = cc_streams ?cc"
    by simp_all
  obtain e where "readLoop_exit x cc =
      (fail_streams e (map snd (cc_streams ?cc))
        (?cc\<lparr>cc_streams := [], cc_active := cc_active ?cc - int (length (cc_streams ?cc))\<rparr>))
      \<lparr>cc_settingsSeen := True, cc_readerDone := True\<rparr>"
    by (simp add: readLoop_exit_def Let_def)
  then have "view (readLoop_exit x cc) = view (fail_streams e (map snd (cc_streams ?cc))
        (?cc\<lparr>cc_streams := [], cc_active := cc_active ?cc - int (length (cc_streams ?cc))\<rparr>))"
    by simp
  then have "closes ?cc (readLoop_exit x cc)"
    using closes_fail_streams [OF m, of e "\<lambda>_. True"] by (simp add: closes_def)
  then show ?thesis using v by (rule closes_view_left [rotated])
qed

lemma view_recv_window: "recv_window w len cc = (e, cc') \<Longrightarrow> view cc' = view cc"
  by (auto simp: recv_window_def writeControl_def conn_Write_def Let_def split: if_splits option.splits)

lemma closes_onData:
  assumes "map_inv (view cc)" and "onData w sid len data ended cc = (e, cc')"
  shows "closes cc cc'"
proof -
  obtain e1 cc1 where w: "recv_window w len cc = (e1, cc1)" by fastforce
  then have v1: "view cc1 = view cc" by (rule view_recv_window)
  show ?thesis
  proof (cases "e1 = None \<and> map_get (cc_streams cc1) sid \<noteq> None \<and> ended")
    case True
    then obtain r where r: "map_get (cc_streams cc1) sid = Some r" by auto
    let ?cc = "upd_stream r (add_data data) cc1"
    have v: "view ?cc = view cc"
      unfolding v1 [symmetric] by (rule view_upd_stream) (simp_all add: add_data_def Let_def)
    have "closes ?cc (end_stream r ?cc)"
      using assms(1) map_get_Some [OF r] by (intro closes_end_stream) (simp_all add: v)
    then show ?thesis
      using assms(2) w r True closes_view_left [OF v] by (simp add: onData_def Let_def)
  next
    case False
    then have "view cc' = view cc1"
      using assms(2) w
      by (auto simp: onData_def Let_def add_data_def split: option.splits intro!: view_upd_stream)
    with v1 show ?thesis by (intro closes_same_view) simp
  qed
qed

lemma onHeaderField_fold:
  "view (foldl (\<lambda>cc f. onHeaderField f cc) cc fs) = view cc
   \<and> cc_hdrStream (foldl (\<lambda>cc f. onHeaderField f cc) cc fs) = cc_hdrStream cc"
  by (induction fs arbitrary: cc)
    (auto simp: onHeaderField_def split: prod.splits option.splits if_splits)

lemma view_apply_status [simp]: "view (upd_stream r (apply_status st) cc) = view cc"
  by (rule view_upd_stream) (simp_all add: apply_status_def)

lemma closes_onHeaderBlock:
  assumes "map_inv (view cc)" and "\<And>r. cc_hdrStream cc = Some r \<Longrightarrow> r \<in> a_refs (view cc)"
    and "onHeaderBlock D fragment ended cc = (e, cc')"
  shows "closes cc cc'"
proof -
  obtain d fields e1 where wr: "dec_Write D (cc_dec cc) fragment = (d, fields, e1)"
    by (cases "dec_Write D (cc_dec cc) fragment") auto
  define cc1 where "cc1 = foldl (\<lambda>cc f. onHeaderField f cc) (cc\<lparr>cc_dec := d\<rparr>) fields"
  have v1: "view cc1 = view cc" and h1: "cc_hdrStream cc1 = cc_hdrStream cc"
    using onHeaderField_fold [of "cc\<lparr>cc_dec := d\<rparr>" fields] by (simp_all add: cc1_def)
  obtain d2 e2 where cl: "dec_Close D (cc_dec cc1) = (d2, e2)" by fastforce
  show ?thesis
  proof (cases "e1 = None \<and> ended \<and> e2 = None \<and> cc_hdrStream cc \<noteq> None \<and> cc_hdrEnd cc1")
    case True
    then obtain r k where r: "cc_hdrStream cc = Some r" and k: "(k, r) \<in> set (cc_streams cc)"
      using assms(2) by (auto simp: a_refs_def)
    let ?cc = "upd_stream r (apply_status (cc_hdrStatus cc1)) (cc1\<lparr>cc_dec := d2, cc_hdrStream := None\<rparr>)"
    have v: "view ?cc = view cc" by (simp add: v1)
    moreover have "cc_streams ?cc = cc_streams cc" using v by (metis view_simps(6))
    ultimately have "closes ?cc (end_stream r ?cc)"
      using assms(1) k by (intro closes_end_stream) simp_all
    then show ?thesis
      using assms(3) wr cl r h1 True closes_view_left [OF v]
      by (simp add: onHeaderBlock_def cc1_def [symmetric] Let_def)
  next
    case False
    then have "view cc' = view cc1"
      using assms(3) wr cl h1
      by (auto simp: onHeaderBlock_def cc1_def [symmetric] Let_def split: option.splits if_splits)
    with v1 show ?thesis by (intro closes_same_view) simp
  qed
qed

lemma view_upd_fold:
  "(\<And>s. st_id (f s) = st_id s) \<Longrightarrow> (\<And>s. st_done (f s) = st_done s) \<Longrightarrow>
   view (foldl (\<lambda>cc e. upd_stream (snd e) f cc) cc es) = view cc"
proof (induction es arbitrary: cc)
  case Nil
  then show ?case by simp
next
  case (Cons e es)
  then have "view (upd_stream (snd e) f cc) = view cc" by (intro view_upd_stream)
  with Cons show ?case by simp
qed

lemma view_onSetting [simp]: "view (onSetting x cc) = view cc"
  by (cases x) (simp add: onSetting_def Let_def view_upd_fold)

lemma view_onSettings: "onSettings w xs cc = (e, cc') \<Longrightarrow> view cc' = view cc"
proof -
  have "view (foldl (\<lambda>cc s. onSetting s cc) cc xs) = view cc"
    by (induction xs arbitrary: cc) simp_all
  then show "onSettings w xs cc = (e, cc') \<Longrightarrow> view cc' = view cc"
    by (auto simp: onSettings_def writeControl_def conn_Write_def Let_def split: option.splits)
qed

lemma view_onWindowUpdate: "view (onWindowUpdate sid inc cc) = view cc"
  by (auto simp: onWindowUpdate_def split: option.splits intro!: view_upd_stream)

lemma closes_read_frame:
  assumes "map_inv (view cc)" and "\<And>r. cc_hdrStream cc = Some r \<Longrightarrow> r \<in> a_refs (view cc)"
    and "read_frame D w f cc = (e, cc')"
  shows "closes cc cc'"
proof (cases f)
  case (HeadersFrame sid fragment endHeaders endStream)
  let ?cc = "startHeaders sid endStream cc"
  have v: "view ?cc = view cc" by (simp add: startHeaders_def)
  have "closes ?cc cc'"
  proof (rule closes_onHeaderBlock)
    show "onHeaderBlock D fragment endHeaders ?cc = (e, cc')" using assms(3) HeadersFrame by simp
    show "\<And>r. cc_hdrStream ?cc = Some r \<Longrightarrow> r \<in> a_refs (view ?cc)"
      by (force simp: startHeaders_def a_refs_def dest: map_get_Some)
  qed (simp add: v assms(1))
  then show ?thesis by (rule closes_view_left [OF v])
qed (use assms in \<open>auto simp: writeControl_def conn_Write_def split: if_splits
  intro: closes_onData closes_onHeaderBlock closes_onRSTStream closes_onGoAway closes_same_view
    view_onSettings view_onWindowUpdate\<close>)

end
