(* ===== verification/ConnInv.thy ===== *)
theory ConnInv
  imports ConnSteps
begin

text \<open>
  The invariant of theory \<open>ConnSteps\<close> under the writers: one lemma for each thing a step of
  \<^verbatim>\<open>Do\<close> or \<^verbatim>\<open>WriteBatch\<close> does to the view - take a stream object, reserve a slot, open a
  stream, hand it back - then one for each step, then for every reachable state.
\<close>

section \<open>Changing one thread\<close>

lemma sum_reserved_update:
  "i < length ths \<Longrightarrow>
   int (sum_list (map reserved (ths[i := t]))) =
     int (sum_list (map reserved ths)) + int (reserved t) - int (reserved (ths ! i))"
proof -
  assume "i < length ths"
  then have "sum_list (map reserved (ths[i := t])) + reserved (ths ! i) = sum_list (map reserved ths) + reserved t"
    by (induction ths arbitrary: i) (auto split: nat.splits)
  then show ?thesis by linarith
qed

lemma owner_invI:
  assumes "\<And>i r. i < length ths \<Longrightarrow> thread_ref (ths ! i) = Some r \<Longrightarrow>
      r < a_next a \<and> r \<notin> set (a_doPool a)
      \<and> a_done a r = Some (if issued (ths ! i) \<and> r \<notin> a_refs a then 1 else 0)
      \<and> (r \<in> a_refs a \<longrightarrow> issued (ths ! i))"
    and "\<And>i j r. i < length ths \<Longrightarrow> j < length ths \<Longrightarrow>
      thread_ref (ths ! i) = Some r \<Longrightarrow> thread_ref (ths ! j) = Some r \<Longrightarrow> i = j"
    and "\<And>r. r \<in> a_refs a \<Longrightarrow> a_done a r \<noteq> None \<Longrightarrow> \<exists>i < length ths. thread_ref (ths ! i) = Some r"
  shows "owner_inv a ths"
  unfolding owner_inv_def using assms by (metis (no_types, lifting))

lemma owner_inv_same:
  assumes "owner_inv a ths" and "i < length ths"
    and "thread_ref t = thread_ref (ths ! i)" and "issued t = issued (ths ! i)"
  shows "owner_inv a (ths[i := t])"
proof -
  have "thread_ref (ths[i := t] ! j) = thread_ref (ths ! j) \<and> issued (ths[i := t] ! j) = issued (ths ! j)"
    if "j < length ths" for j
    using assms that by (cases "i = j") auto
  with assms(1) show ?thesis unfolding owner_inv_def by (simp cong: conj_cong)
qed

text \<open>A thread that keeps its stream and reserves slots, or gives them back.\<close>

lemma conn_inv_reserve:
  assumes "conn_inv k a ths" and "i < length ths"
    and "thread_ref t = thread_ref (ths ! i)" and "issued t = issued (ths ! i)"
    and "int k' + int (reserved t) + a_active a = int k + int (reserved (ths ! i)) + n"
  shows "conn_inv k' (a\<lparr>a_active := n\<rparr>) (ths[i := t])"
proof -
  have "owner_inv a (ths[i := t])" using assms(1) by (intro owner_inv_same assms(2-4)) (simp add: conn_inv_def)
  then have "owner_inv (a\<lparr>a_active := n\<rparr>) (ths[i := t])" by (simp add: owner_inv_def a_refs_def)
  with assms show ?thesis
    by (auto simp: conn_inv_def map_inv_def pool_inv_def ids_inv_def count_inv_def a_refs_def
        sum_reserved_update [OF assms(2)])
qed

lemma conn_inv_thread:
  assumes "conn_inv k a ths" and "i < length ths"
    and "thread_ref t = thread_ref (ths ! i)" and "issued t = issued (ths ! i)"
    and "reserved t = reserved (ths ! i)"
  shows "conn_inv k a (ths[i := t])"
  using conn_inv_reserve [OF assms(1-4), of k "a_active a"] assms(5) by simp

section \<open>The thread's own stream\<close>

lemma owner_inv_thread:
  assumes "owner_inv a ths" and "i < length ths" and "thread_ref (ths ! i) = Some r"
  shows "r < a_next a" "r \<notin> set (a_doPool a)"
    "a_done a r = Some (if issued (ths ! i) \<and> r \<notin> a_refs a then 1 else 0)"
    "r \<in> a_refs a \<Longrightarrow> issued (ths ! i)"
    "j < length ths \<Longrightarrow> thread_ref (ths ! j) = Some r \<Longrightarrow> j = i"
  using assms unfolding owner_inv_def by blast+

text \<open>A stream that is in no map goes back to the pool.\<close>

lemma conn_inv_return:
  assumes inv: "conn_inv k a ths" and i: "i < length ths" and r: "thread_ref (ths ! i) = Some r"
    and "r \<notin> a_refs a" and t: "thread_ref t = None" "reserved t = reserved (ths ! i)"
  shows "conn_inv k (a\<lparr>a_id := (a_id a)(r := 0), a_done := (a_done a)(r := Some 0),
    a_doPool := r # a_doPool a\<rparr>) (ths[i := t])"
    (is "conn_inv k ?a ?ths")
proof -
  from inv have m: "map_inv a" and p: "pool_inv a" and o: "owner_inv a ths" and c: "count_inv k a ths"
    by (simp_all add: conn_inv_def)
  note own = owner_inv_thread [OF o i r]
  have refs: "a_refs ?a = a_refs a" by (simp add: a_refs_def)
  have other: "thread_ref (ths ! j) \<noteq> Some r" if "j < length ths" "j \<noteq> i" for j
    using own(5) that by blast
  have "map_inv ?a" using m assms(4) by (force simp: map_inv_def a_refs_def)
  moreover have "pool_inv ?a"
    using p own(1-3) assms(4) unfolding pool_inv_def refs by auto
  moreover have "owner_inv ?a ?ths"
  proof (rule owner_invI, unfold refs)
    fix j q assume j: "j < length ?ths" and q: "thread_ref (?ths ! j) = Some q"
    then have "j \<noteq> i" "thread_ref (ths ! j) = Some q" using t i by (auto simp: nth_list_update split: if_splits)
    then show "q < a_next ?a \<and> q \<notin> set (a_doPool ?a)
        \<and> a_done ?a q = Some (if issued (?ths ! j) \<and> q \<notin> a_refs a then 1 else 0)
        \<and> (q \<in> a_refs a \<longrightarrow> issued (?ths ! j))"
      using o j other [of j] by (auto simp: owner_inv_def)
  next
    fix j j' q
    assume "j < length ?ths" "j' < length ?ths" "thread_ref (?ths ! j) = Some q" "thread_ref (?ths ! j') = Some q"
    then show "j = j'" using o t i unfolding owner_inv_def by (auto simp: nth_list_update split: if_splits)
  next
    fix q assume q: "q \<in> a_refs a" and "a_done ?a q \<noteq> None"
    with assms(4) obtain j where "j < length ths" "thread_ref (ths ! j) = Some q"
      using o by (auto simp: owner_inv_def split: if_splits)
    moreover then have "j \<noteq> i" using r q assms(4) by auto
    ultimately show "\<exists>j < length ?ths. thread_ref (?ths ! j) = Some q" by (intro exI [of _ j]) simp
  qed
  moreover have "ids_inv ?a" using inv by (simp add: conn_inv_def ids_inv_def)
  moreover have "count_inv k ?a ?ths" using c t by (simp add: count_inv_def sum_reserved_update [OF i])
  ultimately show ?thesis by (simp add: conn_inv_def)
qed

text \<open>A stream that could not be opened is handed to its own \<open>done\<close> channel.\<close>

lemma conn_inv_fail:
  assumes inv: "conn_inv k a ths" and i: "i < length ths" and r: "thread_ref (ths ! i) = Some r"
    and "\<not> issued (ths ! i)" and t: "thread_ref t = Some r" "issued t" and n: "reserved (ths ! i) = reserved t + n"
  shows "conn_inv k (a\<lparr>a_active := a_active a - int n, a_done := (a_done a)(r := map_option Suc (a_done a r))\<rparr>)
    (ths[i := t])"
    (is "conn_inv k ?a ?ths")
proof -
  from inv have m: "map_inv a" and p: "pool_inv a" and o: "owner_inv a ths" and c: "count_inv k a ths"
    by (simp_all add: conn_inv_def)
  note own = owner_inv_thread [OF o i r]
  have notin: "r \<notin> a_refs a" using own(4) assms(4) by blast
  have refs: "a_refs ?a = a_refs a" by (simp add: a_refs_def)
  have ref_same: "thread_ref (?ths ! j) = thread_ref (ths ! j)" if "j < length ths" for j
    using that t r by (cases "i = j") auto
  have "map_inv ?a" using m by (simp add: map_inv_def)
  moreover have "pool_inv ?a"
    using p own(1-3) notin unfolding pool_inv_def refs by auto
  moreover have "owner_inv ?a ?ths"
  proof (rule owner_invI, unfold refs)
    fix j q assume j: "j < length ?ths" and q: "thread_ref (?ths ! j) = Some q"
    then have q': "thread_ref (ths ! j) = Some q" using ref_same by simp
    show "q < a_next ?a \<and> q \<notin> set (a_doPool ?a)
        \<and> a_done ?a q = Some (if issued (?ths ! j) \<and> q \<notin> a_refs a then 1 else 0)
        \<and> (q \<in> a_refs a \<longrightarrow> issued (?ths ! j))"
    proof (cases "j = i")
      case True
      with q t i own notin assms(4) show ?thesis by auto
    next
      case False
      with own(5) [of j] q' j have "q \<noteq> r" by auto
      with False j o q' show ?thesis by (auto simp: owner_inv_def)
    qed
  next
    fix j j' q
    assume "j < length ?ths" "j' < length ?ths" "thread_ref (?ths ! j) = Some q" "thread_ref (?ths ! j') = Some q"
    then show "j = j'" using o ref_same unfolding owner_inv_def by auto
  next
    fix q assume q: "q \<in> a_refs a" and "a_done ?a q \<noteq> None"
    then obtain j where "j < length ths" "thread_ref (ths ! j) = Some q"
      using o by (auto simp: owner_inv_def split: if_splits)
    with ref_same show "\<exists>j < length ?ths. thread_ref (?ths ! j) = Some q" by (intro exI [of _ j]) simp
  qed
  moreover have "ids_inv ?a" using inv by (simp add: conn_inv_def ids_inv_def)
  moreover have "count_inv k ?a ?ths" using c n by (simp add: count_inv_def sum_reserved_update [OF i])
  ultimately show ?thesis by (simp add: conn_inv_def)
qed

section \<open>Taking stream objects\<close>

text \<open>An allocation is a new object put in a pool, then taken from it.\<close>

lemma conn_inv_new_do:
  assumes inv: "conn_inv k a ths"
  shows "conn_inv k (a\<lparr>a_id := (a_id a)(a_next a := 0), a_done := (a_done a)(a_next a := Some 0),
    a_next := Suc (a_next a), a_doPool := a_next a # a_doPool a\<rparr>) ths"
    (is "conn_inv k ?a ths")
proof -
  from inv have m: "map_inv a" and p: "pool_inv a" and o: "owner_inv a ths"
    by (simp_all add: conn_inv_def)
  have refs: "a_refs ?a = a_refs a" by (simp add: a_refs_def)
  have "a_next a \<notin> a_refs a" using p by (auto simp: pool_inv_def)
  with m have "map_inv ?a" by (force simp: map_inv_def a_refs_def)
  moreover have "pool_inv ?a" using p unfolding pool_inv_def refs by (auto simp: less_Suc_eq)
  moreover have "owner_inv ?a ths"
  proof (rule owner_invI, unfold refs)
    fix j q assume "j < length ths" "thread_ref (ths ! j) = Some q"
    from owner_inv_thread [OF o this]
    show "q < a_next ?a \<and> q \<notin> set (a_doPool ?a)
        \<and> a_done ?a q = Some (if issued (ths ! j) \<and> q \<notin> a_refs a then 1 else 0)
        \<and> (q \<in> a_refs a \<longrightarrow> issued (ths ! j))"
      by auto
  next
    fix q assume "q \<in> a_refs a" "a_done ?a q \<noteq> None"
    with p have "a_done a q \<noteq> None" by (auto simp: pool_inv_def split: if_splits)
    with o \<open>q \<in> a_refs a\<close> show "\<exists>i < length ths. thread_ref (ths ! i) = Some q"
      by (simp add: owner_inv_def)
  qed (use owner_inv_thread(5) [OF o] in blast)
  ultimately show ?thesis using inv by (simp add: conn_inv_def ids_inv_def count_inv_def)
qed

lemma conn_inv_new_batch:
  assumes inv: "conn_inv k a ths"
  shows "conn_inv k (a\<lparr>a_id := (a_id a)(a_next a := 0), a_done := (a_done a)(a_next a := None),
    a_next := Suc (a_next a), a_batchPool := a_next a # a_batchPool a\<rparr>) ths"
    (is "conn_inv k ?a ths")
proof -
  from inv have m: "map_inv a" and p: "pool_inv a" and o: "owner_inv a ths"
    by (simp_all add: conn_inv_def)
  have refs: "a_refs ?a = a_refs a" by (simp add: a_refs_def)
  have "a_next a \<notin> a_refs a" using p by (auto simp: pool_inv_def)
  with m have "map_inv ?a" by (force simp: map_inv_def a_refs_def)
  moreover have "pool_inv ?a" using p unfolding pool_inv_def refs by (auto simp: less_Suc_eq)
  moreover have "owner_inv ?a ths"
  proof (rule owner_invI, unfold refs)
    fix j q assume "j < length ths" "thread_ref (ths ! j) = Some q"
    from owner_inv_thread [OF o this]
    show "q < a_next ?a \<and> q \<notin> set (a_doPool ?a)
        \<and> a_done ?a q = Some (if issued (ths ! j) \<and> q \<notin> a_refs a then 1 else 0)
        \<and> (q \<in> a_refs a \<longrightarrow> issued (ths ! j))"
      by auto
  next
    fix q assume "q \<in> a_refs a" "a_done ?a q \<noteq> None"
    with o show "\<exists>i < length ths. thread_ref (ths ! i) = Some q"
      by (auto simp: owner_inv_def split: if_splits)
  qed (use owner_inv_thread(5) [OF o] in blast)
  ultimately show ?thesis using inv by (simp add: conn_inv_def ids_inv_def count_inv_def)
qed

lemma conn_inv_get:
  assumes inv: "conn_inv k a ths" and i: "i < length ths" and pool: "a_doPool a = xs @ r # ys"
    and "thread_ref (ths ! i) = None"
    and t: "thread_ref t = Some r" "\<not> issued t" "reserved t = reserved (ths ! i)"
  shows "conn_inv k (a\<lparr>a_doPool := xs @ ys\<rparr>) (ths[i := t])"
    (is "conn_inv k ?a ?ths")
proof -
  from inv have p: "pool_inv a" and o: "owner_inv a ths" by (simp_all add: conn_inv_def)
  have refs: "a_refs ?a = a_refs a" by (simp add: a_refs_def)
  have own: "thread_ref (ths ! j) \<noteq> Some r" if "j < length ths" for j
    using owner_inv_thread(2) [OF o that] pool by auto
  have "pool_inv ?a" using p pool unfolding pool_inv_def refs by auto
  moreover have "owner_inv ?a ?ths"
  proof (rule owner_invI, unfold refs)
    fix j q assume j: "j < length ?ths" and q: "thread_ref (?ths ! j) = Some q"
    show "q < a_next ?a \<and> q \<notin> set (a_doPool ?a)
        \<and> a_done ?a q = Some (if issued (?ths ! j) \<and> q \<notin> a_refs a then 1 else 0)
        \<and> (q \<in> a_refs a \<longrightarrow> issued (?ths ! j))"
    proof (cases "j = i")
      case True
      with q t i p pool show ?thesis by (auto simp: pool_inv_def)
    next
      case False
      with j q pool show ?thesis using owner_inv_thread(1-4) [OF o, of j q] by auto
    qed
  next
    fix j j' q
    assume "j < length ?ths" "j' < length ?ths" "thread_ref (?ths ! j) = Some q" "thread_ref (?ths ! j') = Some q"
    then show "j = j'"
      using o own t i unfolding owner_inv_def by (auto simp: nth_list_update split: if_splits)
  next
    fix q assume "q \<in> a_refs a" "a_done ?a q \<noteq> None"
    then obtain j where "j < length ths" "thread_ref (ths ! j) = Some q"
      using o by (auto simp: owner_inv_def)
    with assms(4) show "\<exists>j < length ?ths. thread_ref (?ths ! j) = Some q"
      using i by (intro exI [of _ j]) (cases "j = i"; simp)
  qed
  ultimately show ?thesis
    using inv t by (simp add: conn_inv_def map_inv_def ids_inv_def count_inv_def sum_reserved_update [OF i])
qed

section \<open>Opening streams\<close>

lemma map_put_fresh: "k \<notin> fst ` set m \<Longrightarrow> map_put m k v = m @ [(k, v)]"
  unfolding map_put_def by (simp add: filter_id_conv image_iff) force

text \<open>A batch stream: its object has no \<open>done\<close> channel, so no thread waits for it.\<close>

lemma conn_inv_batch_stream:
  assumes inv: "conn_inv (Suc k) a ths" and pool: "a_batchPool a = xs @ r # ys"
    and sid: "sid \<notin> fst ` set (a_streams a)" "odd (unat sid)" "unat sid < unat (a_nextID a)"
  shows "conn_inv k (a\<lparr>a_batchPool := xs @ ys, a_id := (a_id a)(r := sid),
    a_streams := map_put (a_streams a) sid r\<rparr>) ths"
    (is "conn_inv k ?a ths")
proof -
  from inv have m: "map_inv a" and p: "pool_inv a" and o: "owner_inv a ths"
    by (simp_all add: conn_inv_def)
  have refs: "a_refs ?a = insert r (a_refs a)" by (auto simp: a_refs_def map_put_fresh [OF sid(1)])
  have r: "a_done a r = None" "r \<notin> a_refs a" "r < a_next a" using p pool by (auto simp: pool_inv_def)
  have "map_inv ?a"
    using m sid(1) r(2) by (force simp: map_inv_def map_put_fresh [OF sid(1)] a_refs_def)
  moreover have "pool_inv ?a" using p pool r unfolding pool_inv_def refs by auto
  moreover have "owner_inv ?a ths"
  proof (rule owner_invI, unfold refs)
    fix j q assume "j < length ths" "thread_ref (ths ! j) = Some q"
    from owner_inv_thread [OF o this]
    show "q < a_next ?a \<and> q \<notin> set (a_doPool ?a)
        \<and> a_done ?a q = Some (if issued (ths ! j) \<and> q \<notin> insert r (a_refs a) then 1 else 0)
        \<and> (q \<in> insert r (a_refs a) \<longrightarrow> issued (ths ! j))"
      using r by auto
  qed (use o r in \<open>auto simp: owner_inv_def\<close>)
  moreover have "ids_inv ?a" using inv sid by (auto simp: conn_inv_def ids_inv_def map_put_fresh [OF sid(1)])
  ultimately show ?thesis
    using inv by (simp add: conn_inv_def count_inv_def map_put_fresh [OF sid(1)])
qed

lemma unat_plus_of_nat: "unat x + m < 2 ^ 32 \<Longrightarrow> unat (x + of_nat m) = unat x + m" for x :: uint32
  by (simp add: unat_word_ariths unat_of_nat)

lemma ids_inv_bump:
  assumes "ids_inv a" and "unat (a_nextID a) + 2 * m \<le> 2 ^ 31 + 1"
  shows "ids_inv (a\<lparr>a_nextID := a_nextID a + of_nat (2 * m)\<rparr>)"
proof -
  have "unat (a_nextID a + of_nat (2 * m)) = unat (a_nextID a) + 2 * m"
    using assms(2) by (intro unat_plus_of_nat) simp
  with assms show ?thesis by (fastforce simp: ids_inv_def)
qed

lemma conn_inv_bump:
  assumes "conn_inv k a ths" and "unat (a_nextID a) + 2 * m \<le> 2 ^ 31 + 1"
  shows "conn_inv k (a\<lparr>a_nextID := a_nextID a + of_nat (2 * m)\<rparr>) ths"
  using assms ids_inv_bump [of a m]
  by (simp add: conn_inv_def map_inv_def pool_inv_def owner_inv_def count_inv_def a_refs_def)

lemma ids_inv_next_fresh: "ids_inv a \<Longrightarrow> a_nextID a \<notin> fst ` set (a_streams a)"
  by (auto simp: ids_inv_def)

lemma conn_inv_open:
  assumes inv: "conn_inv k a ths" and i: "i < length ths" and r: "thread_ref (ths ! i) = Some r"
    and "\<not> issued (ths ! i)" and t: "thread_ref t = Some r" "issued t" and n: "reserved (ths ! i) = Suc (reserved t)"
    and max: "unat (a_nextID a) + 2 \<le> 2 ^ 31 + 1"
  shows "conn_inv k (a\<lparr>a_id := (a_id a)(r := a_nextID a), a_nextID := a_nextID a + 2,
    a_streams := map_put (a_streams a) (a_nextID a) r\<rparr>) (ths[i := t])"
    (is "conn_inv k ?a ?ths")
proof -
  from inv have m: "map_inv a" and p: "pool_inv a" and o: "owner_inv a ths" and c: "count_inv k a ths"
    and ids: "ids_inv a"
    by (simp_all add: conn_inv_def)
  note own = owner_inv_thread [OF o i r] and fresh = ids_inv_next_fresh [OF ids]
  have notin: "r \<notin> a_refs a" using own(4) assms(4) by blast
  have refs: "a_refs ?a = insert r (a_refs a)" by (auto simp: a_refs_def map_put_fresh [OF fresh])
  have ref_same: "thread_ref (?ths ! j) = thread_ref (ths ! j)" if "j < length ths" for j
    using that t r by (cases "i = j") auto
  have "map_inv ?a" using m fresh notin by (force simp: map_inv_def map_put_fresh [OF fresh] a_refs_def)
  moreover have "pool_inv ?a"
  proof -
    have "r \<notin> set (a_batchPool a)" using p own(3) by (auto simp: pool_inv_def)
    then show ?thesis using p own(1,2) unfolding pool_inv_def refs by auto
  qed
  moreover have "owner_inv ?a ?ths"
  proof (rule owner_invI, unfold refs)
    fix j q assume j: "j < length ?ths" and q: "thread_ref (?ths ! j) = Some q"
    then have q': "thread_ref (ths ! j) = Some q" using ref_same by simp
    show "q < a_next ?a \<and> q \<notin> set (a_doPool ?a)
        \<and> a_done ?a q = Some (if issued (?ths ! j) \<and> q \<notin> insert r (a_refs a) then 1 else 0)
        \<and> (q \<in> insert r (a_refs a) \<longrightarrow> issued (?ths ! j))"
    proof (cases "j = i")
      case True
      with q t i own notin assms(4) show ?thesis by auto
    next
      case False
      with own(5) [of j] q' j have "q \<noteq> r" by auto
      with False j owner_inv_thread(1-4) [OF o _ q'] show ?thesis by auto
    qed
  next
    fix j j' q
    assume "j < length ?ths" "j' < length ?ths" "thread_ref (?ths ! j) = Some q" "thread_ref (?ths ! j') = Some q"
    then show "j = j'" using owner_inv_thread(5) [OF o] ref_same by (metis length_list_update)
  next
    fix q assume q: "q \<in> insert r (a_refs a)" and "a_done ?a q \<noteq> None"
    then have "q = r \<or> (\<exists>j < length ths. thread_ref (ths ! j) = Some q)"
      using o by (auto simp: owner_inv_def)
    then show "\<exists>j < length ?ths. thread_ref (?ths ! j) = Some q"
      using ref_same i r by (metis length_list_update)
  qed
  moreover have "ids_inv ?a"
    using ids_inv_bump [OF ids, of 1] max ids unat_plus_of_nat [of "a_nextID a" 2]
    by (auto simp: ids_inv_def map_put_fresh [OF fresh])
  moreover have "count_inv k ?a ?ths"
    using c n by (simp add: count_inv_def sum_reserved_update [OF i] map_put_fresh [OF fresh])
  ultimately show ?thesis by (simp add: conn_inv_def)
qed

section \<open>The pools\<close>

lemma pool_take_Some:
  assumes "pool_take pick pool = Some (r, rest)"
  obtains xs ys where "pool = xs @ r # ys" "rest = xs @ ys"
proof -
  from assms obtain i where "i < length pool" "r = pool ! i" "rest = take i pool @ drop (Suc i) pool"
    by (auto simp: pool_take_def split: option.splits if_splits)
  then show ?thesis using that [of "take i pool" "drop (Suc i) pool"] id_take_nth_drop by blast
qed

lemma conn_inv_Do_start:
  assumes inv: "conn_inv k (view cc) ths" and i: "i < length ths" and "ths ! i = DoStart req keep dstcap"
    and st: "Do_start pick req keep dstcap cc = Some (t, cc')"
  shows "conn_inv k (view cc') (ths[i := t])"
proof -
  let ?f = "\<lambda>s. s\<lparr>st_keep := keep, st_body := [], st_cap := dstcap\<rparr>"
  have f: "view (upd_stream r ?f c) = view c" for r and c :: "'a ClientConn" by (rule view_upd_stream) simp_all
  show ?thesis
  proof (cases "pool_take pick (cc_doPool cc)")
    case None
    let ?a = "(view cc)\<lparr>a_id := (a_id (view cc))(cc_next cc := 0),
      a_done := (a_done (view cc))(cc_next cc := Some 0), a_next := Suc (cc_next cc),
      a_doPool := cc_next cc # cc_doPool cc\<rparr>"
    have t: "t = DoSlot (cc_next cc) req" and v: "view cc' = ?a\<lparr>a_doPool := [] @ cc_doPool cc\<rparr>"
      using st None f
      by (auto simp: Do_start_def doStreamPool_Get_def alloc_def new_stream_def view_def fun_eq_iff)
    have "conn_inv k ?a ths" using conn_inv_new_do [OF inv] by simp
    then show ?thesis unfolding v by (rule conn_inv_get [OF _ i]) (simp_all add: t assms(3))
  next
    case (Some p)
    obtain r rest where p: "p = (r, rest)" by fastforce
    with Some obtain xs ys where pool: "cc_doPool cc = xs @ r # ys" "rest = xs @ ys"
      by (auto elim: pool_take_Some)
    have t: "t = DoSlot r req" and v: "view cc' = (view cc)\<lparr>a_doPool := xs @ ys\<rparr>"
      using st Some p pool f by (auto simp: Do_start_def doStreamPool_Get_def)
    show ?thesis unfolding v
      by (rule conn_inv_get [OF inv i]) (simp_all add: t pool assms(3))
  qed
qed

lemma conn_inv_WriteBatch_stream:
  assumes inv: "conn_inv (Suc k) (view cc) ths"
    and sid: "sid \<notin> fst ` set (cc_streams cc)" "odd (unat sid)" "unat sid < unat (cc_nextID cc)"
  shows "conn_inv k (view (WriteBatch_stream pick bodyLen keep sid cc)) ths"
proof (cases "pool_take pick (cc_batchPool cc)")
  case None
  let ?a = "(view cc)\<lparr>a_id := (a_id (view cc))(cc_next cc := 0),
    a_done := (a_done (view cc))(cc_next cc := None), a_next := Suc (cc_next cc),
    a_batchPool := cc_next cc # cc_batchPool cc\<rparr>"
  have v: "view (WriteBatch_stream pick bodyLen keep sid cc) =
      ?a\<lparr>a_batchPool := [] @ cc_batchPool cc, a_id := (a_id ?a)(cc_next cc := sid),
        a_streams := map_put (a_streams ?a) sid (cc_next cc)\<rparr>"
    using None by (auto simp: WriteBatch_stream_def batchStreamPool_Get_def alloc_def new_stream_def
        upd_stream_def view_def fun_eq_iff Let_def)
  have "conn_inv (Suc k) ?a ths" using conn_inv_new_batch [OF inv] by simp
  then show ?thesis unfolding v by (rule conn_inv_batch_stream) (simp_all add: sid)
next
  case (Some p)
  obtain r rest where p: "p = (r, rest)" by fastforce
  with Some obtain xs ys where pool: "cc_batchPool cc = xs @ r # ys" "rest = xs @ ys"
    by (auto elim: pool_take_Some)
  have v: "view (WriteBatch_stream pick bodyLen keep sid cc) =
      (view cc)\<lparr>a_batchPool := xs @ ys, a_id := (a_id (view cc))(r := sid),
        a_streams := map_put (a_streams (view cc)) sid r\<rparr>"
    using Some p pool
    by (auto simp: WriteBatch_stream_def batchStreamPool_Get_def upd_stream_def view_def fun_eq_iff Let_def)
  show ?thesis unfolding v by (rule conn_inv_batch_stream [OF inv]) (simp_all add: sid pool)
qed

section \<open>The steps of \<open>Do\<close>\<close>

lemma conn_inv_wmu [simp]: "conn_inv k (a\<lparr>a_wmu := w\<rparr>) ths = conn_inv k a ths"
  by (simp add: conn_inv_defs)

lemma view_putStream_do:
  "st_done (cc_heap cc r) \<noteq> None \<Longrightarrow>
   view (putStream r cc) = (view cc)\<lparr>a_id := (a_id (view cc))(r := 0), a_doPool := r # cc_doPool cc\<rparr>"
  by (auto simp: putStream_def upd_stream_def view_def Let_def fun_eq_iff)

lemma conn_inv_Do_slot:
  assumes inv: "conn_inv k (view cc) ths" and i: "i < length ths" and ti: "ths ! i = DoSlot r req"
    and st: "Do_slot r req cc = Some (t, cc')"
  shows "conn_inv k (view cc') (ths[i := t])"
proof (cases "cc_err cc")
  case None
  with st have t: "t = DoOpen r req" and v: "view cc' = (view cc)\<lparr>a_active := cc_active cc + 1\<rparr>"
    by (auto simp: Do_slot_def split: if_splits)
  show ?thesis unfolding v by (rule conn_inv_reserve [OF inv i]) (simp_all add: t ti)
next
  case (Some e)
  have o: "owner_inv (view cc) ths" using inv by (simp add: conn_inv_def)
  note own = owner_inv_thread [OF o i, of r, unfolded ti, simplified]
  have d: "st_done (cc_heap cc r) = Some 0" using own(3) by simp
  then have "view cc' = (view cc)\<lparr>a_id := (a_id (view cc))(r := 0),
      a_done := (a_done (view cc))(r := Some 0), a_doPool := r # a_doPool (view cc)\<rparr>"
    using st Some by (auto simp: Do_slot_def view_putStream_do fun_eq_iff)
  moreover have "thread_ref t = None" "reserved t = 0" using st Some by (auto simp: Do_slot_def)
  ultimately show ?thesis
    using conn_inv_return [OF inv i, of r t] own(4) ti by auto
qed

lemma view_end_with:
  "view (end_with e r cc) = (view cc)\<lparr>a_done := (a_done (view cc))(r := map_option Suc (st_done (cc_heap cc r)))\<rparr>"
  by (auto simp: end_with_def upd_stream_def view_def fun_eq_iff)

lemma takeWindowLocked_view:
  "takeWindowLocked r n cc = (m, cc') \<Longrightarrow> view cc' = view cc"
  unfolding takeWindowLocked_def Let_def by (auto intro!: view_upd_stream [THEN trans])

lemma maxStreamID_unat: "n \<le> maxStreamID \<longleftrightarrow> unat n < 2 ^ 31" for n :: uint32
  by (simp add: maxStreamID_def word_le_nat_alt less_Suc_eq_le [symmetric])

lemma writeStream_open_fresh:
  assumes "cc_err cc = None" and "\<not> cc_nextID cc > maxStreamID"
    and "writeStream_open r req cc = Some (t, cc')"
  shows "\<exists>buf n. t = DoFlush r req buf n"
    and "view cc' = (view cc)\<lparr>a_id := (a_id (view cc))(r := cc_nextID cc), a_nextID := cc_nextID cc + 2,
      a_streams := map_put (cc_streams cc) (cc_nextID cc) r, a_wmu := True\<rparr>"
proof -
  define cc0 where "cc0 = upd_stream r (\<lambda>s. s\<lparr>st_sendWindow := cc_peerInitialWindow cc\<rparr>)
    ((upd_stream r (\<lambda>s. s\<lparr>st_id := cc_nextID cc\<rparr>) cc)
      \<lparr>cc_nextID := cc_nextID cc + 2, cc_streams := map_put (cc_streams cc) (cc_nextID cc) r\<rparr>)"
  obtain n cc1 where w: "takeWindowLocked r (length (slice_bytes (req_Body req))) cc0 = (n, cc1)" by fastforce
  have "(\<exists>buf n. t = DoFlush r req buf n) \<and> cc' = cc1\<lparr>cc_wmu := True\<rparr>"
    using assms w by (auto simp: writeStream_open_def Let_def cc0_def [symmetric] split: if_splits)
  moreover have "view cc0 = (view cc)\<lparr>a_id := (a_id (view cc))(r := cc_nextID cc), a_nextID := cc_nextID cc + 2,
      a_streams := map_put (cc_streams cc) (cc_nextID cc) r\<rparr>"
    by (auto simp: cc0_def upd_stream_def view_def fun_eq_iff)
  ultimately show "\<exists>buf n. t = DoFlush r req buf n"
    and "view cc' = (view cc)\<lparr>a_id := (a_id (view cc))(r := cc_nextID cc), a_nextID := cc_nextID cc + 2,
      a_streams := map_put (cc_streams cc) (cc_nextID cc) r, a_wmu := True\<rparr>"
    using takeWindowLocked_view [OF w] by auto
qed

lemma conn_inv_writeStream_open:
  assumes inv: "conn_inv k (view cc) ths" and i: "i < length ths" and ti: "ths ! i = DoOpen r req"
    and st: "writeStream_open r req cc = Some (t, cc')"
  shows "conn_inv k (view cc') (ths[i := t])"
proof (cases "cc_err cc = None \<and> \<not> cc_nextID cc > maxStreamID")
  case True
  then obtain buf n where t: "t = DoFlush r req buf n"
    and v: "view cc' = (view cc)\<lparr>a_id := (a_id (view cc))(r := cc_nextID cc), a_nextID := cc_nextID cc + 2,
      a_streams := map_put (cc_streams cc) (cc_nextID cc) r, a_wmu := True\<rparr>"
    using writeStream_open_fresh [OF _ _ st] by blast
  have "odd (unat (cc_nextID cc))" using inv by (simp add: conn_inv_def ids_inv_def)
  moreover have "unat (cc_nextID cc) < 2 ^ 31" using True by (simp add: maxStreamID_unat not_less)
  ultimately show ?thesis
    using conn_inv_open [OF inv i, of r t] v by (simp add: t ti)
next
  case False
  with st have t: "t = DoWait r"
    and "view cc' = (view cc)\<lparr>a_active := a_active (view cc) - int 1,
      a_done := (a_done (view cc))(r := map_option Suc (a_done (view cc) r))\<rparr>"
    by (auto simp: writeStream_open_def conn_Close_def view_end_with failLocked_def Let_def
        split: if_splits option.splits)
  then show ?thesis using conn_inv_fail [OF inv i, of r t 1] by (simp add: ti)
qed

lemma after_write_cases:
  "after_write r body n e cc = (t, cc') \<Longrightarrow>
     (t = DoWait r \<or> t = DoBody r (drop n body)) \<and> (cc' = cc \<or> cc' = conn_Close cc)"
  by (auto simp: after_write_def split: option.splits if_splits)

lemma view_conn_Close [simp]: "view (conn_Close cc) = view cc"
  by (simp add: conn_Close_def)

lemma conn_inv_writeStream_flush:
  assumes inv: "conn_inv k (view cc) ths" and i: "i < length ths" and ti: "ths ! i = DoFlush r req buf n"
    and st: "writeStream_flush w r req buf n cc = Some (t, cc')"
  shows "conn_inv k (view cc') (ths[i := t])"
proof -
  from st after_write_cases have "(t = DoWait r \<or> t = DoBody r (drop n (slice_bytes (req_Body req))))
      \<and> view cc' = (view cc)\<lparr>a_wmu := False\<rparr>"
    by (fastforce simp: writeStream_flush_def conn_Write_def)
  then show ?thesis using conn_inv_thread [OF inv i, of t] by (auto simp: ti)
qed

lemma conn_inv_writeStream_body:
  assumes inv: "conn_inv k (view cc) ths" and i: "i < length ths" and ti: "ths ! i = DoBody r body"
    and st: "writeStream_body r body cc = Some (t, cc')"
  shows "conn_inv k (view cc') (ths[i := t])"
proof -
  from st have "(t = DoWait r \<or> (\<exists>n. t = DoBodyFlush r body n)) \<and> view cc' = view cc"
    by (auto simp: writeStream_body_def Let_def split: if_splits prod.splits dest: takeWindowLocked_view)
  then show ?thesis using conn_inv_thread [OF inv i, of t] by (auto simp: ti)
qed

lemma conn_inv_writeStream_bodyFlush:
  assumes inv: "conn_inv k (view cc) ths" and i: "i < length ths" and ti: "ths ! i = DoBodyFlush r body n"
    and st: "writeStream_bodyFlush w r body n cc = Some (t, cc')"
  shows "conn_inv k (view cc') (ths[i := t])"
proof -
  from st after_write_cases have "(t = DoWait r \<or> t = DoBody r (drop n body)) \<and> view cc' = view cc"
    by (fastforce simp: writeStream_bodyFlush_def conn_Write_def Let_def split: if_splits)
  then show ?thesis using conn_inv_thread [OF inv i, of t] by (auto simp: ti)
qed

lemma conn_inv_Do_wait:
  assumes inv: "conn_inv k (view cc) ths" and i: "i < length ths" and ti: "ths ! i = DoWait r"
    and st: "Do_wait r cc = Some (t, cc')"
  shows "conn_inv k (view cc') (ths[i := t])"
proof -
  have o: "owner_inv (view cc) ths" using inv by (simp add: conn_inv_def)
  note own = owner_inv_thread [OF o i, of r, unfolded ti, simplified]
  from st have "st_done (cc_heap cc r) \<noteq> Some 0" by (auto simp: Do_wait_def)
  with own(3) have r: "r \<notin> a_refs (view cc)" and d: "st_done (cc_heap cc r) = Some 1"
    by (simp_all split: if_splits)
  have "view cc' = (view cc)\<lparr>a_id := (a_id (view cc))(r := 0),
      a_done := (a_done (view cc))(r := Some 0), a_doPool := r # a_doPool (view cc)\<rparr>"
    using st d by (auto simp: Do_wait_def Let_def view_putStream_do)
      (auto simp: upd_stream_def view_def fun_eq_iff)
  moreover have "thread_ref t = None" "reserved t = 0" using st d by (auto simp: Do_wait_def)
  ultimately show ?thesis using conn_inv_return [OF inv i, of r t] r ti by simp
qed

section \<open>The steps of \<open>WriteBatch\<close>\<close>

lemma conn_inv_WriteBatch_reserve:
  assumes inv: "conn_inv k (view cc) ths" and i: "i < length ths" and ti: "ths ! i = BatchStart req n keep"
    and "1 \<le> n" and st: "WriteBatch_reserve req n keep cc = Some (t, cc')"
  shows "conn_inv k (view cc') (ths[i := t])"
proof (cases "t = BatchOpen req n keep")
  case True
  with st have v: "view cc' = (view cc)\<lparr>a_active := cc_active cc + n\<rparr>"
    by (auto simp: WriteBatch_reserve_def Let_def split: option.splits if_splits)
  show ?thesis unfolding v by (rule conn_inv_reserve [OF inv i]) (use assms(4) in \<open>simp_all add: True ti\<close>)
next
  case False
  with st have "(\<exists>e. t = BatchReturn 0 e) \<and> cc' = cc"
    by (auto simp: WriteBatch_reserve_def Let_def split: option.splits if_splits)
  then show ?thesis using conn_inv_thread [OF inv i, of t] by (auto simp: ti)
qed

lemma WriteBatch_stream_fields:
  "fst ` set (cc_streams (WriteBatch_stream pick bl keep sid cc)) = insert sid (fst ` set (cc_streams cc))"
  "cc_nextID (WriteBatch_stream pick bl keep sid cc) = cc_nextID cc"
  "cc_wmu (WriteBatch_stream pick bl keep sid cc) = cc_wmu cc"
  "cc_err (WriteBatch_stream pick bl keep sid cc) = cc_err cc"
  "cc_hdrStream (WriteBatch_stream pick bl keep sid cc) = cc_hdrStream cc"
  "cc_readerDone (WriteBatch_stream pick bl keep sid cc) = cc_readerDone cc"
  "cc_wire (WriteBatch_stream pick bl keep sid cc) = cc_wire cc"
  "cc_connSendWindow (WriteBatch_stream pick bl keep sid cc) = cc_connSendWindow cc"
  "cc_peerMaxStreams (WriteBatch_stream pick bl keep sid cc) = cc_peerMaxStreams cc"
  "cc_recvConsumed (WriteBatch_stream pick bl keep sid cc) = cc_recvConsumed cc"
  "cc_active (WriteBatch_stream pick bl keep sid cc) = cc_active cc"
  by (auto simp: WriteBatch_stream_def batchStreamPool_Get_def alloc_def map_put_def Let_def
      split: prod.splits option.splits)

lemma conn_inv_batch_fold:
  "conn_inv (length sids + k) (view cc) ths \<Longrightarrow> distinct sids \<Longrightarrow>
   (\<And>sid. sid \<in> set sids \<Longrightarrow>
      sid \<notin> fst ` set (cc_streams cc) \<and> odd (unat sid) \<and> unat sid < unat (cc_nextID cc)) \<Longrightarrow>
   conn_inv k (view (foldl (\<lambda>cc sid. WriteBatch_stream pick bl keep sid cc) cc sids)) ths"
proof (induction sids arbitrary: cc)
  case Nil
  then show ?case by simp
next
  case (Cons sid sids)
  let ?cc = "WriteBatch_stream pick bl keep sid cc"
  have "conn_inv (length sids + k) (view ?cc) ths"
    using Cons.prems by (intro conn_inv_WriteBatch_stream) simp_all
  moreover have "s \<notin> fst ` set (cc_streams ?cc) \<and> odd (unat s) \<and> unat s < unat (cc_nextID ?cc)"
    if "s \<in> set sids" for s
    using that Cons.prems(2) Cons.prems(3) [of s] unfolding WriteBatch_stream_fields by auto
  ultimately show ?case using Cons.IH [of ?cc] Cons.prems(2) by simp
qed

lemma batch_ids_bounds:
  assumes "odd (unat first)" and "unat first + 2 * n \<le> 2 ^ 31 + 1"
  shows "distinct (batch_ids first n)"
    and "\<And>sid. sid \<in> set (batch_ids first n) \<Longrightarrow>
      odd (unat sid) \<and> unat first \<le> unat sid \<and> unat sid < unat first + 2 * n"
    and "map unat (batch_ids first n) = map (\<lambda>i. unat first + 2 * i) [0..<n]"
proof -
  have *: "unat (first + of_nat (2 * i)) = unat first + 2 * i" if "i < n" for i
    using assms(2) that by (intro unat_plus_of_nat) simp
  then show m: "map unat (batch_ids first n) = map (\<lambda>i. unat first + 2 * i) [0..<n]"
    unfolding batch_ids_def by (simp only: map_map comp_def) (rule map_cong, auto)
  have "distinct (map unat (batch_ids first n))" unfolding m by (simp add: distinct_map inj_on_def)
  then show "distinct (batch_ids first n)" by (simp add: distinct_map)
  show "odd (unat sid) \<and> unat first \<le> unat sid \<and> unat sid < unat first + 2 * n"
    if "sid \<in> set (batch_ids first n)" for sid
    using that * assms(1) by (auto simp: batch_ids_def simp del: of_nat_mult)
qed

lemma batch_ids_max:
  assumes "odd (unat first)" and "unat first + 2 * n \<le> 2 ^ 31 + 1" and "sid \<in> set (batch_ids first n)"
  shows "sid \<le> maxStreamID"
  using batch_ids_bounds(2) [OF assms] assms(1,2) by (auto simp: maxStreamID_unat elim!: oddE) presburger

text \<open>The check for exhausted identifiers does not wrap for a batch the server's limit admits.\<close>

lemma batch_fits:
  assumes "unat next \<le> 2 ^ 31 + 1" and "1 \<le> n" and "n \<le> 2 ^ 20"
  shows "next + word_of_int (2 * (n - 1)) > maxStreamID \<longleftrightarrow> unat next + 2 * nat n > 2 ^ 31 + 1"
    and "(word_of_int (2 * n) :: uint32) = of_nat (2 * nat n)"
proof -
  have "(word_of_int (2 * (n - 1)) :: uint32) = of_nat (2 * (nat n - 1))"
    using assms by (simp add: of_nat_diff word_of_int_minus)
  then have "unat (next + word_of_int (2 * (n - 1))) = unat next + 2 * (nat n - 1)"
    using assms by (simp only: ) (rule unat_plus_of_nat, simp)
  then show "next + word_of_int (2 * (n - 1)) > maxStreamID \<longleftrightarrow> unat next + 2 * nat n > 2 ^ 31 + 1"
    using assms by (auto simp: maxStreamID_unat not_le [symmetric])
  show "(word_of_int (2 * n) :: uint32) = of_nat (2 * nat n)" using assms by simp
qed

lemma WriteBatch_open_cases:
  assumes "WriteBatch_open pick req n keep cc = Some (t, cc')"
    and "unat (cc_nextID cc) \<le> 2 ^ 31 + 1" and "1 \<le> n" and "n \<le> 2 ^ 20"
  shows "(\<exists>e. t = BatchReturn 0 (Some e) \<and> cc_err cc' = Some e
      \<and> cc' = (failLocked e cc)\<lparr>cc_active := cc_active cc - n\<rparr>)
    \<or> (t = BatchFlush req n (Repeat req [] (cc_nextID cc) (nat n)) \<and> cc_err cc = None
      \<and> unat (cc_nextID cc) + 2 * nat n \<le> 2 ^ 31 + 1
      \<and> cc' = (foldl (\<lambda>cc sid. WriteBatch_stream pick (int (slice_len (req_Body req))) keep sid cc)
          (cc\<lparr>cc_nextID := cc_nextID cc + of_nat (2 * nat n)\<rparr>) (batch_ids (cc_nextID cc) (nat n)))
          \<lparr>cc_wmu := True\<rparr>)"
  using assms(1) batch_fits [OF assms(2-4)]
  by (auto simp: WriteBatch_open_def Let_def batch_ids_def foldl_map failLocked_def not_less
      simp del: of_nat_mult split: if_splits)

lemma conn_inv_WriteBatch_open:
  assumes inv: "conn_inv 0 (view cc) ths" and i: "i < length ths" and ti: "ths ! i = BatchOpen req n keep"
    and n: "1 \<le> n" "n \<le> 2 ^ 20" and st: "WriteBatch_open pick req n keep cc = Some (t, cc')"
  shows "conn_inv 0 (view cc') (ths[i := t])"
proof -
  from inv have ids: "ids_inv (view cc)" by (simp add: conn_inv_def)
  then have "unat (cc_nextID cc) \<le> 2 ^ 31 + 1" by (simp add: ids_inv_def)
  from WriteBatch_open_cases [OF st this n] show ?thesis
  proof (elim disjE exE conjE)
    fix e assume t: "t = BatchReturn 0 (Some e)" and "cc' = (failLocked e cc)\<lparr>cc_active := cc_active cc - n\<rparr>"
    then have v: "view cc' = (view cc)\<lparr>a_active := cc_active cc - n\<rparr>" by simp
    show ?thesis unfolding v by (rule conn_inv_reserve [OF inv i]) (use n in \<open>simp_all add: t ti\<close>)
  next
    let ?sids = "batch_ids (cc_nextID cc) (nat n)"
    let ?cc = "cc\<lparr>cc_nextID := cc_nextID cc + of_nat (2 * nat n)\<rparr>"
    assume t: "t = BatchFlush req n (Repeat req [] (cc_nextID cc) (nat n))"
      and fits: "unat (cc_nextID cc) + 2 * nat n \<le> 2 ^ 31 + 1"
      and cc': "cc' = (foldl (\<lambda>cc sid. WriteBatch_stream pick (int (slice_len (req_Body req))) keep sid cc)
        ?cc ?sids)\<lparr>cc_wmu := True\<rparr>"
    have same: "(view cc)\<lparr>a_active := cc_active cc\<rparr> = view cc" by (simp add: view_def)
    have "conn_inv (nat n) ((view cc)\<lparr>a_active := cc_active cc\<rparr>) (ths[i := t])"
      by (rule conn_inv_reserve [OF inv i]) (use n in \<open>simp_all add: t ti\<close>)
    then have "conn_inv (nat n) (view cc) (ths[i := t])" unfolding same .
    from conn_inv_bump [OF this, of "nat n"] fits
    have inv': "conn_inv (length ?sids + 0) (view ?cc) (ths[i := t])" by (simp add: batch_ids_def)
    have odd: "odd (unat (cc_nextID cc))" using ids by (simp add: ids_inv_def)
    have next': "unat (cc_nextID ?cc) = unat (cc_nextID cc) + 2 * nat n"
      using fits unat_plus_of_nat [of "cc_nextID cc" "2 * nat n"] by simp
    have "sid \<notin> fst ` set (cc_streams ?cc) \<and> odd (unat sid) \<and> unat sid < unat (cc_nextID ?cc)"
      if "sid \<in> set ?sids" for sid
      using batch_ids_bounds(2) [OF odd fits that] ids next' by (fastforce simp: ids_inv_def)
    with inv' have "conn_inv 0 (view (foldl (\<lambda>cc sid. WriteBatch_stream pick
        (int (slice_len (req_Body req))) keep sid cc) ?cc ?sids)) (ths[i := t])"
      by (intro conn_inv_batch_fold batch_ids_bounds(1) [OF odd fits])
    then show ?thesis by (simp add: cc')
  qed
qed

lemma conn_inv_WriteBatch_flush:
  assumes inv: "conn_inv k (view cc) ths" and i: "i < length ths" and ti: "ths ! i = BatchFlush req n buf"
    and st: "WriteBatch_flush w req n buf cc = Some (t, cc')"
  shows "conn_inv k (view cc') (ths[i := t])"
proof -
  from st have "(\<exists>m e. t = BatchReturn m e) \<and> view cc' = (view cc)\<lparr>a_wmu := False\<rparr>"
    by (auto simp: WriteBatch_flush_def conn_Write_def Let_def split: option.splits)
  then show ?thesis using conn_inv_thread [OF inv i, of t] by (auto simp: ti)
qed

section \<open>Every step\<close>

fun batch_ok :: "thread \<Rightarrow> bool" where
  "batch_ok (BatchStart req n keep) \<longleftrightarrow> 1 \<le> n"
| "batch_ok (BatchOpen req n keep) \<longleftrightarrow> 1 \<le> n \<and> n \<le> 2 ^ 20"
| "batch_ok t \<longleftrightarrow> True"

lemma conn_inv_thread_step:
  assumes "conn_inv 0 (view cc) ths" and "i < length ths" and "batch_ok (ths ! i)"
    and "thread_step pick w (ths ! i) cc = Some (t, cc')"
  shows "conn_inv 0 (view cc') (ths[i := t])"
  using assms(3,4)
  by (cases "ths ! i")
    (auto intro: conn_inv_Do_start conn_inv_Do_slot conn_inv_writeStream_open conn_inv_writeStream_flush
      conn_inv_writeStream_body conn_inv_writeStream_bodyFlush conn_inv_Do_wait
      conn_inv_WriteBatch_reserve conn_inv_WriteBatch_open conn_inv_WriteBatch_flush
      assms(1,2))

end
