(* ===== verification/ConnExec.thy ===== *)
theory ConnExec
  imports ConnSteps
begin

text \<open>
  The step relation of theory \<open>ConnSteps\<close> as a function on events, so that a schedule can be
  evaluated: sound and complete for the relation. Concrete schedules here carry the witnesses of
  the theorems on reachable states.
\<close>

datatype event =
    Call thread
  | Run nat "sref list \<Rightarrow> nat option" "err option" \<comment> \<open>thread, pool choice, result of its write\<close>
  | Frame_In rframe "err option" \<comment> \<open>frame read, result of the control write it causes\<close>
  | Read_Error err
  | Close_Conn

definition exec_event :: "'d hpack_decoder \<Rightarrow> event \<Rightarrow> 'd system \<Rightarrow> 'd system option" where
  "exec_event D ev s =
     (case ev of
        Call t \<Rightarrow> if is_call t then Some (s\<lparr>sys_threads := sys_threads s @ [t]\<rparr>) else None
      | Run i pick w \<Rightarrow>
          if i < length (sys_threads s)
          then map_option (\<lambda>(t, cc). s\<lparr>sys_cc := cc, sys_threads := (sys_threads s)[i := t]\<rparr>)
                 (thread_step pick w (sys_threads s ! i) (sys_cc s))
          else None
      | Frame_In f w \<Rightarrow>
          if cc_readerDone (sys_cc s) \<or> \<not> framer_ok (sys_expect s) f then None
          else case read_frame D w f (sys_cc s) of (e, cc) \<Rightarrow>
            if cc_wmu (sys_cc s) \<and> cc_wire cc \<noteq> cc_wire (sys_cc s) then None
            else case e of
              None \<Rightarrow> Some (s\<lparr>sys_cc := cc, sys_expect := framer_next f, sys_read := sys_read s @ [f]\<rparr>)
            | Some x \<Rightarrow> Some (s\<lparr>sys_cc := readLoop_exit (Some x) cc\<rparr>)
      | Read_Error e \<Rightarrow>
          if cc_readerDone (sys_cc s) then None
          else Some (s\<lparr>sys_cc := readLoop_exit (Some e) (sys_cc s)\<rparr>)
      | Close_Conn \<Rightarrow> Some (s\<lparr>sys_cc := conn_Close (sys_cc s)\<rparr>))"

lemma exec_event_step: "exec_event D ev s = Some t \<Longrightarrow> step D s t"
  by (cases ev)
    (auto simp: exec_event_def split: if_splits option.splits prod.splits
      intro: step.call step.run step.frame step.frame_error step.read_error step.close)

lemma step_exec_event: "step D s t \<Longrightarrow> \<exists>ev. exec_event D ev s = Some t"
proof (induction rule: step.induct)
  case (call t s)
  then show ?case by (intro exI [of _ "Call t"]) (simp add: exec_event_def)
next
  case (run i s pick w t cc)
  then show ?case by (intro exI [of _ "Run i pick w"]) (simp add: exec_event_def)
next
  case (frame s f w cc)
  then show ?case by (intro exI [of _ "Frame_In f w"]) (simp add: exec_event_def)
next
  case (frame_error s f w e cc)
  then show ?case by (intro exI [of _ "Frame_In f w"]) (simp add: exec_event_def)
next
  case (read_error s e)
  then show ?case by (intro exI [of _ "Read_Error e"]) (simp add: exec_event_def)
next
  case (close s)
  then show ?case by (intro exI [of _ Close_Conn]) (simp add: exec_event_def)
qed

lemma step_iff_exec_event: "step D s t \<longleftrightarrow> (\<exists>ev. exec_event D ev s = Some t)"
  using exec_event_step step_exec_event by blast

fun exec_events :: "'d hpack_decoder \<Rightarrow> event list \<Rightarrow> 'd system \<Rightarrow> 'd system option" where
  "exec_events D [] s = Some s"
| "exec_events D (ev # evs) s = (case exec_event D ev s of None \<Rightarrow> None | Some t \<Rightarrow> exec_events D evs t)"

lemma exec_events_reachable: "reachable D s \<Longrightarrow> exec_events D evs s = Some t \<Longrightarrow> reachable D t"
  by (induction evs arbitrary: s)
    (auto split: option.splits dest!: exec_event_step intro: reach_move)

section \<open>A concrete connection\<close>

text \<open>A decoder that takes every fragment for a response of status 200.\<close>

definition ok_decoder :: "unit hpack_decoder" where
  "ok_decoder = \<lparr>dec_Write = (\<lambda>_ _. ((), [('':status'', ''200'')], None)), dec_Close = (\<lambda>_. ((), None))\<rparr>"

definition demo_start :: "unit system" where
  "demo_start =
     \<lparr>sys_cc = (case NewClientConn () True None of Inr cc \<Rightarrow> cc), sys_threads = [], sys_expect = None,
      sys_read = []\<rparr>"

definition demo_request :: Request where
  "demo_request = NewRequest ''POST'' ''h'' ''/'' (Some [1])"

lemma demo_start_reachable: "reachable D demo_start"
proof -
  have "NewClientConn () True None = Inr (sys_cc demo_start)"
    by (simp add: demo_start_def NewClientConn_def conn_Write_def)
  then have "opened demo_start" using opened.start [of "()" True "sys_cc demo_start"] by (simp add: demo_start_def)
  then show ?thesis by (rule reach_start)
qed

lemma demo_reachable: "exec_events D evs demo_start = Some t \<Longrightarrow> reachable D t"
  by (rule exec_events_reachable [OF demo_start_reachable])

definition fresh_pick :: "sref list \<Rightarrow> nat option" where [simp]: "fresh_pick pool = None"

definition demo_schedule :: "event list" where
  "demo_schedule = [Call (DoStart demo_request True 0), Run 0 fresh_pick None, Run 0 fresh_pick None,
     Run 0 fresh_pick None, Run 0 fresh_pick None]"

definition demo_state :: "nat \<Rightarrow> unit system" where
  "demo_state n = (case exec_events ok_decoder (take n demo_schedule) demo_start of Some s \<Rightarrow> s)"

lemma demo_request_fields [simp]: "req_Body demo_request = Some [1]" "call_request demo_request"
proof -
  show "req_Body demo_request = Some [1]"
    by (simp add: demo_request_def NewRequest_def Let_def split: prod.splits)
  have "length (req_Block demo_request) < 2 ^ 24"
    using length_EncodeHeaderBlock [of "Some [1]" "''POST''" "''h''" "''/''"]
    by (simp add: demo_request_def NewRequest_def slice_len_def Let_def split: prod.splits)
  then show "call_request demo_request"
    by (auto simp: call_request_def made_request_def demo_request_def)
qed

lemmas demo_eval = demo_state_def demo_schedule_def exec_event_def demo_start_def NewClientConn_def
  conn_Write_def Do_start_def doStreamPool_Get_def pool_take_def alloc_def new_stream_def upd_stream_def
  Do_slot_def writeStream_open_def maxStreamID_def map_put_def map_get_def slice_bytes_def takeWindowLocked_def
  writeStream_flush_def after_write_def Do_wait_def Let_def

text \<open>The call waits for its slot; it has one; it waits for its response on stream 1.\<close>

lemma demo_state_2:
  "exec_events ok_decoder (take 2 demo_schedule) demo_start = Some (demo_state 2)"
  "sys_threads (demo_state 2) = [DoSlot 0 demo_request]" "cc_err (sys_cc (demo_state 2)) = None"
  "cc_active (sys_cc (demo_state 2)) = 0" "cc_peerMaxStreams (sys_cc (demo_state 2)) = 100"
  "cc_streams (sys_cc (demo_state 2)) = []"
  by (simp_all add: demo_eval)

lemma demo_state_3:
  "exec_events ok_decoder (take 3 demo_schedule) demo_start = Some (demo_state 3)"
  "sys_threads (demo_state 3) = [DoOpen 0 demo_request]" "cc_active (sys_cc (demo_state 3)) = 1"
  "cc_streams (sys_cc (demo_state 3)) = []"
  by (simp_all add: demo_eval)

lemma demo_state_5:
  "exec_events ok_decoder (take 5 demo_schedule) demo_start = Some (demo_state 5)"
  "sys_threads (demo_state 5) = [DoWait 0]" "cc_active (sys_cc (demo_state 5)) = 1"
  "cc_wire (sys_cc (demo_state 5)) = [clientPreface, AppendTo demo_request [] 1]"
  "cc_streams (sys_cc (demo_state 5)) = [(1, 0)]" "st_done (cc_heap (sys_cc (demo_state 5)) 0) = Some 0"
  by (simp_all add: demo_eval)

text \<open>The connection fails under the waiting call.\<close>

definition demo_dead :: "unit system" where
  "demo_dead = (case exec_event ok_decoder (Read_Error (IOErr ''EOF'')) (demo_state 5) of Some s \<Rightarrow> s)"

lemma demo_reach: "reachable ok_decoder (demo_state 2)" "reachable ok_decoder (demo_state 3)"
  "reachable ok_decoder (demo_state 5)"
  by (rule demo_reachable demo_state_2(1) demo_state_3(1) demo_state_5(1))+

lemma demo_dead_facts:
  "exec_event ok_decoder (Read_Error (IOErr ''EOF'')) (demo_state 5) = Some demo_dead"
  "sys_threads demo_dead = [DoWait 0]" "cc_readerDone (sys_cc demo_dead)"
  by (simp_all add: demo_dead_def demo_eval readLoop_exit_def conn_Close_def failLocked_def fail_streams_def
      finish_def)

lemma demo_dead_reach: "reachable ok_decoder demo_dead"
  using demo_reach(3) exec_event_step [OF demo_dead_facts(1)] by (rule reach_move)

end
