(* ===== verification/ConnSafety.thy ===== *)
theory ConnSafety
  imports ConnInv ConnExec
begin

text \<open>
  What holds in every reachable state of a connection: the invariant of theory \<open>ConnSteps\<close>
  together with the write lock, the limits, the reader's header block and what its exit leaves.
\<close>

section \<open>The fields an operation of the reader leaves alone\<close>

lemma upd_stream_rest [simp]:
  "cc_settingsSeen (upd_stream r f cc) = cc_settingsSeen cc" "cc_closed (upd_stream r f cc) = cc_closed cc"
  "cc_dec (upd_stream r f cc) = cc_dec cc" "cc_hasOnResult (upd_stream r f cc) = cc_hasOnResult cc"
  "cc_results (upd_stream r f cc) = cc_results cc"
  by (simp_all add: upd_stream_def)

lemma putStream_rest [simp]:
  "cc_hdrStream (putStream r cc) = cc_hdrStream cc" "cc_hdrStatus (putStream r cc) = cc_hdrStatus cc"
  "cc_hdrEnd (putStream r cc) = cc_hdrEnd cc" "cc_err (putStream r cc) = cc_err cc"
  "cc_readerDone (putStream r cc) = cc_readerDone cc" "cc_peerMaxStreams (putStream r cc) = cc_peerMaxStreams cc"
  "cc_peerInitialWindow (putStream r cc) = cc_peerInitialWindow cc" "cc_connSendWindow (putStream r cc) = cc_connSendWindow cc"
  "cc_wire (putStream r cc) = cc_wire cc" "cc_recvConsumed (putStream r cc) = cc_recvConsumed cc"
  "cc_settingsSeen (putStream r cc) = cc_settingsSeen cc" "cc_closed (putStream r cc) = cc_closed cc"
  "cc_wmu (putStream r cc) = cc_wmu cc" "cc_dec (putStream r cc) = cc_dec cc"
  "cc_hasOnResult (putStream r cc) = cc_hasOnResult cc" "cc_nextID (putStream r cc) = cc_nextID cc"
  "cc_results (putStream r cc) = cc_results cc" "cc_streams (putStream r cc) = cc_streams cc"
  "cc_active (putStream r cc) = cc_active cc" "cc_next (putStream r cc) = cc_next cc"
  by (simp_all add: putStream_def Let_def)

lemma finish_rest [simp]:
  "cc_hdrStream (finish r cc) = cc_hdrStream cc" "cc_hdrStatus (finish r cc) = cc_hdrStatus cc"
  "cc_hdrEnd (finish r cc) = cc_hdrEnd cc" "cc_err (finish r cc) = cc_err cc"
  "cc_readerDone (finish r cc) = cc_readerDone cc" "cc_peerMaxStreams (finish r cc) = cc_peerMaxStreams cc"
  "cc_peerInitialWindow (finish r cc) = cc_peerInitialWindow cc" "cc_connSendWindow (finish r cc) = cc_connSendWindow cc"
  "cc_wire (finish r cc) = cc_wire cc" "cc_recvConsumed (finish r cc) = cc_recvConsumed cc"
  "cc_settingsSeen (finish r cc) = cc_settingsSeen cc" "cc_closed (finish r cc) = cc_closed cc"
  "cc_wmu (finish r cc) = cc_wmu cc" "cc_dec (finish r cc) = cc_dec cc"
  "cc_hasOnResult (finish r cc) = cc_hasOnResult cc" "cc_nextID (finish r cc) = cc_nextID cc"
  "cc_streams (finish r cc) = cc_streams cc" "cc_active (finish r cc) = cc_active cc"
  by (simp_all add: finish_def Let_def split: option.splits)

lemma fail_streams_rest_step: "fail_streams e (r # rs) cc = fail_streams e rs (finish r (upd_stream r (set_err e) cc))"
  by (simp add: fail_streams_def)

lemma fail_streams_rest [simp]:
  "cc_hdrStream (fail_streams e rs cc) = cc_hdrStream cc" "cc_hdrStatus (fail_streams e rs cc) = cc_hdrStatus cc"
  "cc_hdrEnd (fail_streams e rs cc) = cc_hdrEnd cc" "cc_err (fail_streams e rs cc) = cc_err cc"
  "cc_readerDone (fail_streams e rs cc) = cc_readerDone cc" "cc_peerMaxStreams (fail_streams e rs cc) = cc_peerMaxStreams cc"
  "cc_peerInitialWindow (fail_streams e rs cc) = cc_peerInitialWindow cc" "cc_connSendWindow (fail_streams e rs cc) = cc_connSendWindow cc"
  "cc_wire (fail_streams e rs cc) = cc_wire cc" "cc_recvConsumed (fail_streams e rs cc) = cc_recvConsumed cc"
  "cc_settingsSeen (fail_streams e rs cc) = cc_settingsSeen cc" "cc_closed (fail_streams e rs cc) = cc_closed cc"
  "cc_wmu (fail_streams e rs cc) = cc_wmu cc" "cc_dec (fail_streams e rs cc) = cc_dec cc"
  "cc_hasOnResult (fail_streams e rs cc) = cc_hasOnResult cc" "cc_nextID (fail_streams e rs cc) = cc_nextID cc"
  "cc_streams (fail_streams e rs cc) = cc_streams cc" "cc_active (fail_streams e rs cc) = cc_active cc"
  by (induction rs arbitrary: cc) (simp_all add: fail_streams_rest_step, simp_all add: fail_streams_def)

lemma take_end_rest [simp]:
  "cc_hdrStream (end_stream r cc) = cc_hdrStream cc" "cc_hdrStatus (end_stream r cc) = cc_hdrStatus cc"
  "cc_hdrEnd (end_stream r cc) = cc_hdrEnd cc" "cc_err (end_stream r cc) = cc_err cc"
  "cc_readerDone (end_stream r cc) = cc_readerDone cc" "cc_peerMaxStreams (end_stream r cc) = cc_peerMaxStreams cc"
  "cc_peerInitialWindow (end_stream r cc) = cc_peerInitialWindow cc" "cc_connSendWindow (end_stream r cc) = cc_connSendWindow cc"
  "cc_wire (end_stream r cc) = cc_wire cc" "cc_recvConsumed (end_stream r cc) = cc_recvConsumed cc"
  "cc_settingsSeen (end_stream r cc) = cc_settingsSeen cc" "cc_closed (end_stream r cc) = cc_closed cc"
  "cc_wmu (end_stream r cc) = cc_wmu cc" "cc_dec (end_stream r cc) = cc_dec cc"
  "cc_hasOnResult (end_stream r cc) = cc_hasOnResult cc" "cc_nextID (end_stream r cc) = cc_nextID cc"
  by (simp_all add: end_stream_def take_stream_def split: option.splits)

lemma onRSTStream_rest [simp]:
  "cc_hdrStream (onRSTStream sid code cc) = cc_hdrStream cc" "cc_hdrStatus (onRSTStream sid code cc) = cc_hdrStatus cc"
  "cc_hdrEnd (onRSTStream sid code cc) = cc_hdrEnd cc" "cc_err (onRSTStream sid code cc) = cc_err cc"
  "cc_readerDone (onRSTStream sid code cc) = cc_readerDone cc" "cc_peerMaxStreams (onRSTStream sid code cc) = cc_peerMaxStreams cc"
  "cc_peerInitialWindow (onRSTStream sid code cc) = cc_peerInitialWindow cc" "cc_connSendWindow (onRSTStream sid code cc) = cc_connSendWindow cc"
  "cc_wire (onRSTStream sid code cc) = cc_wire cc" "cc_recvConsumed (onRSTStream sid code cc) = cc_recvConsumed cc"
  "cc_settingsSeen (onRSTStream sid code cc) = cc_settingsSeen cc" "cc_closed (onRSTStream sid code cc) = cc_closed cc"
  "cc_wmu (onRSTStream sid code cc) = cc_wmu cc" "cc_dec (onRSTStream sid code cc) = cc_dec cc"
  "cc_hasOnResult (onRSTStream sid code cc) = cc_hasOnResult cc" "cc_nextID (onRSTStream sid code cc) = cc_nextID cc"
  by (simp_all add: onRSTStream_def take_stream_def split: option.splits)

lemma failLocked_rest [simp]:
  "cc_hdrStream (failLocked e cc) = cc_hdrStream cc" "cc_hdrStatus (failLocked e cc) = cc_hdrStatus cc"
  "cc_hdrEnd (failLocked e cc) = cc_hdrEnd cc" "cc_readerDone (failLocked e cc) = cc_readerDone cc"
  "cc_peerMaxStreams (failLocked e cc) = cc_peerMaxStreams cc" "cc_peerInitialWindow (failLocked e cc) = cc_peerInitialWindow cc"
  "cc_connSendWindow (failLocked e cc) = cc_connSendWindow cc" "cc_wire (failLocked e cc) = cc_wire cc"
  "cc_recvConsumed (failLocked e cc) = cc_recvConsumed cc" "cc_settingsSeen (failLocked e cc) = cc_settingsSeen cc"
  "cc_closed (failLocked e cc) = cc_closed cc" "cc_wmu (failLocked e cc) = cc_wmu cc"
  "cc_dec (failLocked e cc) = cc_dec cc" "cc_hasOnResult (failLocked e cc) = cc_hasOnResult cc"
  "cc_nextID (failLocked e cc) = cc_nextID cc"
  by (simp_all add: failLocked_def)

lemma onGoAway_rest [simp]:
  "cc_hdrStream (onGoAway l code cc) = cc_hdrStream cc" "cc_hdrStatus (onGoAway l code cc) = cc_hdrStatus cc"
  "cc_hdrEnd (onGoAway l code cc) = cc_hdrEnd cc" "cc_readerDone (onGoAway l code cc) = cc_readerDone cc"
  "cc_peerMaxStreams (onGoAway l code cc) = cc_peerMaxStreams cc" "cc_peerInitialWindow (onGoAway l code cc) = cc_peerInitialWindow cc"
  "cc_connSendWindow (onGoAway l code cc) = cc_connSendWindow cc" "cc_wire (onGoAway l code cc) = cc_wire cc"
  "cc_recvConsumed (onGoAway l code cc) = cc_recvConsumed cc" "cc_settingsSeen (onGoAway l code cc) = cc_settingsSeen cc"
  "cc_closed (onGoAway l code cc) = cc_closed cc" "cc_wmu (onGoAway l code cc) = cc_wmu cc"
  "cc_dec (onGoAway l code cc) = cc_dec cc" "cc_hasOnResult (onGoAway l code cc) = cc_hasOnResult cc"
  "cc_nextID (onGoAway l code cc) = cc_nextID cc"
  by (simp_all add: onGoAway_def Let_def split: option.splits)

lemma onHeaderField_rest [simp]:
  "cc_hdrStream (onHeaderField f cc) = cc_hdrStream cc" "cc_hdrEnd (onHeaderField f cc) = cc_hdrEnd cc"
  "cc_err (onHeaderField f cc) = cc_err cc" "cc_readerDone (onHeaderField f cc) = cc_readerDone cc"
  "cc_peerMaxStreams (onHeaderField f cc) = cc_peerMaxStreams cc" "cc_peerInitialWindow (onHeaderField f cc) = cc_peerInitialWindow cc"
  "cc_connSendWindow (onHeaderField f cc) = cc_connSendWindow cc" "cc_wire (onHeaderField f cc) = cc_wire cc"
  "cc_recvConsumed (onHeaderField f cc) = cc_recvConsumed cc" "cc_settingsSeen (onHeaderField f cc) = cc_settingsSeen cc"
  "cc_closed (onHeaderField f cc) = cc_closed cc" "cc_wmu (onHeaderField f cc) = cc_wmu cc"
  "cc_dec (onHeaderField f cc) = cc_dec cc" "cc_hasOnResult (onHeaderField f cc) = cc_hasOnResult cc"
  "cc_nextID (onHeaderField f cc) = cc_nextID cc" "cc_streams (onHeaderField f cc) = cc_streams cc"
  by (simp_all add: onHeaderField_def split: prod.splits option.splits)

lemma onHeaderField_fold_rest [simp]:
  "cc_hdrStream (foldl (\<lambda>cc f. onHeaderField f cc) cc fs) = cc_hdrStream cc" "cc_hdrEnd (foldl (\<lambda>cc f. onHeaderField f cc) cc fs) = cc_hdrEnd cc"
  "cc_err (foldl (\<lambda>cc f. onHeaderField f cc) cc fs) = cc_err cc" "cc_readerDone (foldl (\<lambda>cc f. onHeaderField f cc) cc fs) = cc_readerDone cc"
  "cc_peerMaxStreams (foldl (\<lambda>cc f. onHeaderField f cc) cc fs) = cc_peerMaxStreams cc" "cc_peerInitialWindow (foldl (\<lambda>cc f. onHeaderField f cc) cc fs) = cc_peerInitialWindow cc"
  "cc_connSendWindow (foldl (\<lambda>cc f. onHeaderField f cc) cc fs) = cc_connSendWindow cc" "cc_wire (foldl (\<lambda>cc f. onHeaderField f cc) cc fs) = cc_wire cc"
  "cc_recvConsumed (foldl (\<lambda>cc f. onHeaderField f cc) cc fs) = cc_recvConsumed cc" "cc_settingsSeen (foldl (\<lambda>cc f. onHeaderField f cc) cc fs) = cc_settingsSeen cc"
  "cc_closed (foldl (\<lambda>cc f. onHeaderField f cc) cc fs) = cc_closed cc" "cc_wmu (foldl (\<lambda>cc f. onHeaderField f cc) cc fs) = cc_wmu cc"
  "cc_dec (foldl (\<lambda>cc f. onHeaderField f cc) cc fs) = cc_dec cc" "cc_hasOnResult (foldl (\<lambda>cc f. onHeaderField f cc) cc fs) = cc_hasOnResult cc"
  "cc_nextID (foldl (\<lambda>cc f. onHeaderField f cc) cc fs) = cc_nextID cc" "cc_streams (foldl (\<lambda>cc f. onHeaderField f cc) cc fs) = cc_streams cc"
  by (induction fs arbitrary: cc) simp_all

lemma upd_stream_fold_rest [simp]:
  "cc_hdrStream (foldl (\<lambda>cc e. upd_stream (snd e) f cc) cc es) = cc_hdrStream cc" "cc_hdrStatus (foldl (\<lambda>cc e. upd_stream (snd e) f cc) cc es) = cc_hdrStatus cc"
  "cc_hdrEnd (foldl (\<lambda>cc e. upd_stream (snd e) f cc) cc es) = cc_hdrEnd cc" "cc_err (foldl (\<lambda>cc e. upd_stream (snd e) f cc) cc es) = cc_err cc"
  "cc_readerDone (foldl (\<lambda>cc e. upd_stream (snd e) f cc) cc es) = cc_readerDone cc" "cc_peerMaxStreams (foldl (\<lambda>cc e. upd_stream (snd e) f cc) cc es) = cc_peerMaxStreams cc"
  "cc_peerInitialWindow (foldl (\<lambda>cc e. upd_stream (snd e) f cc) cc es) = cc_peerInitialWindow cc" "cc_connSendWindow (foldl (\<lambda>cc e. upd_stream (snd e) f cc) cc es) = cc_connSendWindow cc"
  "cc_wire (foldl (\<lambda>cc e. upd_stream (snd e) f cc) cc es) = cc_wire cc" "cc_recvConsumed (foldl (\<lambda>cc e. upd_stream (snd e) f cc) cc es) = cc_recvConsumed cc"
  "cc_settingsSeen (foldl (\<lambda>cc e. upd_stream (snd e) f cc) cc es) = cc_settingsSeen cc" "cc_closed (foldl (\<lambda>cc e. upd_stream (snd e) f cc) cc es) = cc_closed cc"
  "cc_wmu (foldl (\<lambda>cc e. upd_stream (snd e) f cc) cc es) = cc_wmu cc" "cc_dec (foldl (\<lambda>cc e. upd_stream (snd e) f cc) cc es) = cc_dec cc"
  "cc_hasOnResult (foldl (\<lambda>cc e. upd_stream (snd e) f cc) cc es) = cc_hasOnResult cc" "cc_nextID (foldl (\<lambda>cc e. upd_stream (snd e) f cc) cc es) = cc_nextID cc"
  "cc_streams (foldl (\<lambda>cc e. upd_stream (snd e) f cc) cc es) = cc_streams cc"
  by (induction es arbitrary: cc) simp_all

lemma onWindowUpdate_rest [simp]:
  "cc_hdrStream (onWindowUpdate sid inc cc) = cc_hdrStream cc" "cc_hdrStatus (onWindowUpdate sid inc cc) = cc_hdrStatus cc"
  "cc_hdrEnd (onWindowUpdate sid inc cc) = cc_hdrEnd cc" "cc_err (onWindowUpdate sid inc cc) = cc_err cc"
  "cc_readerDone (onWindowUpdate sid inc cc) = cc_readerDone cc" "cc_peerMaxStreams (onWindowUpdate sid inc cc) = cc_peerMaxStreams cc"
  "cc_peerInitialWindow (onWindowUpdate sid inc cc) = cc_peerInitialWindow cc" "cc_wire (onWindowUpdate sid inc cc) = cc_wire cc"
  "cc_recvConsumed (onWindowUpdate sid inc cc) = cc_recvConsumed cc" "cc_settingsSeen (onWindowUpdate sid inc cc) = cc_settingsSeen cc"
  "cc_closed (onWindowUpdate sid inc cc) = cc_closed cc" "cc_wmu (onWindowUpdate sid inc cc) = cc_wmu cc"
  "cc_dec (onWindowUpdate sid inc cc) = cc_dec cc" "cc_hasOnResult (onWindowUpdate sid inc cc) = cc_hasOnResult cc"
  "cc_nextID (onWindowUpdate sid inc cc) = cc_nextID cc"
  by (simp_all add: onWindowUpdate_def split: option.splits)

lemma onSetting_rest [simp]:
  "cc_hdrStream (onSetting x cc) = cc_hdrStream cc" "cc_hdrStatus (onSetting x cc) = cc_hdrStatus cc"
  "cc_hdrEnd (onSetting x cc) = cc_hdrEnd cc" "cc_err (onSetting x cc) = cc_err cc"
  "cc_readerDone (onSetting x cc) = cc_readerDone cc" "cc_connSendWindow (onSetting x cc) = cc_connSendWindow cc"
  "cc_wire (onSetting x cc) = cc_wire cc" "cc_recvConsumed (onSetting x cc) = cc_recvConsumed cc"
  "cc_settingsSeen (onSetting x cc) = cc_settingsSeen cc" "cc_closed (onSetting x cc) = cc_closed cc"
  "cc_wmu (onSetting x cc) = cc_wmu cc" "cc_dec (onSetting x cc) = cc_dec cc"
  "cc_hasOnResult (onSetting x cc) = cc_hasOnResult cc" "cc_nextID (onSetting x cc) = cc_nextID cc"
  by (cases x; simp add: onSetting_def Let_def)+

lemma onSetting_fold_rest [simp]:
  "cc_hdrStream (foldl (\<lambda>cc s. onSetting s cc) cc xs) = cc_hdrStream cc" "cc_hdrStatus (foldl (\<lambda>cc s. onSetting s cc) cc xs) = cc_hdrStatus cc"
  "cc_hdrEnd (foldl (\<lambda>cc s. onSetting s cc) cc xs) = cc_hdrEnd cc" "cc_err (foldl (\<lambda>cc s. onSetting s cc) cc xs) = cc_err cc"
  "cc_readerDone (foldl (\<lambda>cc s. onSetting s cc) cc xs) = cc_readerDone cc" "cc_connSendWindow (foldl (\<lambda>cc s. onSetting s cc) cc xs) = cc_connSendWindow cc"
  "cc_wire (foldl (\<lambda>cc s. onSetting s cc) cc xs) = cc_wire cc" "cc_recvConsumed (foldl (\<lambda>cc s. onSetting s cc) cc xs) = cc_recvConsumed cc"
  "cc_settingsSeen (foldl (\<lambda>cc s. onSetting s cc) cc xs) = cc_settingsSeen cc" "cc_closed (foldl (\<lambda>cc s. onSetting s cc) cc xs) = cc_closed cc"
  "cc_wmu (foldl (\<lambda>cc s. onSetting s cc) cc xs) = cc_wmu cc" "cc_dec (foldl (\<lambda>cc s. onSetting s cc) cc xs) = cc_dec cc"
  "cc_hasOnResult (foldl (\<lambda>cc s. onSetting s cc) cc xs) = cc_hasOnResult cc" "cc_nextID (foldl (\<lambda>cc s. onSetting s cc) cc xs) = cc_nextID cc"
  by (induction xs arbitrary: cc) simp_all

section \<open>The reader\<close>

lemma onHeaderBlock_part:
  assumes "onHeaderBlock D fragment False cc = (e, cc')"
  shows "view cc' = view cc" "cc_hdrStream cc' = cc_hdrStream cc"
  using assms by (auto simp: onHeaderBlock_def Let_def onHeaderField_fold split: prod.splits option.splits)

lemma onHeaderBlock_whole:
  "onHeaderBlock D fragment True cc = (None, cc') \<Longrightarrow> cc_hdrStream cc' = None"
  by (auto simp: onHeaderBlock_def Let_def split: prod.splits option.splits if_splits)

lemma recv_window_hdrStream: "recv_window w len cc = (e, cc') \<Longrightarrow> cc_hdrStream cc' = cc_hdrStream cc"
  by (auto simp: recv_window_def writeControl_def conn_Write_def Let_def split: if_splits option.splits)

lemma read_frame_hdrStream:
  assumes "framer_ok expect f" and "\<And>r. cc_hdrStream cc = Some r \<Longrightarrow> expect \<noteq> None \<and> r \<in> a_refs (view cc)"
    and "read_frame D w f cc = (None, cc')" and "cc_hdrStream cc' = Some r"
  shows "framer_next f \<noteq> None \<and> r \<in> a_refs (view cc')"
proof (cases f)
  case (HeadersFrame sid fragment endHeaders endStream)
  with assms(3,4) have h: "\<not> endHeaders"
    by (cases endHeaders) (auto dest: onHeaderBlock_whole)
  with HeadersFrame assms(3) onHeaderBlock_part
  have "view cc' = view (startHeaders sid endStream cc)"
    and "cc_hdrStream cc' = cc_hdrStream (startHeaders sid endStream cc)"
    by simp_all
  with HeadersFrame h assms(4) show ?thesis
    by (force simp: startHeaders_def a_refs_def dest: map_get_Some)
next
  case (ContinuationFrame sid fragment endHeaders)
  with assms(3,4) have h: "\<not> endHeaders"
    by (cases endHeaders) (auto dest: onHeaderBlock_whole)
  with ContinuationFrame assms(3) onHeaderBlock_part
  have "view cc' = view cc" "cc_hdrStream cc' = cc_hdrStream cc" by simp_all
  with ContinuationFrame h assms(2,4) show ?thesis by simp
next
  case (DataFrame sid len data ended)
  with assms have "cc_hdrStream cc = None" by (cases "cc_hdrStream cc") auto
  with DataFrame assms(3,4) show ?thesis
    by (auto simp: onData_def Let_def dest!: recv_window_hdrStream split: prod.splits option.splits if_splits)
qed (use assms in \<open>auto simp: onSettings_def writeControl_def conn_Write_def Let_def
    split: if_splits option.splits\<close>)

text \<open>The write lock, the end of the reader and the error are not the frame handlers' to change.\<close>

lemma onData_rest:
  assumes "onData w sid len data ended cc = (e, cc')"
  shows "cc_readerDone cc' = cc_readerDone cc" "cc_err cc' = cc_err cc"
    "cc_peerMaxStreams cc' = cc_peerMaxStreams cc" "cc_connSendWindow cc' = cc_connSendWindow cc"
  using assms
  by (auto simp: onData_def recv_window_def writeControl_def conn_Write_def Let_def
      split: prod.splits option.splits if_splits)

lemma onHeaderBlock_rest:
  assumes "onHeaderBlock D fragment ended cc = (e, cc')"
  shows "cc_readerDone cc' = cc_readerDone cc" "cc_err cc' = cc_err cc" "cc_wire cc' = cc_wire cc"
    "cc_peerMaxStreams cc' = cc_peerMaxStreams cc" "cc_connSendWindow cc' = cc_connSendWindow cc"
    "cc_recvConsumed cc' = cc_recvConsumed cc"
  using assms
  by (auto simp: onHeaderBlock_def Let_def split: prod.splits option.splits if_splits)

lemma startHeaders_rest [simp]:
  "cc_readerDone (startHeaders sid es cc) = cc_readerDone cc" "cc_err (startHeaders sid es cc) = cc_err cc"
  "cc_wire (startHeaders sid es cc) = cc_wire cc"
  "cc_peerMaxStreams (startHeaders sid es cc) = cc_peerMaxStreams cc"
  "cc_connSendWindow (startHeaders sid es cc) = cc_connSendWindow cc"
  "cc_recvConsumed (startHeaders sid es cc) = cc_recvConsumed cc"
  by (simp_all add: startHeaders_def)

lemma onSettings_rest:
  assumes "onSettings w xs cc = (e, cc')"
  shows "cc_readerDone cc' = cc_readerDone cc" "cc_err cc' = cc_err cc"
    "cc_connSendWindow cc' = cc_connSendWindow cc" "cc_recvConsumed cc' = cc_recvConsumed cc"
  using assms by (auto simp: onSettings_def writeControl_def conn_Write_def Let_def split: option.splits)

lemma read_frame_readerDone:
  "read_frame D w f cc = (e, cc') \<Longrightarrow> cc_readerDone cc' = cc_readerDone cc"
  by (cases f) (auto simp: writeControl_def conn_Write_def onSettings_rest onData_rest onHeaderBlock_rest
    split: if_splits)

definition max_streams_ok :: "'d ClientConn \<Rightarrow> bool" where
  "max_streams_ok cc \<longleftrightarrow> 0 \<le> cc_peerMaxStreams cc \<and> cc_peerMaxStreams cc \<le> 2 ^ 20"

lemma max_streams_ok_onSetting: "max_streams_ok cc \<Longrightarrow> max_streams_ok (onSetting x cc)"
  by (cases x) (auto simp: max_streams_ok_def onSetting_def Let_def)

lemma max_streams_ok_fold: "max_streams_ok cc \<Longrightarrow> max_streams_ok (foldl (\<lambda>cc s. onSetting s cc) cc xs)"
  by (induction xs arbitrary: cc) (simp_all add: max_streams_ok_onSetting)

lemma max_streams_ok_read_frame:
  assumes "max_streams_ok cc" and "read_frame D w f cc = (e, cc')"
  shows "max_streams_ok cc'"
proof (cases f)
  case (SettingsFrame ack xs)
  with assms max_streams_ok_fold [OF assms(1), of xs] show ?thesis
    by (auto simp: max_streams_ok_def onSettings_def writeControl_def conn_Write_def Let_def
        split: if_splits option.splits)
qed (use assms in \<open>auto simp: max_streams_ok_def writeControl_def conn_Write_def onData_rest onHeaderBlock_rest
    split: if_splits\<close>)

lemma readLoop_exit_result:
  "cc_readerDone (readLoop_exit e cc)" "cc_err (readLoop_exit e cc) \<noteq> None"
  "cc_streams (readLoop_exit e cc) = []" "cc_settingsSeen (readLoop_exit e cc)"
  "cc_closed (readLoop_exit e cc)" "cc_peerMaxStreams (readLoop_exit e cc) = cc_peerMaxStreams cc"
  "cc_wire (readLoop_exit e cc) = cc_wire cc" "cc_connSendWindow (readLoop_exit e cc) = cc_connSendWindow cc"
  by (auto simp: readLoop_exit_def Let_def failLocked_def conn_Close_def split: option.splits)

section \<open>The fields a writer leaves alone\<close>

lemma doStreamPool_Get_rest [simp]:
  "cc_wmu (snd (doStreamPool_Get pick cc)) = cc_wmu cc" "cc_hdrStream (snd (doStreamPool_Get pick cc)) = cc_hdrStream cc"
  "cc_readerDone (snd (doStreamPool_Get pick cc)) = cc_readerDone cc" "cc_err (snd (doStreamPool_Get pick cc)) = cc_err cc"
  "cc_peerMaxStreams (snd (doStreamPool_Get pick cc)) = cc_peerMaxStreams cc" "cc_recvConsumed (snd (doStreamPool_Get pick cc)) = cc_recvConsumed cc"
  "cc_wire (snd (doStreamPool_Get pick cc)) = cc_wire cc" "cc_connSendWindow (snd (doStreamPool_Get pick cc)) = cc_connSendWindow cc"
  "cc_nextID (snd (doStreamPool_Get pick cc)) = cc_nextID cc" "cc_peerInitialWindow (snd (doStreamPool_Get pick cc)) = cc_peerInitialWindow cc"
  "cc_streams (snd (doStreamPool_Get pick cc)) = cc_streams cc" "cc_active (snd (doStreamPool_Get pick cc)) = cc_active cc"
  by (auto simp: doStreamPool_Get_def alloc_def split: option.splits)

lemma WriteBatch_stream_rest [simp]:
  "cc_wmu (WriteBatch_stream pick bl keep sid cc) = cc_wmu cc" "cc_hdrStream (WriteBatch_stream pick bl keep sid cc) = cc_hdrStream cc"
  "cc_readerDone (WriteBatch_stream pick bl keep sid cc) = cc_readerDone cc" "cc_err (WriteBatch_stream pick bl keep sid cc) = cc_err cc"
  "cc_peerMaxStreams (WriteBatch_stream pick bl keep sid cc) = cc_peerMaxStreams cc" "cc_recvConsumed (WriteBatch_stream pick bl keep sid cc) = cc_recvConsumed cc"
  "cc_wire (WriteBatch_stream pick bl keep sid cc) = cc_wire cc" "cc_connSendWindow (WriteBatch_stream pick bl keep sid cc) = cc_connSendWindow cc"
  "cc_nextID (WriteBatch_stream pick bl keep sid cc) = cc_nextID cc" "cc_peerInitialWindow (WriteBatch_stream pick bl keep sid cc) = cc_peerInitialWindow cc"
  "cc_active (WriteBatch_stream pick bl keep sid cc) = cc_active cc"
  by (auto simp: WriteBatch_stream_def batchStreamPool_Get_def alloc_def Let_def split: prod.splits option.splits)

lemma WriteBatch_fold_rest [simp]:
  "cc_wmu (foldl (\<lambda>cc sid. WriteBatch_stream pick bl keep sid cc) cc sids) = cc_wmu cc" "cc_hdrStream (foldl (\<lambda>cc sid. WriteBatch_stream pick bl keep sid cc) cc sids) = cc_hdrStream cc"
  "cc_readerDone (foldl (\<lambda>cc sid. WriteBatch_stream pick bl keep sid cc) cc sids) = cc_readerDone cc" "cc_err (foldl (\<lambda>cc sid. WriteBatch_stream pick bl keep sid cc) cc sids) = cc_err cc"
  "cc_peerMaxStreams (foldl (\<lambda>cc sid. WriteBatch_stream pick bl keep sid cc) cc sids) = cc_peerMaxStreams cc" "cc_recvConsumed (foldl (\<lambda>cc sid. WriteBatch_stream pick bl keep sid cc) cc sids) = cc_recvConsumed cc"
  "cc_wire (foldl (\<lambda>cc sid. WriteBatch_stream pick bl keep sid cc) cc sids) = cc_wire cc" "cc_connSendWindow (foldl (\<lambda>cc sid. WriteBatch_stream pick bl keep sid cc) cc sids) = cc_connSendWindow cc"
  "cc_nextID (foldl (\<lambda>cc sid. WriteBatch_stream pick bl keep sid cc) cc sids) = cc_nextID cc" "cc_peerInitialWindow (foldl (\<lambda>cc sid. WriteBatch_stream pick bl keep sid cc) cc sids) = cc_peerInitialWindow cc"
  "cc_active (foldl (\<lambda>cc sid. WriteBatch_stream pick bl keep sid cc) cc sids) = cc_active cc"
  by (induction sids arbitrary: cc) simp_all

lemma WriteBatch_loop_rest [simp]:
  "cc_wmu (foldl (\<lambda>cc i. WriteBatch_stream pick bl keep (f i) cc) cc ns) = cc_wmu cc" "cc_hdrStream (foldl (\<lambda>cc i. WriteBatch_stream pick bl keep (f i) cc) cc ns) = cc_hdrStream cc"
  "cc_readerDone (foldl (\<lambda>cc i. WriteBatch_stream pick bl keep (f i) cc) cc ns) = cc_readerDone cc" "cc_err (foldl (\<lambda>cc i. WriteBatch_stream pick bl keep (f i) cc) cc ns) = cc_err cc"
  "cc_peerMaxStreams (foldl (\<lambda>cc i. WriteBatch_stream pick bl keep (f i) cc) cc ns) = cc_peerMaxStreams cc" "cc_recvConsumed (foldl (\<lambda>cc i. WriteBatch_stream pick bl keep (f i) cc) cc ns) = cc_recvConsumed cc"
  "cc_wire (foldl (\<lambda>cc i. WriteBatch_stream pick bl keep (f i) cc) cc ns) = cc_wire cc" "cc_connSendWindow (foldl (\<lambda>cc i. WriteBatch_stream pick bl keep (f i) cc) cc ns) = cc_connSendWindow cc"
  "cc_nextID (foldl (\<lambda>cc i. WriteBatch_stream pick bl keep (f i) cc) cc ns) = cc_nextID cc" "cc_peerInitialWindow (foldl (\<lambda>cc i. WriteBatch_stream pick bl keep (f i) cc) cc ns) = cc_peerInitialWindow cc"
  "cc_active (foldl (\<lambda>cc i. WriteBatch_stream pick bl keep (f i) cc) cc ns) = cc_active cc"
  by (induction ns arbitrary: cc) simp_all

lemma takeWindowLocked_rest [simp]:
  "cc_wmu (snd (takeWindowLocked r n cc)) = cc_wmu cc" "cc_hdrStream (snd (takeWindowLocked r n cc)) = cc_hdrStream cc"
  "cc_readerDone (snd (takeWindowLocked r n cc)) = cc_readerDone cc" "cc_err (snd (takeWindowLocked r n cc)) = cc_err cc"
  "cc_peerMaxStreams (snd (takeWindowLocked r n cc)) = cc_peerMaxStreams cc" "cc_recvConsumed (snd (takeWindowLocked r n cc)) = cc_recvConsumed cc"
  "cc_wire (snd (takeWindowLocked r n cc)) = cc_wire cc" "cc_nextID (snd (takeWindowLocked r n cc)) = cc_nextID cc"
  "cc_peerInitialWindow (snd (takeWindowLocked r n cc)) = cc_peerInitialWindow cc" "cc_streams (snd (takeWindowLocked r n cc)) = cc_streams cc"
  "cc_active (snd (takeWindowLocked r n cc)) = cc_active cc"
  by (simp_all add: takeWindowLocked_def Let_def)

lemma after_write_eq:
  "after_write r body n e cc =
     (if e = None \<and> drop n body \<noteq> [] then DoBody r (drop n body) else DoWait r,
      if e = None then cc else conn_Close cc)"
  by (auto simp: after_write_def split: option.splits)

lemmas thread_step_defs = Do_start_def Do_slot_def writeStream_open_def end_with_def writeStream_flush_def
  writeStream_body_def writeStream_bodyFlush_def Do_wait_def WriteBatch_reserve_def WriteBatch_open_def
  WriteBatch_flush_def conn_Write_def conn_Close_def after_write_eq case_prod_beta

lemma thread_step_rest:
  assumes "thread_step pick w t cc = Some (t', cc')"
  shows "cc_hdrStream cc' = cc_hdrStream cc \<and> cc_readerDone cc' = cc_readerDone cc
    \<and> cc_peerMaxStreams cc' = cc_peerMaxStreams cc \<and> cc_recvConsumed cc' = cc_recvConsumed cc
    \<and> cc_peerInitialWindow cc' = cc_peerInitialWindow cc"
  using assms
  by (cases t)
    (auto simp: thread_step_defs Let_def split: if_splits option.splits nat.splits)

section \<open>The write lock\<close>

lemma thread_step_wmu:
  assumes "thread_step pick w t cc = Some (t', cc')"
  shows "(\<not> holds_wmu t \<and> \<not> cc_wmu cc \<and> holds_wmu t' \<and> cc_wmu cc')
    \<or> (holds_wmu t \<and> \<not> holds_wmu t' \<and> \<not> cc_wmu cc')
    \<or> (\<not> holds_wmu t \<and> \<not> holds_wmu t' \<and> cc_wmu cc' = cc_wmu cc)"
  using assms
  by (cases t)
    (auto simp: thread_step_defs Let_def failLocked_def split: if_splits option.splits nat.splits)

lemma wmu_inv_step:
  assumes inv: "wmu_inv (view cc) ths" and i: "i < length ths" and st: "thread_step pick w (ths ! i) cc = Some (t, cc')"
  shows "wmu_inv (view cc') (ths[i := t])"
proof -
  have upd: "holds_wmu (ths[i := t] ! j) = (if j = i then holds_wmu t else holds_wmu (ths ! j))"
    if "j < length ths" for j
    using that i by (simp add: nth_list_update)
  from thread_step_wmu [OF st] show ?thesis
    using inv i unfolding wmu_inv_def by (auto simp: upd cong: conj_cong)
qed


section \<open>The map grows under the writers, until the connection fails\<close>

lemma thread_step_err:
  "thread_step pick w t cc = Some (t', cc') \<Longrightarrow> cc_err cc \<noteq> None \<Longrightarrow>
   cc_err cc' = cc_err cc \<and> cc_streams cc' = cc_streams cc \<and> cc_nextID cc' = cc_nextID cc"
  by (cases t)
    (auto simp: thread_step_defs Let_def failLocked_def split: if_splits option.splits nat.splits)

lemma WriteBatch_stream_keeps:
  "S \<subseteq> set (cc_streams cc) \<Longrightarrow> sid \<notin> fst ` S \<Longrightarrow>
   S \<subseteq> set (cc_streams (WriteBatch_stream pick bl keep sid cc))"
  by (auto simp: WriteBatch_stream_def batchStreamPool_Get_def alloc_def map_put_def Let_def
      split: option.splits)

lemma WriteBatch_fold_keeps:
  "S \<subseteq> set (cc_streams cc) \<Longrightarrow> set sids \<inter> fst ` S = {} \<Longrightarrow>
   S \<subseteq> set (cc_streams (foldl (\<lambda>cc sid. WriteBatch_stream pick bl keep sid cc) cc sids))"
  by (induction sids arbitrary: cc) (simp_all add: WriteBatch_stream_keeps)

lemma thread_step_keeps:
  assumes inv: "ids_inv (view cc)" and "batch_ok t" and st: "thread_step pick w t cc = Some (t', cc')"
  shows "set (cc_streams cc) \<subseteq> set (cc_streams cc')"
proof (cases t)
  case (DoOpen r req)
  with st ids_inv_next_fresh [OF inv] show ?thesis
    by (auto simp: writeStream_open_def end_with_def conn_Close_def case_prod_beta Let_def map_put_fresh
        split: if_splits option.splits)
next
  case (BatchOpen req n keep)
  with assms have n: "1 \<le> n" "n \<le> 2 ^ 20" and st': "WriteBatch_open pick req n keep cc = Some (t', cc')" by auto
  have odd: "odd (unat (cc_nextID cc))" and le: "unat (cc_nextID cc) \<le> 2 ^ 31 + 1"
    using inv by (simp_all add: ids_inv_def)
  from WriteBatch_open_cases [OF st' le n] show ?thesis
  proof (elim disjE exE conjE)
    let ?sids = "batch_ids (cc_nextID cc) (nat n)"
    let ?cc = "cc\<lparr>cc_nextID := cc_nextID cc + of_nat (2 * nat n)\<rparr>"
    assume fits: "unat (cc_nextID cc) + 2 * nat n \<le> 2 ^ 31 + 1"
      and cc': "cc' = (foldl (\<lambda>cc sid. WriteBatch_stream pick (int (slice_len (req_Body req))) keep sid cc)
        ?cc ?sids)\<lparr>cc_wmu := True\<rparr>"
    have "k \<notin> set ?sids" if "k \<in> fst ` set (cc_streams cc)" for k
      using that inv batch_ids_bounds(2) [OF odd fits, of k] by (fastforce simp: ids_inv_def)
    then have disj: "set ?sids \<inter> fst ` set (cc_streams cc) = {}" by blast
    show ?thesis unfolding cc' using WriteBatch_fold_keeps [OF _ disj, of ?cc] by simp
  qed simp
qed (use st in \<open>auto simp: thread_step_defs Let_def split: if_splits option.splits nat.splits\<close>)

lemma batch_ok_step:
  assumes "batch_ok t" and "0 \<le> cc_active cc" and "max_streams_ok cc"
    and "thread_step pick w t cc = Some (t', cc')"
  shows "batch_ok t'"
  using assms
  by (cases t)
    (auto simp: thread_step_defs max_streams_ok_def Let_def split: if_splits option.splits nat.splits)

section \<open>Identifiers fit in 31 bits\<close>

definition small_ids :: "'d ClientConn \<Rightarrow> bool" where
  "small_ids cc \<longleftrightarrow> (\<forall>r. st_id (cc_heap cc r) \<le> maxStreamID)"

lemma small_ids_view: "view cc' = view cc \<Longrightarrow> small_ids cc' = small_ids cc"
  unfolding small_ids_def by (metis view_simps(1))

lemma small_ids_closes:
  assumes "map_inv (view cc)" and "closes cc cc'" and "small_ids cc"
  shows "small_ids cc'"
proof -
  from assms(2) obtain es where es: "set es \<subseteq> set (cc_streams cc)" "distinct es"
    and v: "view cc' = a_close es (view cc)" by (auto simp: closes_def)
  have "a_id (view cc') r \<le> maxStreamID" for r
    using assms(3) es map_inv_snd_distinct [OF assms(1)] by (auto simp: v a_close_eq small_ids_def)
  then show ?thesis by (simp add: small_ids_def)
qed

lemma small_ids_upd:
  "small_ids cc \<Longrightarrow> (\<And>s. st_id s \<le> maxStreamID \<Longrightarrow> st_id (f s) \<le> maxStreamID) \<Longrightarrow> small_ids (upd_stream r f cc)"
  by (simp add: small_ids_def)

lemma small_ids_fields [simp]:
  "small_ids (cc\<lparr>cc_streams := m\<rparr>) = small_ids cc" "small_ids (cc\<lparr>cc_nextID := n\<rparr>) = small_ids cc"
  "small_ids (cc\<lparr>cc_wmu := b\<rparr>) = small_ids cc" "small_ids (cc\<lparr>cc_active := i\<rparr>) = small_ids cc"
  "small_ids (cc\<lparr>cc_connSendWindow := w\<rparr>) = small_ids cc" "small_ids (cc\<lparr>cc_wire := x\<rparr>) = small_ids cc"
  "small_ids (cc\<lparr>cc_doPool := rs\<rparr>) = small_ids cc" "small_ids (cc\<lparr>cc_batchPool := rs\<rparr>) = small_ids cc"
  "small_ids (conn_Close cc) = small_ids cc" "small_ids (failLocked e cc) = small_ids cc"
  by (simp_all add: small_ids_def conn_Close_def failLocked_def)

lemma small_ids_closed [simp]: "small_ids (cc\<lparr>cc_closed := b\<rparr>) = small_ids cc"
  by (simp add: small_ids_def)

lemma small_ids_alloc [simp]:
  "small_ids cc \<Longrightarrow> small_ids (cc\<lparr>cc_heap := (cc_heap cc)(x := new_stream d), cc_next := n\<rparr>)"
  by (simp add: small_ids_def new_stream_def)

lemma small_ids_putStream: "small_ids cc \<Longrightarrow> small_ids (putStream r cc)"
  by (simp add: putStream_def Let_def small_ids_def)

lemma small_ids_WriteBatch_stream:
  "small_ids cc \<Longrightarrow> sid \<le> maxStreamID \<Longrightarrow> small_ids (WriteBatch_stream pick bl keep sid cc)"
  by (auto simp: WriteBatch_stream_def batchStreamPool_Get_def alloc_def small_ids_def new_stream_def Let_def
      split: option.splits prod.splits)

lemma small_ids_WriteBatch_fold:
  "small_ids cc \<Longrightarrow> (\<And>sid. sid \<in> set sids \<Longrightarrow> sid \<le> maxStreamID) \<Longrightarrow>
   small_ids (foldl (\<lambda>cc sid. WriteBatch_stream pick bl keep sid cc) cc sids)"
  by (induction sids arbitrary: cc) (simp_all add: small_ids_WriteBatch_stream)

lemma small_ids_step:
  assumes small: "small_ids cc" and inv: "ids_inv (view cc)" and "batch_ok t"
    and st: "thread_step pick w t cc = Some (t', cc')"
  shows "small_ids cc'"
proof (cases t)
  case (DoOpen r req)
  show ?thesis
  proof (cases "cc_err cc = None \<and> \<not> cc_nextID cc > maxStreamID")
    case True
    with st DoOpen writeStream_open_fresh(2) [of cc r req t' cc'] have v: "view cc' =
      (view cc)\<lparr>a_id := (a_id (view cc))(r := cc_nextID cc), a_nextID := cc_nextID cc + 2,
        a_streams := map_put (cc_streams cc) (cc_nextID cc) r, a_wmu := True\<rparr>"
      by simp
    have "a_id (view cc') q = (if q = r then cc_nextID cc else st_id (cc_heap cc q))" for q
      unfolding v by simp
    with True small show ?thesis by (simp add: small_ids_def not_less)
  next
    case False
    with st DoOpen small show ?thesis
      by (auto simp: writeStream_open_def end_with_def Let_def small_ids_upd split: if_splits option.splits)
  qed
next
  case (BatchOpen req n keep)
  with assms have n: "1 \<le> n" "n \<le> 2 ^ 20" and st': "WriteBatch_open pick req n keep cc = Some (t', cc')" by auto
  have odd: "odd (unat (cc_nextID cc))" and le: "unat (cc_nextID cc) \<le> 2 ^ 31 + 1"
    using inv by (simp_all add: ids_inv_def)
  from WriteBatch_open_cases [OF st' le n] show ?thesis
  proof (elim disjE exE conjE)
    let ?sids = "batch_ids (cc_nextID cc) (nat n)"
    assume fits: "unat (cc_nextID cc) + 2 * nat n \<le> 2 ^ 31 + 1"
      and cc': "cc' = (foldl (\<lambda>cc sid. WriteBatch_stream pick (int (slice_len (req_Body req))) keep sid cc)
        (cc\<lparr>cc_nextID := cc_nextID cc + of_nat (2 * nat n)\<rparr>) ?sids)\<lparr>cc_wmu := True\<rparr>"
    show ?thesis unfolding cc' using small batch_ids_max [OF odd fits] by (simp add: small_ids_WriteBatch_fold)
  qed (use small in simp)
qed (use st small in \<open>auto simp: thread_step_defs Let_def doStreamPool_Get_def alloc_def small_ids_upd
      small_ids_putStream takeWindowLocked_def split: if_splits option.splits nat.splits\<close>)

section \<open>The system\<close>

definition hdr_inv :: "'d system \<Rightarrow> bool" where
  "hdr_inv s \<longleftrightarrow>
     (\<forall>r. cc_hdrStream (sys_cc s) = Some r \<longrightarrow> sys_expect s \<noteq> None \<and> r \<in> a_refs (view (sys_cc s)))"

definition sys_inv :: "'d system \<Rightarrow> bool" where
  "sys_inv s \<longleftrightarrow>
     conn_inv 0 (view (sys_cc s)) (sys_threads s)
     \<and> wmu_inv (view (sys_cc s)) (sys_threads s)
     \<and> (\<forall>t \<in> set (sys_threads s). batch_ok t)
     \<and> max_streams_ok (sys_cc s) \<and> small_ids (sys_cc s)
     \<and> (\<not> cc_readerDone (sys_cc s) \<longrightarrow> hdr_inv s)
     \<and> (cc_readerDone (sys_cc s) \<longrightarrow> cc_err (sys_cc s) \<noteq> None \<and> cc_streams (sys_cc s) = [])"

lemma is_call_thread:
  "is_call t \<Longrightarrow> thread_ref t = None \<and> reserved t = 0 \<and> \<not> holds_wmu t \<and> batch_ok t"
  by (cases t) auto

lemma conn_inv_call:
  assumes "conn_inv k a ths" and "thread_ref t = None" and "reserved t = 0"
  shows "conn_inv k a (ths @ [t])"
proof -
  have o: "owner_inv a ths" using assms(1) by (simp add: conn_inv_def)
  have "owner_inv a (ths @ [t])"
  proof (rule owner_invI)
    fix i r assume i: "i < length (ths @ [t])" and r: "thread_ref ((ths @ [t]) ! i) = Some r"
    then have "i < length ths" using assms(2) by (cases "i = length ths") auto
    with owner_inv_thread(1-4) [OF o this, of r] r show "r < a_next a \<and> r \<notin> set (a_doPool a)
        \<and> a_done a r = Some (if issued ((ths @ [t]) ! i) \<and> r \<notin> a_refs a then 1 else 0)
        \<and> (r \<in> a_refs a \<longrightarrow> issued ((ths @ [t]) ! i))"
      by (simp add: nth_append)
  next
    fix i j r
    assume "i < length (ths @ [t])" "j < length (ths @ [t])"
      and r: "thread_ref ((ths @ [t]) ! i) = Some r" "thread_ref ((ths @ [t]) ! j) = Some r"
    then have "i < length ths" "j < length ths" using assms(2) by (auto simp: nth_append split: if_splits)
    then show "i = j" using owner_inv_thread(5) [OF o, of j r i] r by (simp add: nth_append)
  next
    fix r assume "r \<in> a_refs a" "a_done a r \<noteq> None"
    with o obtain i where "i < length ths" "thread_ref (ths ! i) = Some r" by (auto simp: owner_inv_def)
    then show "\<exists>i < length (ths @ [t]). thread_ref ((ths @ [t]) ! i) = Some r"
      by (intro exI [of _ i]) (simp add: nth_append)
  qed
  with assms show ?thesis by (simp add: conn_inv_def count_inv_def)
qed

lemma wmu_inv_call: "wmu_inv a ths \<Longrightarrow> \<not> holds_wmu t \<Longrightarrow> wmu_inv a (ths @ [t])"
  unfolding wmu_inv_def by (auto simp: nth_append less_Suc_eq split: if_splits)

lemma conn_inv_active: "conn_inv k (view cc) ths \<Longrightarrow> 0 \<le> cc_active cc"
  by (simp add: conn_inv_def count_inv_def)

lemma closes_wmu:
  assumes "map_inv (view cc)" and "closes cc cc'" and "wmu_inv (view cc) ths"
  shows "wmu_inv (view cc') ths"
proof -
  from assms(2) obtain es where es: "set es \<subseteq> set (cc_streams cc)" "distinct es"
    and v: "view cc' = a_close es (view cc)" by (auto simp: closes_def)
  show ?thesis
    using assms(3) es map_inv_snd_distinct [OF assms(1)] by (auto simp: v a_close_eq wmu_inv_def)
qed

lemma sys_inv_run:
  assumes inv: "sys_inv s" and i: "i < length (sys_threads s)"
    and st: "thread_step pick w (sys_threads s ! i) (sys_cc s) = Some (t, cc)"
  shows "sys_inv (s\<lparr>sys_cc := cc, sys_threads := (sys_threads s)[i := t]\<rparr>)"
proof -
  from inv have c: "conn_inv 0 (view (sys_cc s)) (sys_threads s)" and ids: "ids_inv (view (sys_cc s))"
    and b: "batch_ok (sys_threads s ! i)" and m: "max_streams_ok (sys_cc s)"
    using i by (auto simp: sys_inv_def conn_inv_def)
  have keeps: "a_refs (view (sys_cc s)) \<subseteq> a_refs (view cc)"
    using thread_step_keeps [OF ids b st] by (auto simp: a_refs_def)
  have "batch_ok t" by (rule batch_ok_step [OF b conn_inv_active [OF c] m st])
  with inv i have "\<forall>t' \<in> set ((sys_threads s)[i := t]). batch_ok t'"
    by (auto simp: sys_inv_def dest!: set_update_subset_insert [THEN subsetD])
  then show ?thesis
    using inv conn_inv_thread_step [OF c i b st] wmu_inv_step [OF _ i st] small_ids_step [OF _ ids b st]
      thread_step_rest [OF st] thread_step_err [OF st] keeps
    by (auto simp: sys_inv_def hdr_inv_def max_streams_ok_def)
qed

lemma sys_inv_frame:
  assumes inv: "sys_inv s" and "\<not> cc_readerDone (sys_cc s)" and ok: "framer_ok (sys_expect s) f"
    and rf: "read_frame D w f (sys_cc s) = (None, cc)"
  shows "sys_inv (s\<lparr>sys_cc := cc, sys_expect := framer_next f, sys_read := fs\<rparr>)"
proof -
  from inv have m: "map_inv (view (sys_cc s))"
    and h: "\<And>r. cc_hdrStream (sys_cc s) = Some r \<Longrightarrow> sys_expect s \<noteq> None \<and> r \<in> a_refs (view (sys_cc s))"
    using assms(2) by (auto simp: sys_inv_def conn_inv_def hdr_inv_def)
  have c: "closes (sys_cc s) cc" using closes_read_frame [OF m _ rf] h by blast
  have "hdr_inv (s\<lparr>sys_cc := cc, sys_expect := framer_next f, sys_read := fs\<rparr>)"
    using read_frame_hdrStream [OF ok h rf] by (auto simp: hdr_inv_def)
  then show ?thesis
    using inv assms(2) closes_inv [OF c] closes_wmu [OF m c] small_ids_closes [OF m c]
      max_streams_ok_read_frame [OF _ rf] read_frame_readerDone [OF rf]
    by (auto simp: sys_inv_def)
qed

lemma sys_inv_exit:
  assumes inv: "sys_inv s" and "\<not> cc_readerDone (sys_cc s)"
    and c: "closes (sys_cc s) cc" and m: "max_streams_ok cc"
  shows "sys_inv (s\<lparr>sys_cc := readLoop_exit e cc\<rparr>)"
proof -
  from inv have m0: "map_inv (view (sys_cc s))" and c0: "conn_inv 0 (view (sys_cc s)) (sys_threads s)"
    by (simp_all add: sys_inv_def conn_inv_def)
  have m1: "map_inv (view cc)" using closes_inv [OF c c0] by (simp add: conn_inv_def)
  note c1 = closes_readLoop_exit [OF m1, of e]
  show ?thesis
    using inv closes_inv [OF c1 closes_inv [OF c c0]] closes_wmu [OF m1 c1 closes_wmu [OF m0 c]]
      small_ids_closes [OF m1 c1 small_ids_closes [OF m0 c]] m readLoop_exit_result [of e cc]
    by (auto simp: sys_inv_def max_streams_ok_def)
qed

lemma sys_inv_step:
  assumes "sys_inv s" and "step D s t"
  shows "sys_inv t"
  using assms(2)
proof cases
  case (call t')
  with assms(1) is_call_thread [OF call(2)] show ?thesis
    by (auto simp: sys_inv_def hdr_inv_def intro: conn_inv_call wmu_inv_call)
next
  case (run i pick w t' cc)
  then show ?thesis using sys_inv_run [OF assms(1)] by simp
next
  case (frame f w cc)
  then show ?thesis using sys_inv_frame [OF assms(1)] by blast
next
  case (frame_error f w e cc)
  from assms(1) have "map_inv (view (sys_cc s))" "max_streams_ok (sys_cc s)"
    and "\<And>r. cc_hdrStream (sys_cc s) = Some r \<Longrightarrow> r \<in> a_refs (view (sys_cc s))"
    using frame_error by (auto simp: sys_inv_def conn_inv_def hdr_inv_def)
  with frame_error show ?thesis
    using sys_inv_exit [OF assms(1)] closes_read_frame max_streams_ok_read_frame by metis
next
  case (read_error e)
  from assms(1) have "max_streams_ok (sys_cc s)" by (simp add: sys_inv_def)
  with read_error show ?thesis using sys_inv_exit [OF assms(1)] closes_same_view by blast
next
  case close
  with assms(1) show ?thesis
    by (simp add: sys_inv_def hdr_inv_def max_streams_ok_def) (simp add: conn_Close_def)
qed

lemma sys_inv_opened: "opened s \<Longrightarrow> sys_inv s"
proof (induction rule: opened.induct)
  case (start d onResult cc)
  then have "cc_heap cc = (\<lambda>_. new_stream None)" "view cc =
    \<lparr>a_id = (\<lambda>r. 0), a_done = (\<lambda>r. None), a_next = 0, a_doPool = [], a_batchPool = [], a_streams = [],
     a_active = 0, a_nextID = 1, a_wmu = False\<rparr>" "\<not> cc_readerDone cc" "cc_hdrStream cc = None"
    "cc_peerMaxStreams cc = 100"
    by (auto simp: NewClientConn_def conn_Write_def view_def new_stream_def)
  then show ?case
    by (auto simp: sys_inv_def conn_inv_defs wmu_inv_def max_streams_ok_def small_ids_def new_stream_def
        maxStreamID_def hdr_inv_def)
qed

interpretation conn: invariant opened "step D" sys_inv for D
  by unfold_locales (auto intro: sys_inv_opened sys_inv_step)

lemmas reachable_inv = conn.inv_reach

lemma reachable_conn_inv: "reachable D s \<Longrightarrow> conn_inv 0 (view (sys_cc s)) (sys_threads s)"
  using reachable_inv by (auto simp: sys_inv_def)

section \<open>Stream objects\<close>

text \<open>
  C1. Under every interleaving of the goroutines a stream object is in one place at most: under one
  identifier in the connection's map, or once in one of the two pools; no two calls hold the same
  object, and none holds a pooled one, so a recycled stream is never written by its former owner.
\<close>

theorem stream_objects_never_shared:
  assumes "reachable D s"
  shows "distinct (map fst (cc_streams (sys_cc s)))
    \<and> distinct (map snd (cc_streams (sys_cc s)) @ cc_doPool (sys_cc s) @ cc_batchPool (sys_cc s))
    \<and> (\<forall>i j r. i < length (sys_threads s) \<longrightarrow> j < length (sys_threads s) \<longrightarrow>
         thread_ref (sys_threads s ! i) = Some r \<longrightarrow> thread_ref (sys_threads s ! j) = Some r \<longrightarrow> i = j)
    \<and> (\<forall>i r. i < length (sys_threads s) \<longrightarrow> thread_ref (sys_threads s ! i) = Some r \<longrightarrow>
         r \<notin> set (cc_doPool (sys_cc s)) \<and> r \<notin> set (cc_batchPool (sys_cc s)))"
proof -
  let ?a = "view (sys_cc s)" and ?ths = "sys_threads s"
  have m: "map_inv ?a" and p: "pool_inv ?a" and o: "owner_inv ?a ?ths"
    using reachable_conn_inv [OF assms] by (simp_all add: conn_inv_def)
  have "distinct (map snd (cc_streams (sys_cc s)))"
    using map_inv_snd_distinct [OF m _ map_inv_distinct [OF m]] by simp
  then have "distinct (map snd (cc_streams (sys_cc s)) @ cc_doPool (sys_cc s) @ cc_batchPool (sys_cc s))"
    using p by (auto simp: pool_inv_def a_refs_def)
  moreover have "r \<notin> set (cc_batchPool (sys_cc s))"
    if "i < length ?ths" "thread_ref (?ths ! i) = Some r" for i r
    using owner_inv_thread(3) [OF o that] p by (auto simp: pool_inv_def)
  moreover have "distinct (map fst (cc_streams (sys_cc s)))" using m by (simp add: map_inv_def)
  moreover have "i = j" if "i < length ?ths" "j < length ?ths" "thread_ref (?ths ! i) = Some r"
    "thread_ref (?ths ! j) = Some r" for i j r
    using owner_inv_thread(5) [OF o that(2,4,1,3)] .
  moreover have "r \<notin> set (cc_doPool (sys_cc s))"
    if "i < length ?ths" "thread_ref (?ths ! i) = Some r" for i r
    using owner_inv_thread(2) [OF o that] by simp
  ultimately show ?thesis by blast
qed

theorem stream_objects_never_shared_witness:
  "reachable ok_decoder (demo_state 5) \<and> thread_ref (sys_threads (demo_state 5) ! 0) = Some 0
   \<and> 0 \<notin> set (cc_doPool (sys_cc (demo_state 5)))"
  using stream_objects_never_shared [OF demo_reach(3)] demo_reach(3) by (simp add: demo_state_5)

text \<open>
  C6. The count of active streams is exactly the open streams and the slots writers have reserved
  and not opened yet: none is leaked or given back twice on any path, errors included.
\<close>

theorem active_is_exact:
  assumes "reachable D s"
  shows "cc_active (sys_cc s) =
    int (length (cc_streams (sys_cc s))) + int (sum_list (map reserved (sys_threads s)))"
  using reachable_conn_inv [OF assms] by (simp add: conn_inv_def count_inv_def)

theorem active_is_exact_witness:
  "reachable ok_decoder (demo_state 3) \<and> reserved (sys_threads (demo_state 3) ! 0) = 1
   \<and> cc_active (sys_cc (demo_state 3)) = 0 + 1"
  using active_is_exact [OF demo_reach(2)] demo_reach(2) by (simp add: demo_state_3)

text \<open>A stream in the map has no value in its channel.\<close>

lemma open_streams_wait:
  assumes "reachable D s" and "r \<in> snd ` set (cc_streams (sys_cc s))"
  shows "st_done (cc_heap (sys_cc s) r) \<in> {None, Some 0}"
proof (rule ccontr)
  have o: "owner_inv (view (sys_cc s)) (sys_threads s)"
    using reachable_conn_inv [OF assms(1)] by (simp add: conn_inv_def)
  assume c: "st_done (cc_heap (sys_cc s) r) \<notin> {None, Some 0}"
  then obtain i where "i < length (sys_threads s)" "thread_ref (sys_threads s ! i) = Some r"
    using o assms(2) unfolding owner_inv_def a_refs_def view_simps by blast
  from owner_inv_thread(3) [OF o this] c assms(2) show False by (simp add: a_refs_def)
qed

text \<open>
  C5. A call in \<^verbatim>\<open>Do\<close> is never handed two results, nor one that was meant for another: the \<open>done\<close> channel of its stream, which has
  room for one value, holds one at most, and none before the call has issued the stream and the stream has left the map; that of a
  stream in the map or in the pool holds none, so no send on it ever blocks and no value is left for the next user of the
  object.
\<close>

theorem done_at_most_once:
  assumes "reachable D s"
  shows "(\<forall>i r. i < length (sys_threads s) \<longrightarrow> thread_ref (sys_threads s ! i) = Some r \<longrightarrow>
        st_done (cc_heap (sys_cc s) r) = Some 0
      \<or> st_done (cc_heap (sys_cc s) r) = Some 1 \<and> issued (sys_threads s ! i) \<and> r \<notin> snd ` set (cc_streams (sys_cc s)))
    \<and> (\<forall>r \<in> snd ` set (cc_streams (sys_cc s)). st_done (cc_heap (sys_cc s) r) \<in> {None, Some 0})
    \<and> (\<forall>q \<in> set (cc_doPool (sys_cc s)). st_done (cc_heap (sys_cc s) q) = Some 0)"
proof -
  have p: "pool_inv (view (sys_cc s))" and o: "owner_inv (view (sys_cc s)) (sys_threads s)"
    using reachable_conn_inv [OF assms] by (simp_all add: conn_inv_def)
  have "st_done (cc_heap (sys_cc s) r) = Some 0
      \<or> st_done (cc_heap (sys_cc s) r) = Some 1 \<and> issued (sys_threads s ! i) \<and> r \<notin> snd ` set (cc_streams (sys_cc s))"
    if "i < length (sys_threads s)" "thread_ref (sys_threads s ! i) = Some r" for i r
    using owner_inv_thread(3) [OF o that] by (simp add: a_refs_def)
  then show ?thesis using p open_streams_wait [OF assms] by (simp add: pool_inv_def)
qed

theorem done_at_most_once_witness:
  "sys_threads demo_dead = [DoWait 0] \<and> cc_streams (sys_cc demo_dead) = [] \<and> st_done (cc_heap (sys_cc demo_dead) 0) \<in> {Some 0, Some 1}"
proof -
  have "cc_streams (sys_cc demo_dead) = []"
    using reachable_inv [OF demo_dead_reach] demo_dead_facts(3) by (simp add: sys_inv_def)
  then show ?thesis using done_at_most_once [OF demo_dead_reach] by (auto simp: demo_dead_facts(2))
qed

section \<open>Admission\<close>

text \<open>
  C16. A writer is admitted only within the server's limit: when a call gets slots, the streams
  open and reserved, its own included, are at most \<^verbatim>\<open>SETTINGS_MAX_CONCURRENT_STREAMS\<close> as last seen.
\<close>

theorem admission_within_limit:
  assumes "reachable D s" and "i < length (sys_threads s)"
    and "thread_step pick w (sys_threads s ! i) (sys_cc s) = Some (t, cc)"
    and "reserved (sys_threads s ! i) < reserved t"
  shows "int (length (cc_streams cc)) + int (sum_list (map reserved ((sys_threads s)[i := t])))
    \<le> cc_peerMaxStreams cc"
proof -
  have inv: "sys_inv s" by (rule reachable_inv [OF assms(1)])
  have "conn_inv 0 (view cc) ((sys_threads s)[i := t])"
    using sys_inv_run [OF inv assms(2,3)] by (simp add: sys_inv_def)
  moreover have "cc_active cc \<le> cc_peerMaxStreams cc"
    using assms(3,4)
    by (cases "sys_threads s ! i")
      (auto simp: thread_step_defs Let_def split: if_splits option.splits nat.splits)
  ultimately show ?thesis by (simp add: conn_inv_def count_inv_def)
qed

theorem admission_within_limit_witness:
  "\<exists>cc. thread_step fresh_pick None (DoSlot 0 demo_request) (sys_cc (demo_state 2)) = Some (DoOpen 0 demo_request, cc)
    \<and> int (length (cc_streams cc)) + 1 \<le> cc_peerMaxStreams cc"
proof -
  let ?cc = "(sys_cc (demo_state 2))\<lparr>cc_active := cc_active (sys_cc (demo_state 2)) + 1\<rparr>"
  have "thread_step fresh_pick None (DoSlot 0 demo_request) (sys_cc (demo_state 2)) =
      Some (DoOpen 0 demo_request, ?cc)"
    by (simp add: Do_slot_def demo_state_2)
  then show ?thesis
    using admission_within_limit [OF demo_reach(1), of 0 fresh_pick None "DoOpen 0 demo_request" ?cc]
    by (simp add: demo_state_2(2))
qed

section \<open>Shutdown\<close>

fun rank :: "thread \<Rightarrow> nat" where
  "rank (DoStart req keep dstcap) = 5"
| "rank (DoSlot r req) = 4"
| "rank (DoOpen r req) = 3"
| "rank (DoFlush r req buf n) = 3"
| "rank (DoBodyFlush r body n) = 3"
| "rank (DoBody r body) = 2"
| "rank (DoWait r) = 1"
| "rank (DoReturn res) = 0"
| "rank (BatchStart req n keep) = 3"
| "rank (BatchOpen req n keep) = 2"
| "rank (BatchFlush req n buf) = 1"
| "rank (BatchReturn n e) = 0"

lemma thread_step_rank:
  "thread_step pick w t cc = Some (t', cc') \<Longrightarrow> cc_err cc \<noteq> None \<Longrightarrow> rank t' < rank t"
  by (cases t) (auto simp: thread_step_defs Let_def split: if_splits option.splits nat.splits)

text \<open>A thread that is not waiting for the write lock can run once the connection has failed.\<close>

lemma thread_enabled:
  assumes "cc_err cc \<noteq> None" and "rank t > 0" and "cc_wmu cc \<longrightarrow> holds_wmu t"
    and "\<And>r. t = DoWait r \<Longrightarrow> st_done (cc_heap cc r) = Some 1"
  shows "thread_step pick w t cc \<noteq> None"
  using assms
  by (cases t) (auto simp: thread_step_defs Let_def split: option.splits)

text \<open>
  C4. Nothing hangs on a dead connection: once the reader has exited, as long as a call has not
  returned some call can take a step whatever its writes do, and every step brings its call strictly
  nearer to its return; so every schedule ends with every \<^verbatim>\<open>Do\<close> and \<^verbatim>\<open>WriteBatch\<close> returned.
\<close>

theorem calls_return_after_shutdown:
  assumes "reachable D s" and "cc_readerDone (sys_cc s)"
  shows "((\<exists>i < length (sys_threads s). rank (sys_threads s ! i) > 0) \<longrightarrow>
      (\<exists>j < length (sys_threads s). \<forall>pick w. thread_step pick w (sys_threads s ! j) (sys_cc s) \<noteq> None))
    \<and> (\<forall>j < length (sys_threads s). \<forall>pick w t cc.
      thread_step pick w (sys_threads s ! j) (sys_cc s) = Some (t, cc) \<longrightarrow> rank t < rank (sys_threads s ! j))"
proof -
  let ?cc = "sys_cc s" and ?ths = "sys_threads s"
  have inv: "sys_inv s" by (rule reachable_inv [OF assms(1)])
  then have err: "cc_err ?cc \<noteq> None" and st: "cc_streams ?cc = []" and o: "owner_inv (view ?cc) ?ths"
    and wmu: "cc_wmu ?cc \<longleftrightarrow> (\<exists>i < length ?ths. holds_wmu (?ths ! i))"
    using assms(2) by (auto simp: sys_inv_def conn_inv_def wmu_inv_def)
  have "st_done (cc_heap ?cc r) = Some 1" if "j < length ?ths" "?ths ! j = DoWait r" for j r
    using owner_inv_thread(3) [OF o that(1), of r] that(2) st by (simp add: a_refs_def)
  then have en: "thread_step pick w (?ths ! j) ?cc \<noteq> None"
    if "j < length ?ths" "rank (?ths ! j) > 0" "cc_wmu ?cc \<longrightarrow> holds_wmu (?ths ! j)" for j pick w
    using thread_enabled [OF err that(2,3)] that(1) by blast
  have "\<exists>j < length ?ths. \<forall>pick w. thread_step pick w (?ths ! j) ?cc \<noteq> None"
    if i: "i < length ?ths" "rank (?ths ! i) > 0" for i
  proof (cases "cc_wmu ?cc")
    case True
    with wmu obtain j where j: "j < length ?ths" "holds_wmu (?ths ! j)" by blast
    then have "rank (?ths ! j) > 0" by (cases "?ths ! j") auto
    with en j show ?thesis by blast
  next
    case False
    with en i show ?thesis by blast
  qed
  then show ?thesis using thread_step_rank err by blast
qed

theorem calls_return_after_shutdown_witness:
  "\<exists>t cc. thread_step fresh_pick None (DoWait 0) (sys_cc demo_dead) = Some (t, cc) \<and> rank t < rank (DoWait 0)"
proof -
  note th = calls_return_after_shutdown [OF demo_dead_reach demo_dead_facts(3), unfolded demo_dead_facts(2)]
  then have "thread_step fresh_pick None (DoWait 0) (sys_cc demo_dead) \<noteq> None" by simp
  then obtain t cc where "thread_step fresh_pick None (DoWait 0) (sys_cc demo_dead) = Some (t, cc)"
    by (cases "thread_step fresh_pick None (DoWait 0) (sys_cc demo_dead)") auto
  with th show ?thesis by auto
qed

end
