(* ===== verification/ConnWire.thy ===== *)
theory ConnWire
  imports ConnSafety
begin

text \<open>
  What a connection puts on the wire, read back by the frame layout of theory \<open>Frames\<close>: in every
  reachable state the HEADERS frames sent open the streams 1, 3, 5 and so on, in order, and the DATA
  sent is within what the server's WINDOW_UPDATE frames have granted the connection.
\<close>

section \<open>The frames of a write\<close>

definition write_frames :: "bytes \<Rightarrow> frame list" where
  "write_frames buf = (case parse_frames buf of None \<Rightarrow> [] | Some fs \<Rightarrow> fs)"

text \<open>What followed the preface, which is the first write.\<close>

definition sent_frames :: "'d ClientConn \<Rightarrow> frame list" where
  "sent_frames cc = concat (map write_frames (tl (cc_wire cc)))"

definition header_ids :: "frame list \<Rightarrow> uint32 list" where
  "header_ids fs = map f_stream (filter (\<lambda>f. f_type f = frameHeaders) fs)"

definition data_octets :: "frame list \<Rightarrow> nat" where
  "data_octets fs = sum_list (map (\<lambda>f. length (f_payload f)) (filter (\<lambda>f. f_type f = frameData) fs))"

lemma header_ids_append [simp]: "header_ids (xs @ ys) = header_ids xs @ header_ids ys"
  by (simp add: header_ids_def)

lemma data_octets_append [simp]: "data_octets (xs @ ys) = data_octets xs + data_octets ys"
  by (simp add: data_octets_def)

lemma header_ids_Nil [simp]: "header_ids [] = []" and data_octets_Nil [simp]: "data_octets [] = 0"
  by (simp_all add: header_ids_def data_octets_def)

lemma data_frames_types: "f \<in> set (data_frames sid data es) \<Longrightarrow> f_type f = frameData"
  by (auto simp: data_frames_def Let_def)

lemma data_frames_counts [simp]:
  "header_ids (data_frames sid data es) = []" "data_octets (data_frames sid data es) = length data"
proof -
  show "header_ids (data_frames sid data es) = []"
    using data_frames_types by (fastforce simp: header_ids_def filter_empty_conv)
  have "filter (\<lambda>f. f_type f = frameData) (data_frames sid data es) = data_frames sid data es"
    using data_frames_types by (auto simp: filter_id_conv)
  then have "data_octets (data_frames sid data es) = length (concat (map f_payload (data_frames sid data es)))"
    by (simp add: data_octets_def length_concat comp_def)
  then show "data_octets (data_frames sid data es) = length data" by (simp add: data_frames_payloads)
qed

lemma headers_frame_counts [simp]:
  "header_ids (headers_frame sid block es # fs) = sid # header_ids fs"
  "data_octets (headers_frame sid block es # fs) = data_octets fs"
  by (simp_all add: headers_frame_def header_ids_def data_octets_def)

lemma request_frames_counts [simp]:
  "header_ids (request_frames sid block body) = [sid]" "data_octets (request_frames sid block body) = length body"
  by (simp_all add: request_frames_def)

lemma write_frames_concat: "list_all wf_frame fs \<Longrightarrow> write_frames (concat (map frame_bytes fs)) = fs"
  by (simp add: write_frames_def parse_frames_concat)

lemma write_frames_data: "sid \<le> maxStreamID \<Longrightarrow> write_frames (appendData [] sid data es) = data_frames sid data es"
  by (simp add: appendData_frames write_frames_concat data_frames_wf)

lemma write_frames_AppendTo:
  "call_request req \<Longrightarrow> sid \<le> maxStreamID \<Longrightarrow>
   write_frames (AppendTo req [] sid) = request_frames sid (req_Block req) (slice_bytes (req_Body req))"
  by (simp add: write_frames_def call_request_def request_impl.parse_append_to)

lemma write_frames_Repeat:
  assumes "call_request req" and "\<And>sid. sid \<in> set (batch_ids first n) \<Longrightarrow> sid \<le> maxStreamID"
  shows "write_frames (Repeat req [] first n) =
    concat (map (\<lambda>sid. request_frames sid (req_Block req) (slice_bytes (req_Body req))) (batch_ids first n))"
  using request_impl.parse_append_all [of req "batch_ids first n"] assms
  by (simp add: write_frames_def call_request_def Repeat_append_all list_all_iff)

lemma batch_counts:
  "header_ids (concat (map (\<lambda>sid. request_frames sid block body) ids)) = ids"
  "data_octets (concat (map (\<lambda>sid. request_frames sid block body) ids)) = length ids * length body"
  by (induction ids) simp_all

lemma write_frames_headers:
  assumes "call_request req" and "sid \<le> maxStreamID"
  shows "write_frames (appendHeaders [] sid (req_Block req) False) = [headers_frame sid (req_Block req) False]"
    and "write_frames (appendData (appendHeaders [] sid (req_Block req) False) sid data False) =
      headers_frame sid (req_Block req) False # data_frames sid data False"
proof -
  have wf: "wf_frame (headers_frame sid (req_Block req) False)"
    using assms by (simp add: wf_frame_def headers_frame_def call_request_def)
  show "write_frames (appendHeaders [] sid (req_Block req) False) = [headers_frame sid (req_Block req) False]"
    using write_frames_concat [of "[headers_frame sid (req_Block req) False]"] wf
    by (simp add: appendHeaders_frame)
  show "write_frames (appendData (appendHeaders [] sid (req_Block req) False) sid data False) =
      headers_frame sid (req_Block req) False # data_frames sid data False"
    using write_frames_concat [of "headers_frame sid (req_Block req) False # data_frames sid data False"]
      wf data_frames_wf [OF assms(2)]
    by (simp add: appendHeaders_frame appendData_frames)
qed

subsection \<open>Control frames\<close>

definition control_write :: "bytes \<Rightarrow> bool" where
  "control_write buf \<longleftrightarrow> header_ids (write_frames buf) = [] \<and> data_octets (write_frames buf) = 0"

lemma control_write_frame:
  "wf_frame f \<Longrightarrow> f_type f \<noteq> frameHeaders \<Longrightarrow> f_type f \<noteq> frameData \<Longrightarrow> control_write (frame_bytes f)"
  using write_frames_concat [of "[f]"] by (simp add: control_write_def header_ids_def data_octets_def)

lemma control_writes:
  "control_write (appendSettingsAck [])" "length data = 8 \<Longrightarrow> control_write (appendPingAck [] data)"
  "control_write (appendWindowUpdate [] 0 inc)"
proof -
  show "control_write (appendSettingsAck [])"
    using control_write_frame [of "Frame frameSettings flagAck 0 []"]
    by (simp add: appendSettingsAck_def frame_bytes_def wf_frame_def)
  show "length data = 8 \<Longrightarrow> control_write (appendPingAck [] data)"
    using control_write_frame [of "Frame framePing flagAck 0 data"]
    by (simp add: appendPingAck_def frame_bytes_def wf_frame_def)
  have "frame_bytes (Frame frameWindowUpdate 0 0 (append_uint32 [] (inc AND 0x7fffffff))) =
      appendWindowUpdate [] 0 inc"
    by (simp add: appendWindowUpdate_def frame_bytes_def append_uint32_def numeral_eq_Suc)
  then show "control_write (appendWindowUpdate [] 0 inc)"
    using control_write_frame [of "Frame frameWindowUpdate 0 0 (append_uint32 [] (inc AND 0x7fffffff))"]
    by (simp add: wf_frame_def append_uint32_def)
qed

lemma read_frame_wire:
  assumes "framer_ok expect f" and "read_frame D w f cc = (e, cc')"
  shows "\<exists>bs. cc_wire cc' = cc_wire cc @ bs \<and> (\<forall>b \<in> set bs. control_write b)"
proof -
  have "cc_wire cc' = cc_wire cc \<or> (\<exists>b. cc_wire cc' = cc_wire cc @ [b] \<and> control_write b)"
    using assms
    by (cases f) (auto simp: onData_def recv_window_def onSettings_def writeControl_def conn_Write_def
        onHeaderBlock_rest control_writes Let_def split: if_splits option.splits prod.splits)
  then show ?thesis by (metis append_Nil2 empty_iff empty_set set_ConsD)
qed

section \<open>What a step of a writer puts on the wire\<close>

fun flush_buf :: "thread \<Rightarrow> bytes option" where
  "flush_buf (DoFlush r req buf n) = Some buf"
| "flush_buf (BatchFlush req n buf) = Some buf"
| "flush_buf t = None"

lemma flush_buf_holds: "holds_wmu t \<longleftrightarrow> flush_buf t \<noteq> None"
  by (cases t) auto

definition flush_frames :: "thread \<Rightarrow> frame list" where
  "flush_frames t = (case flush_buf t of None \<Rightarrow> [] | Some buf \<Rightarrow> write_frames buf)"

fun thread_request :: "thread \<Rightarrow> Request option" where
  "thread_request (DoStart req keep dstcap) = Some req"
| "thread_request (DoSlot r req) = Some req"
| "thread_request (DoOpen r req) = Some req"
| "thread_request (BatchStart req n keep) = Some req"
| "thread_request (BatchOpen req n keep) = Some req"
| "thread_request t = None"

definition open_buf :: "Request \<Rightarrow> uint32 \<Rightarrow> nat \<Rightarrow> bytes" where
  "open_buf req sid n =
     (if n = length (slice_bytes (req_Body req)) then AppendTo req [] sid
      else if n > 0 then appendData (appendHeaders [] sid (req_Block req) False) sid
             (take n (slice_bytes (req_Body req))) False
      else appendHeaders [] sid (req_Block req) False)"

lemma open_buf_counts:
  assumes "call_request req" and "sid \<le> maxStreamID" and "n \<le> length (slice_bytes (req_Body req))"
  shows "header_ids (write_frames (open_buf req sid n)) = [sid]"
    and "data_octets (write_frames (open_buf req sid n)) = n"
  using assms by (simp_all add: open_buf_def write_frames_AppendTo write_frames_headers)

text \<open>The five ways a step of a writer touches the wire and the identifiers.\<close>

inductive wire_step :: "thread \<Rightarrow> 'd ClientConn \<Rightarrow> thread \<Rightarrow> 'd ClientConn \<Rightarrow> bool" where
  quiet: "flush_buf t = None \<Longrightarrow> flush_buf t' = None \<Longrightarrow> cc_wire cc' = cc_wire cc \<Longrightarrow>
     cc_nextID cc' = cc_nextID cc \<Longrightarrow> wire_step t cc t' cc'"
| flush: "flush_buf t = Some buf \<Longrightarrow> flush_buf t' = None \<Longrightarrow> cc_wire cc' = cc_wire cc @ [buf] \<Longrightarrow>
     cc_nextID cc' = cc_nextID cc \<Longrightarrow> wire_step t cc t' cc'"
| body: "t = DoBodyFlush r rest n \<Longrightarrow> flush_buf t' = None \<Longrightarrow>
     cc_wire cc' = cc_wire cc @ [appendData [] (st_id (cc_heap cc r)) (take n rest) (n = length rest)] \<Longrightarrow>
     cc_nextID cc' = cc_nextID cc \<Longrightarrow> wire_step t cc t' cc'"
| open_one: "t = DoOpen r req \<Longrightarrow> t' = DoFlush r req (open_buf req (cc_nextID cc) n) n \<Longrightarrow>
     n \<le> length (slice_bytes (req_Body req)) \<Longrightarrow> cc_nextID cc \<le> maxStreamID \<Longrightarrow> \<not> cc_wmu cc \<Longrightarrow>
     cc_wire cc' = cc_wire cc \<Longrightarrow> cc_nextID cc' = cc_nextID cc + 2 \<Longrightarrow> wire_step t cc t' cc'"
| open_batch: "t = BatchOpen req n keep \<Longrightarrow> t' = BatchFlush req n (Repeat req [] (cc_nextID cc) (nat n)) \<Longrightarrow>
     unat (cc_nextID cc) + 2 * nat n \<le> 2 ^ 31 + 1 \<Longrightarrow> \<not> cc_wmu cc \<Longrightarrow>
     cc_wire cc' = cc_wire cc \<Longrightarrow> cc_nextID cc' = cc_nextID cc + of_nat (2 * nat n) \<Longrightarrow> wire_step t cc t' cc'"

lemma takeWindowLocked_amount:
  "fst (takeWindowLocked r n cc) \<le> n"
  "cc_connSendWindow (snd (takeWindowLocked r n cc)) = cc_connSendWindow cc - int (fst (takeWindowLocked r n cc))"
  "0 \<le> cc_connSendWindow cc \<Longrightarrow> 0 \<le> cc_connSendWindow (snd (takeWindowLocked r n cc))"
  "0 \<le> cc_connSendWindow cc \<Longrightarrow> int (fst (takeWindowLocked r n cc)) \<le> cc_connSendWindow cc"
  by (auto simp: takeWindowLocked_def Let_def)

lemma writeStream_open_wire:
  assumes "writeStream_open r req cc = Some (t', cc')"
  shows "wire_step (DoOpen r req) cc t' cc'"
proof (cases "cc_err cc = None \<and> \<not> cc_nextID cc > maxStreamID")
  case True
  define cc0 where "cc0 = upd_stream r (\<lambda>s. s\<lparr>st_sendWindow := cc_peerInitialWindow cc\<rparr>)
    ((upd_stream r (\<lambda>s. s\<lparr>st_id := cc_nextID cc\<rparr>) cc)
      \<lparr>cc_nextID := cc_nextID cc + 2, cc_streams := map_put (cc_streams cc) (cc_nextID cc) r\<rparr>)"
  obtain n cc1 where w: "takeWindowLocked r (length (slice_bytes (req_Body req))) cc0 = (n, cc1)" by fastforce
  have "t' = DoFlush r req (open_buf req (cc_nextID cc) n) n" "cc' = cc1\<lparr>cc_wmu := True\<rparr>" "\<not> cc_wmu cc"
    using assms True w
    by (auto simp: writeStream_open_def Let_def cc0_def [symmetric] open_buf_def split: if_splits)
  moreover have "cc1 = snd (takeWindowLocked r (length (slice_bytes (req_Body req))) cc0)" using w by simp
  then have "cc_wire cc1 = cc_wire cc" "cc_nextID cc1 = cc_nextID cc + 2" by (simp_all add: cc0_def)
  moreover have "n \<le> length (slice_bytes (req_Body req))"
    using takeWindowLocked_amount(1) [of r "length (slice_bytes (req_Body req))" cc0] w by simp
  ultimately show ?thesis using True by (intro wire_step.open_one) (auto simp: not_less)
next
  case False
  with assms show ?thesis
    by (intro wire_step.quiet)
      (auto simp: writeStream_open_def end_with_def conn_Close_def Let_def split: if_splits option.splits)
qed

lemma thread_step_wire:
  assumes "thread_step pick w t cc = Some (t', cc')" and "batch_ok t" and "unat (cc_nextID cc) \<le> 2 ^ 31 + 1"
  shows "wire_step t cc t' cc'"
proof (cases t)
  case (BatchOpen req n keep)
  with assms have st: "WriteBatch_open pick req n keep cc = Some (t', cc')" and n: "1 \<le> n" "n \<le> 2 ^ 20"
    by simp_all
  have "\<not> cc_wmu cc" using st by (auto simp: WriteBatch_open_def)
  with WriteBatch_open_cases [OF st assms(3) n] BatchOpen show ?thesis
    by (elim disjE exE conjE) (rule wire_step.quiet wire_step.open_batch; simp)+
next
  case (DoOpen r req)
  with assms(1) writeStream_open_wire show ?thesis by simp
next
  case (DoFlush r req buf n)
  with assms(1) show ?thesis
    by (intro wire_step.flush [where buf = buf])
      (auto simp: writeStream_flush_def conn_Write_def conn_Close_def after_write_eq)
next
  case (DoBodyFlush r rest n)
  with assms(1) show ?thesis
    by (intro wire_step.body)
      (auto simp: writeStream_bodyFlush_def conn_Write_def conn_Close_def after_write_eq Let_def split: if_splits)
next
  case (BatchFlush req n buf)
  with assms(1) show ?thesis
    by (intro wire_step.flush [where buf = buf])
      (auto simp: WriteBatch_flush_def conn_Write_def conn_Close_def Let_def split: option.splits)
qed (use assms(1) in \<open>auto intro!: wire_step.quiet simp: thread_step_defs Let_def
    split: if_splits option.splits nat.splits\<close>)

lemma thread_request_step:
  "thread_step pick w t cc = Some (t', cc') \<Longrightarrow> thread_request t' = None \<or> thread_request t' = thread_request t"
  by (cases t) (auto simp: thread_step_defs Let_def split: if_splits option.splits nat.splits)

section \<open>Stream identifiers on the wire\<close>

text \<open>The writer that holds the lock has numbered its streams and is about to write their HEADERS.\<close>

definition pending_frames :: "thread list \<Rightarrow> frame list" where
  "pending_frames ths = concat (map flush_frames ths)"

lemma concat_single:
  "i < length xs \<Longrightarrow> (\<And>j. j < length xs \<Longrightarrow> j \<noteq> i \<Longrightarrow> f (xs ! j) = []) \<Longrightarrow> concat (map f xs) = f (xs ! i)"
proof (induction xs arbitrary: i)
  case Nil
  then show ?case by simp
next
  case (Cons x xs)
  show ?case
  proof (cases i)
    case 0
    have "f y = []" if "y \<in> set xs" for y
      using that Cons.prems(2) [of "Suc _"] 0 by (auto simp: in_set_conv_nth)
    with 0 show ?thesis by (simp add: concat_eq_Nil_conv)
  next
    case (Suc k)
    have "concat (map f xs) = f (xs ! k)"
      using Cons.prems Suc by (intro Cons.IH) (auto, metis Suc_less_eq nth_Cons_Suc Suc_inject)
    moreover have "f x = []" using Cons.prems(2) [of 0] Suc by simp
    ultimately show ?thesis using Suc by simp
  qed
qed

lemma flush_frames_idle: "\<not> holds_wmu t \<Longrightarrow> flush_frames t = []"
  by (simp add: flush_frames_def flush_buf_holds)

lemma pending_free: "wmu_inv (view cc) ths \<Longrightarrow> \<not> cc_wmu cc \<Longrightarrow> pending_frames ths = []"
  by (auto simp: wmu_inv_def pending_frames_def concat_eq_Nil_conv in_set_conv_nth flush_frames_idle)

lemma pending_holder:
  assumes "wmu_inv (view cc) ths" and "i < length ths" and "\<not> cc_wmu cc \<or> holds_wmu (ths ! i)"
  shows "pending_frames (ths[i := t]) = flush_frames t" and "pending_frames ths = flush_frames (ths ! i)"
proof -
  have other: "flush_frames (ths ! j) = []" if "j < length ths" "j \<noteq> i" for j
    using assms that by (auto simp: wmu_inv_def intro: flush_frames_idle)
  show "pending_frames (ths[i := t]) = flush_frames t"
    unfolding pending_frames_def using concat_single [of i "ths[i := t]" flush_frames] assms(2) other by simp
  show "pending_frames ths = flush_frames (ths ! i)"
    unfolding pending_frames_def using concat_single [of i ths flush_frames] assms(2) other by simp
qed

definition odd_ids :: "nat \<Rightarrow> nat list" where
  "odd_ids k = map (\<lambda>i. 2 * i + 1) [0..<k]"

lemma odd_ids_add: "odd_ids (k + n) = odd_ids k @ map (\<lambda>i. 2 * k + 1 + 2 * i) [0..<n]"
  by (induction n) (simp_all add: odd_ids_def)

definition id_inv :: "'d system \<Rightarrow> bool" where
  "id_inv s \<longleftrightarrow> cc_wire (sys_cc s) \<noteq> [] \<and>
     (\<forall>t \<in> set (sys_threads s). \<forall>req. thread_request t = Some req \<longrightarrow> call_request req) \<and>
     (\<exists>k. map unat (header_ids (sent_frames (sys_cc s) @ pending_frames (sys_threads s))) = odd_ids k
        \<and> unat (cc_nextID (sys_cc s)) = 2 * k + 1)"

lemma sent_frames_write:
  "cc_wire cc \<noteq> [] \<Longrightarrow> cc_wire cc' = cc_wire cc @ [b] \<Longrightarrow> sent_frames cc' = sent_frames cc @ write_frames b"
  by (simp add: sent_frames_def)

lemma sent_frames_controls:
  assumes "cc_wire cc \<noteq> []" and "cc_wire cc' = cc_wire cc @ bs" and "\<forall>b \<in> set bs. control_write b"
  shows "header_ids (sent_frames cc') = header_ids (sent_frames cc)"
    and "data_octets (sent_frames cc') = data_octets (sent_frames cc)"
proof -
  have "header_ids (concat (map write_frames bs)) = [] \<and> data_octets (concat (map write_frames bs)) = 0"
    using assms(3) by (induction bs) (simp_all add: control_write_def)
  with assms(1,2) show "header_ids (sent_frames cc') = header_ids (sent_frames cc)"
    and "data_octets (sent_frames cc') = data_octets (sent_frames cc)"
    by (simp_all add: sent_frames_def)
qed

lemma thread_requests_update:
  assumes "\<forall>t \<in> set ths. \<forall>req. thread_request t = Some req \<longrightarrow> call_request req" and "i < length ths"
    and "thread_step pick w (ths ! i) cc = Some (t', cc')"
  shows "\<forall>t \<in> set (ths[i := t']). \<forall>req. thread_request t = Some req \<longrightarrow> call_request req"
  using assms thread_request_step [OF assms(3)]
  by (metis in_set_conv_nth length_list_update nth_list_update nth_mem option.distinct(1))

lemma pending_same:
  assumes "i < length ths" and "flush_frames t = flush_frames (ths ! i)"
  shows "pending_frames (ths[i := t]) = pending_frames ths"
proof -
  have "map flush_frames (ths[i := t]) = map flush_frames ths"
    using assms by (simp add: map_update list_update_same_conv)
  then show ?thesis by (simp add: pending_frames_def)
qed

lemma id_inv_run:
  assumes sys: "sys_inv s" and inv: "id_inv s" and i: "i < length (sys_threads s)"
    and st: "thread_step pick w (sys_threads s ! i) (sys_cc s) = Some (t, cc)"
  shows "id_inv (s\<lparr>sys_cc := cc, sys_threads := (sys_threads s)[i := t]\<rparr>)"
proof -
  let ?ths = "sys_threads s" and ?cc = "sys_cc s"
  from sys have wmu: "wmu_inv (view ?cc) ?ths" and small: "small_ids ?cc"
    and le: "unat (cc_nextID ?cc) \<le> 2 ^ 31 + 1" and odd: "odd (unat (cc_nextID ?cc))"
    and b: "batch_ok (?ths ! i)"
    using i by (auto simp: sys_inv_def conn_inv_def ids_inv_def)
  from inv obtain k where wire: "cc_wire ?cc \<noteq> []" and k: "unat (cc_nextID ?cc) = 2 * k + 1"
    and ids: "map unat (header_ids (sent_frames ?cc @ pending_frames ?ths)) = odd_ids k"
    by (auto simp: id_inv_def)
  have req: "call_request req" if "thread_request (?ths ! i) = Some req" for req
    using inv i that by (auto simp: id_inv_def)
  have "cc_wire cc \<noteq> [] \<and> (\<exists>k. map unat (header_ids (sent_frames cc @ pending_frames (?ths[i := t]))) = odd_ids k
      \<and> unat (cc_nextID cc) = 2 * k + 1)"
    using thread_step_wire [OF st b le]
  proof cases
    case quiet
    then have "pending_frames (?ths[i := t]) = pending_frames ?ths"
      by (intro pending_same [OF i]) (simp add: flush_frames_def)
    with quiet wire k ids show ?thesis by (auto simp: sent_frames_def)
  next
    case (flush buf)
    then have "holds_wmu (?ths ! i)" by (simp add: flush_buf_holds)
    with pending_holder [OF wmu i] flush have "pending_frames (?ths[i := t]) = []"
      "pending_frames ?ths = write_frames buf" by (simp_all add: flush_frames_def)
    with flush wire k ids show ?thesis by (auto simp: sent_frames_write)
  next
    case (body r rest n)
    have "st_id (cc_heap ?cc r) \<le> maxStreamID" using small by (simp add: small_ids_def)
    moreover have "pending_frames (?ths[i := t]) = pending_frames ?ths"
      using body by (intro pending_same [OF i]) (simp add: flush_frames_def)
    ultimately show ?thesis using body wire k ids by (auto simp: sent_frames_write write_frames_data)
  next
    case (open_one r req n)
    have "pending_frames (?ths[i := t]) = flush_frames t"
      using open_one by (intro pending_holder(1) [OF wmu i]) simp
    moreover have "pending_frames ?ths = []" using open_one by (intro pending_free [OF wmu]) simp
    moreover have "header_ids (flush_frames t) = [cc_nextID ?cc]"
      using open_one req by (simp add: flush_frames_def open_buf_counts)
    moreover have "unat (cc_nextID ?cc + 2) = 2 * (k + 1) + 1"
      using unat_plus_of_nat [of "cc_nextID ?cc" 2] open_one(4) k by (simp add: maxStreamID_unat)
    ultimately show ?thesis
      using open_one wire k ids odd_ids_add [of k 1] by (intro conjI exI [of _ "k + 1"]) (auto simp: sent_frames_def)
  next
    case (open_batch req n keep)
    note bb = batch_ids_bounds [OF odd open_batch(3)]
    have "header_ids (flush_frames t) = batch_ids (cc_nextID ?cc) (nat n)"
      using open_batch req batch_ids_max [OF odd open_batch(3)]
      by (simp add: flush_frames_def write_frames_Repeat batch_counts)
    moreover have "pending_frames (?ths[i := t]) = flush_frames t"
      using open_batch by (intro pending_holder(1) [OF wmu i]) simp
    moreover have "pending_frames ?ths = []" using open_batch by (intro pending_free [OF wmu]) simp
    moreover have "unat (cc_nextID ?cc + of_nat (2 * nat n)) = 2 * (k + nat n) + 1"
      using unat_plus_of_nat [of "cc_nextID ?cc" "2 * nat n"] open_batch(3) k by simp
    ultimately show ?thesis
      using open_batch wire k ids bb(3) odd_ids_add [of k "nat n"]
      by (intro conjI exI [of _ "k + nat n"]) (auto simp: sent_frames_def)
  qed
  moreover have "\<forall>t' \<in> set (?ths[i := t]). \<forall>req. thread_request t' = Some req \<longrightarrow> call_request req"
    using inv by (intro thread_requests_update [OF _ i st]) (simp add: id_inv_def)
  ultimately show ?thesis by (simp add: id_inv_def)
qed

lemma id_inv_wire:
  assumes "id_inv s" and "cc_wire cc = cc_wire (sys_cc s) @ bs" and "\<forall>b \<in> set bs. control_write b"
    and "cc_nextID cc = cc_nextID (sys_cc s)" and "sys_threads s' = sys_threads s" and "sys_cc s' = cc"
  shows "id_inv s'"
proof -
  have "cc_wire (sys_cc s) \<noteq> []" using assms(1) by (simp add: id_inv_def)
  from sent_frames_controls(1) [OF this assms(2,3)] show ?thesis using assms by (simp add: id_inv_def)
qed

lemma closes_nextID: "closes cc cc' \<Longrightarrow> map_inv (view cc) \<Longrightarrow> cc_nextID cc' = cc_nextID cc"
proof -
  assume "closes cc cc'" and m: "map_inv (view cc)"
  then obtain es where es: "set es \<subseteq> set (cc_streams cc)" "distinct es" and v: "view cc' = a_close es (view cc)"
    by (auto simp: closes_def)
  have "a_nextID (view cc') = a_nextID (view cc)"
    using es map_inv_snd_distinct [OF m] by (simp add: v a_close_eq)
  then show ?thesis by simp
qed

lemma read_frame_nextID:
  assumes "sys_inv s" and "\<not> cc_readerDone (sys_cc s)" and "read_frame D w f (sys_cc s) = (e, cc)"
  shows "cc_nextID cc = cc_nextID (sys_cc s)"
proof -
  have m: "map_inv (view (sys_cc s))" and "\<And>r. cc_hdrStream (sys_cc s) = Some r \<Longrightarrow> r \<in> a_refs (view (sys_cc s))"
    using assms(1,2) by (auto simp: sys_inv_def conn_inv_def hdr_inv_def)
  then show ?thesis using closes_read_frame [OF m _ assms(3)] closes_nextID by blast
qed

lemma readLoop_exit_nextID: "cc_nextID (readLoop_exit e cc) = cc_nextID cc"
  by (simp add: readLoop_exit_def conn_Close_def Let_def)

lemma id_inv_step:
  assumes sys: "sys_inv s" and inv: "id_inv s" and "step D s t"
  shows "id_inv t"
  using assms(3)
proof cases
  case (call t')
  then have "flush_frames t' = []" "\<And>req. thread_request t' = Some req \<Longrightarrow> call_request req"
    by (cases t'; auto simp: flush_frames_def)+
  with call inv show ?thesis by (auto simp: id_inv_def pending_frames_def)
next
  case (run i pick w t' cc)
  then show ?thesis using id_inv_run [OF sys inv] by simp
next
  case (frame f w cc)
  from read_frame_wire [OF frame(3,4)] obtain bs
    where "cc_wire cc = cc_wire (sys_cc s) @ bs" "\<forall>b \<in> set bs. control_write b" by blast
  from id_inv_wire [OF inv this read_frame_nextID [OF sys frame(2,4)]] frame(1) show ?thesis by simp
next
  case (frame_error f w e cc)
  from read_frame_wire [OF frame_error(3,4)] obtain bs
    where a: "cc_wire (readLoop_exit (Some e) cc) = cc_wire (sys_cc s) @ bs" and b: "\<forall>b \<in> set bs. control_write b"
    by (auto simp: readLoop_exit_result)
  have c: "cc_nextID (readLoop_exit (Some e) cc) = cc_nextID (sys_cc s)"
    using read_frame_nextID [OF sys frame_error(2,4)] by (simp add: readLoop_exit_nextID)
  show ?thesis using id_inv_wire [OF inv a b c] frame_error(1) by simp
next
  case (read_error e)
  then show ?thesis
    using id_inv_wire [OF inv, of "readLoop_exit (Some e) (sys_cc s)" "[]"]
    by (simp add: readLoop_exit_result readLoop_exit_nextID)
next
  case close
  then show ?thesis
    using id_inv_wire [OF inv, of "conn_Close (sys_cc s)" "[]"] by (simp add: conn_Close_def)
qed

lemma id_inv_opened: "opened s \<Longrightarrow> id_inv s"
proof (induction rule: opened.induct)
  case (start d onResult cc)
  then have "cc_wire cc = [clientPreface]" "cc_nextID cc = 1"
    by (auto simp: NewClientConn_def conn_Write_def)
  then show ?case by (simp add: id_inv_def sent_frames_def pending_frames_def odd_ids_def)
qed

interpretation ids: layered_invariant opened "step D" sys_inv id_inv for D
  by unfold_locales (use id_inv_opened id_inv_step in blast)+

lemmas reachable_id_inv = ids.layer_reach

text \<open>
  C3. The HEADERS frames on the wire open the client's streams in the order RFC 9113 section 5.1.1
  demands: 1, 3, 5 and so on with none skipped or repeated, whatever the interleaving of
  the goroutines writing them, and never past the last identifier there is.
\<close>

theorem wire_stream_ids:
  assumes "reachable D s"
  shows "\<exists>m. map unat (header_ids (sent_frames (sys_cc s))) = map (\<lambda>i. 2 * i + 1) [0..<m] \<and> 2 * m \<le> 2 ^ 31"
proof -
  from reachable_id_inv [OF assms] obtain k
    where k: "map unat (header_ids (sent_frames (sys_cc s))) @ map unat (header_ids (pending_frames (sys_threads s)))
      = odd_ids k" and n: "unat (cc_nextID (sys_cc s)) = 2 * k + 1"
    by (auto simp: id_inv_def)
  let ?m = "length (header_ids (sent_frames (sys_cc s)))"
  from arg_cong [OF k, of length] have "?m \<le> k" by (simp add: odd_ids_def)
  moreover have "unat (cc_nextID (sys_cc s)) \<le> 2 ^ 31 + 1"
    using reachable_conn_inv [OF assms] by (simp add: conn_inv_def ids_inv_def)
  moreover from arg_cong [OF k, of "take ?m"] \<open>?m \<le> k\<close>
  have "map unat (header_ids (sent_frames (sys_cc s))) = odd_ids ?m"
    by (simp add: odd_ids_def take_map)
  ultimately show ?thesis using n by (intro exI [of _ ?m]) (auto simp: odd_ids_def)
qed

theorem wire_stream_ids_witness:
  "\<exists>m. map unat (header_ids (sent_frames (sys_cc (demo_state 5)))) = map (\<lambda>i. 2 * i + 1) [0..<m] \<and> m = 1"
proof -
  obtain m where m: "map unat (header_ids (sent_frames (sys_cc (demo_state 5)))) = map (\<lambda>i. 2 * i + 1) [0..<m]"
    using wire_stream_ids [OF demo_reach(3)] by blast
  have "header_ids (sent_frames (sys_cc (demo_state 5))) = [1]"
    by (simp add: sent_frames_def demo_state_5 write_frames_AppendTo maxStreamID_def)
  with m have "length [0..<m] = 1" by (metis length_map One_nat_def list.size(3,4) plus_1_eq_Suc add.commute)
  with m show ?thesis by auto
qed

section \<open>The send window of the connection\<close>

text \<open>What the server has granted the connection beyond the 65535 bytes it starts with.\<close>

fun conn_grant :: "rframe \<Rightarrow> nat" where
  "conn_grant (WindowUpdateFrame sid increment) = (if sid = 0 then unat increment else 0)"
| "conn_grant f = 0"

definition granted :: "rframe list \<Rightarrow> nat" where
  "granted fs = sum_list (map conn_grant fs)"

text \<open>The bytes of body a writer has taken window for and not written yet.\<close>

fun claimed :: "thread \<Rightarrow> nat" where
  "claimed (DoFlush r req buf n) = data_octets (write_frames buf)"
| "claimed (DoBodyFlush r rest n) = n"
| "claimed (BatchOpen req n keep) = nat n * slice_len (req_Body req)"
| "claimed (BatchFlush req n buf) = data_octets (write_frames buf)"
| "claimed t = 0"

definition flow_inv :: "'d system \<Rightarrow> bool" where
  "flow_inv s \<longleftrightarrow> 0 \<le> cc_connSendWindow (sys_cc s) \<and>
     cc_connSendWindow (sys_cc s) + int (data_octets (sent_frames (sys_cc s)))
       + int (sum_list (map claimed (sys_threads s)))
     \<le> defaultWindow + int (granted (sys_read s))"

lemma slice_len_bytes: "slice_len body = length (slice_bytes body)"
  by (cases body) (simp_all add: slice_len_def slice_bytes_def)

lemma sum_list_update:
  "i < length xs \<Longrightarrow> sum_list (map f (xs[i := y])) + f (xs ! i) = sum_list (map f xs) + (f y :: nat)"
  by (induction xs arbitrary: i) (auto split: nat.splits)

lemma writeStream_open_window:
  assumes "writeStream_open r req cc = Some (t', cc')" and "0 \<le> cc_connSendWindow cc"
  shows "(\<exists>n. t' = DoFlush r req (open_buf req (cc_nextID cc) n) n
      \<and> cc_connSendWindow cc' = cc_connSendWindow cc - int n \<and> 0 \<le> cc_connSendWindow cc')
    \<or> t' = DoWait r \<and> cc_connSendWindow cc' = cc_connSendWindow cc"
proof (cases "cc_err cc = None \<and> \<not> cc_nextID cc > maxStreamID")
  case True
  define cc0 where "cc0 = upd_stream r (\<lambda>s. s\<lparr>st_sendWindow := cc_peerInitialWindow cc\<rparr>)
    ((upd_stream r (\<lambda>s. s\<lparr>st_id := cc_nextID cc\<rparr>) cc)
      \<lparr>cc_nextID := cc_nextID cc + 2, cc_streams := map_put (cc_streams cc) (cc_nextID cc) r\<rparr>)"
  obtain n cc1 where w: "takeWindowLocked r (length (slice_bytes (req_Body req))) cc0 = (n, cc1)" by fastforce
  have "t' = DoFlush r req (open_buf req (cc_nextID cc) n) n" "cc' = cc1\<lparr>cc_wmu := True\<rparr>"
    using assms True w
    by (auto simp: writeStream_open_def Let_def cc0_def [symmetric] open_buf_def split: if_splits)
  moreover have "cc_connSendWindow cc1 = cc_connSendWindow cc - int n \<and> 0 \<le> cc_connSendWindow cc1"
    using takeWindowLocked_amount(2,3) [where r = r and n = "length (slice_bytes (req_Body req))" and cc = cc0]
      w assms(2)
    by (simp add: cc0_def)
  ultimately show ?thesis by auto
next
  case False
  with assms show ?thesis
    by (auto simp: writeStream_open_def end_with_def conn_Close_def Let_def split: if_splits option.splits)
qed

text \<open>Window, bytes sent and bytes claimed: no step of a writer lets their sum grow.\<close>

lemma thread_step_flow:
  assumes st: "thread_step pick w t cc = Some (t', cc')" and small: "small_ids cc" and "batch_ok t"
    and inv: "ids_inv (view cc)" and wire: "cc_wire cc \<noteq> []" and win: "0 \<le> cc_connSendWindow cc"
    and req: "\<And>req. thread_request t = Some req \<Longrightarrow> call_request req"
  shows "0 \<le> cc_connSendWindow cc' \<and>
    cc_connSendWindow cc' + int (data_octets (sent_frames cc')) + int (claimed t')
    \<le> cc_connSendWindow cc + int (data_octets (sent_frames cc)) + int (claimed t)"
proof -
  have odd: "odd (unat (cc_nextID cc))" and le: "unat (cc_nextID cc) \<le> 2 ^ 31 + 1"
    using inv by (simp_all add: ids_inv_def)
  show ?thesis
    using thread_step_wire [OF st assms(3) le]
  proof cases
    case quiet
    then have "sent_frames cc' = sent_frames cc" by (simp add: sent_frames_def)
    moreover have "0 \<le> cc_connSendWindow cc' \<and>
        cc_connSendWindow cc' + int (claimed t') \<le> cc_connSendWindow cc + int (claimed t)"
      using st win quiet(1,2) assms(3)
      by (cases t) (auto simp: thread_step_defs takeWindowLocked_amount Let_def
        split: if_splits option.splits nat.splits)
    ultimately show ?thesis by simp
  next
    case (flush buf)
    then have "sent_frames cc' = sent_frames cc @ write_frames buf" using wire by (simp add: sent_frames_write)
    moreover have "claimed t = data_octets (write_frames buf)" "claimed t' = 0"
      "cc_connSendWindow cc' = cc_connSendWindow cc"
      using flush(1) st
      by (cases t; auto simp: thread_step_defs Let_def split: option.splits if_splits)+
    ultimately show ?thesis using win by simp
  next
    case (body r rest n)
    have "st_id (cc_heap cc r) \<le> maxStreamID" using small by (simp add: small_ids_def)
    then have "sent_frames cc' = sent_frames cc @ data_frames (st_id (cc_heap cc r)) (take n rest) (n = length rest)"
      using body wire by (simp add: sent_frames_write write_frames_data)
    moreover have "claimed t' = 0" "cc_connSendWindow cc' = cc_connSendWindow cc"
      using body(1) st by (auto simp: thread_step_defs Let_def split: option.splits if_splits)
    ultimately show ?thesis using win body(1) by simp
  next
    case (open_one r req n)
    then have "sent_frames cc' = sent_frames cc" by (simp add: sent_frames_def)
    moreover have "claimed t' = n" using open_one req by (simp add: open_buf_counts)
    moreover have "cc_connSendWindow cc' = cc_connSendWindow cc - int n \<and> 0 \<le> cc_connSendWindow cc'"
      using writeStream_open_window [of r req cc t' cc'] st open_one(1,2) win by auto
    ultimately show ?thesis using open_one(1) by simp
  next
    case (open_batch req n keep)
    then have "sent_frames cc' = sent_frames cc" by (simp add: sent_frames_def)
    moreover have "claimed t' = nat n * length (slice_bytes (req_Body req))"
      using open_batch req batch_ids_max [OF odd open_batch(3)]
      by (simp add: write_frames_Repeat batch_counts) (simp add: batch_ids_def)
    moreover have "cc_connSendWindow cc' = cc_connSendWindow cc"
      using st open_batch(1) by (auto simp: WriteBatch_open_def failLocked_def Let_def split: if_splits)
    ultimately show ?thesis using open_batch(1) win by (simp add: slice_len_bytes)
  qed
qed

lemma read_frame_window:
  "read_frame D w f cc = (e, cc') \<Longrightarrow> cc_connSendWindow cc' = cc_connSendWindow cc + int (conn_grant f)"
  by (cases f)
    (auto simp: writeControl_def conn_Write_def onWindowUpdate_def onSettings_rest onData_rest onHeaderBlock_rest
      split: if_splits option.splits)

lemma flow_inv_step:
  assumes sys: "sys_inv s" and ids: "id_inv s" and inv: "flow_inv s" and "step D s t"
  shows "flow_inv t"
  using assms(4)
proof cases
  case (call t')
  then have "claimed t' = 0" by (cases t') auto
  with call inv show ?thesis by (simp add: flow_inv_def)
next
  case (run i pick w t' cc)
  from sys ids run(2) have "small_ids (sys_cc s)" "batch_ok (sys_threads s ! i)" "ids_inv (view (sys_cc s))"
    "cc_wire (sys_cc s) \<noteq> []"
    "\<And>req. thread_request (sys_threads s ! i) = Some req \<Longrightarrow> call_request req"
    by (auto simp: sys_inv_def conn_inv_def id_inv_def)
  with thread_step_flow [OF run(3)] inv
  have "0 \<le> cc_connSendWindow cc \<and>
      cc_connSendWindow cc + int (data_octets (sent_frames cc)) + int (claimed t')
      \<le> cc_connSendWindow (sys_cc s) + int (data_octets (sent_frames (sys_cc s))) + int (claimed (sys_threads s ! i))"
    by (simp add: flow_inv_def)
  then show ?thesis
    using inv run(1) sum_list_update [OF run(2), of claimed t'] by (simp add: flow_inv_def)
next
  case (frame f w cc)
  from read_frame_wire [OF frame(3,4)] ids have "data_octets (sent_frames cc) = data_octets (sent_frames (sys_cc s))"
    using sent_frames_controls(2) by (metis id_inv_def)
  with frame(1) inv read_frame_window [OF frame(4)] show ?thesis by (simp add: flow_inv_def granted_def)
next
  case (frame_error f w e cc)
  from read_frame_wire [OF frame_error(3,4)] ids
  have "data_octets (sent_frames cc) = data_octets (sent_frames (sys_cc s))"
    using sent_frames_controls(2) by (metis id_inv_def)
  moreover have "conn_grant f = 0" using frame_error(4) by (cases f) auto
  ultimately show ?thesis
    using frame_error(1) inv read_frame_window [OF frame_error(4)]
    by (simp add: flow_inv_def sent_frames_def readLoop_exit_result)
next
  case (read_error e)
  with inv show ?thesis by (simp add: flow_inv_def sent_frames_def readLoop_exit_result)
next
  case close
  with inv show ?thesis by (simp add: flow_inv_def sent_frames_def conn_Close_def)
qed

lemma flow_inv_opened: "opened s \<Longrightarrow> flow_inv s"
proof (induction rule: opened.induct)
  case (start d onResult cc)
  then have "cc_wire cc = [clientPreface]" "cc_connSendWindow cc = defaultWindow"
    by (auto simp: NewClientConn_def conn_Write_def)
  then show ?case by (simp add: flow_inv_def sent_frames_def granted_def)
qed

interpretation flow: layered_invariant opened "step D" "\<lambda>s. sys_inv s \<and> id_inv s" flow_inv for D
  by unfold_locales (use flow_inv_opened flow_inv_step in blast)+

lemmas reachable_flow_inv = flow.layer_reach

text \<open>
  C2. The client never sends more than the server lets it (RFC 9113 section 6.9.1): the octets of all
  the DATA frames it has written are at most the 65535 every connection starts with and what the
  WINDOW_UPDATE frames read on stream 0 have added, whatever the interleaving of its writers.
\<close>

theorem conn_flow_control:
  assumes "reachable D s"
  shows "int (data_octets (sent_frames (sys_cc s))) \<le> defaultWindow + int (granted (sys_read s))"
  using reachable_flow_inv [OF assms] by (simp add: flow_inv_def)

theorem conn_flow_control_witness:
  "data_octets (sent_frames (sys_cc (demo_state 5))) = 1
   \<and> int (data_octets (sent_frames (sys_cc (demo_state 5)))) \<le> defaultWindow + int (granted (sys_read (demo_state 5)))"
  using conn_flow_control [OF demo_reach(3)]
  by (simp add: sent_frames_def demo_state_5 write_frames_AppendTo maxStreamID_def slice_bytes_def)

end
