(* ===== verification/ConnRecv.thy ===== *)
theory ConnRecv
  imports ConnWire "HOL-Library.Multiset"
begin

unbundle bit_operations_syntax

text \<open>
  What a connection does with what it receives: the receive window it gives back, the body and the
  status it collects for a stream, the server's settings, GOAWAY and the reader's exit.
\<close>

section \<open>The receive window\<close>

text \<open>The credit of a WINDOW_UPDATE frame for the connection, and the octets of DATA received.\<close>

fun payload_uint32 :: "bytes \<Rightarrow> nat" where
  "payload_uint32 [a, b, c, d] = unat (uint32_of_bytes a b c d AND 0x7fffffff)"
| "payload_uint32 p = 0"

definition frame_credit :: "frame \<Rightarrow> nat" where
  "frame_credit f = (if f_type f = frameWindowUpdate \<and> f_stream f = 0 then payload_uint32 (f_payload f) else 0)"

definition credit :: "frame list \<Rightarrow> nat" where
  "credit fs = sum_list (map frame_credit fs)"

fun frame_octets :: "rframe \<Rightarrow> nat" where
  "frame_octets (DataFrame sid len data ended) = len"
| "frame_octets f = 0"

definition received :: "rframe list \<Rightarrow> nat" where
  "received fs = sum_list (map frame_octets fs)"

lemma credit_append [simp]: "credit (xs @ ys) = credit xs + credit ys" and credit_Nil [simp]: "credit [] = 0"
  by (simp_all add: credit_def)

lemma credit_none: "(\<And>f. f \<in> set fs \<Longrightarrow> f_type f \<noteq> frameWindowUpdate) \<Longrightarrow> credit fs = 0"
  by (induction fs) (simp_all add: credit_def frame_credit_def)

lemma credit_data_frames [simp]: "credit (data_frames sid data es) = 0"
  by (rule credit_none) (auto dest: data_frames_types)

lemma credit_headers [simp]: "credit (headers_frame sid block es # fs) = credit fs"
  by (simp add: credit_def frame_credit_def headers_frame_def)

lemma credit_request_frames [simp]: "credit (request_frames sid block body) = 0"
  by (simp add: request_frames_def)

lemma credit_batch [simp]: "credit (concat (map (\<lambda>sid. request_frames sid block body) ids)) = 0"
  by (induction ids) simp_all

lemma credit_open_buf:
  "call_request req \<Longrightarrow> sid \<le> maxStreamID \<Longrightarrow> credit (write_frames (open_buf req sid n)) = 0"
  by (simp add: open_buf_def write_frames_AppendTo write_frames_headers)

lemma payload_append_uint32: "payload_uint32 (append_uint32 [] v) = unat (v AND 0x7fffffff)"
  by (simp add: append_uint32_def wire_simps)

lemma credit_control:
  "credit (write_frames (appendSettingsAck [])) = 0"
  "length data = 8 \<Longrightarrow> credit (write_frames (appendPingAck [] data)) = 0"
  "0 \<le> n \<Longrightarrow> n < 2 ^ 31 \<Longrightarrow> credit (write_frames (appendWindowUpdate [] 0 (word_of_int n))) = nat n"
proof -
  have single: "credit (write_frames (frame_bytes f)) = frame_credit f" if "wf_frame f" for f
    using write_frames_concat [of "[f]"] that by (simp add: credit_def)
  show "credit (write_frames (appendSettingsAck [])) = 0"
    using single [of "Frame frameSettings flagAck 0 []"]
    by (simp add: appendSettingsAck_def frame_bytes_def wf_frame_def frame_credit_def)
  show "length data = 8 \<Longrightarrow> credit (write_frames (appendPingAck [] data)) = 0"
    using single [of "Frame framePing flagAck 0 data"]
    by (simp add: appendPingAck_def frame_bytes_def wf_frame_def frame_credit_def)
  assume n: "0 \<le> n" "n < 2 ^ 31"
  let ?v = "word_of_int n :: uint32"
  let ?f = "Frame frameWindowUpdate 0 0 (append_uint32 [] (?v AND 0x7fffffff))"
  have b: "frame_bytes ?f = appendWindowUpdate [] 0 ?v"
    by (simp add: appendWindowUpdate_def frame_bytes_def append_uint32_def numeral_eq_Suc)
  have v: "unat ?v = nat n" using n by (simp add: unat_eq_nat_uint uint_word_of_int)
  then have "?v \<le> maxStreamID" using n by (simp add: maxStreamID_unat)
  then have "?v AND 0x7fffffff = ?v" by (rule and_7fffffff_id)
  then show "credit (write_frames (appendWindowUpdate [] 0 ?v)) = nat n"
    using single [of ?f] v unfolding b
    by (simp add: wf_frame_def frame_credit_def payload_append_uint32)
qed

definition recv_inv :: "'d system \<Rightarrow> bool" where
  "recv_inv s \<longleftrightarrow>
     (\<forall>t \<in> set (sys_threads s). credit (flush_frames t) = 0)
     \<and> (\<not> cc_readerDone (sys_cc s) \<longrightarrow>
          0 \<le> cc_recvConsumed (sys_cc s) \<and> cc_recvConsumed (sys_cc s) < ClientConnWindow div 2
          \<and> int (received (sys_read s)) = int (credit (sent_frames (sys_cc s))) + cc_recvConsumed (sys_cc s))"

lemma recv_window_credit:
  assumes "recv_window w len cc = (None, cc')" and "len < 2 ^ 24" and "cc_wire cc \<noteq> []"
    and "0 \<le> cc_recvConsumed cc" and "cc_recvConsumed cc < ClientConnWindow div 2"
  shows "0 \<le> cc_recvConsumed cc' \<and> cc_recvConsumed cc' < ClientConnWindow div 2
    \<and> int (credit (sent_frames cc')) + cc_recvConsumed cc' =
        int (credit (sent_frames cc)) + cc_recvConsumed cc + int len"
proof (cases "cc_recvConsumed cc + int len \<ge> ClientConnWindow div 2")
  case True
  let ?n = "cc_recvConsumed cc + int len"
  have "credit (write_frames (appendWindowUpdate [] 0 (word_of_int ?n))) = nat ?n"
    using assms(2,4,5) by (intro credit_control(3)) (simp_all add: ClientConnWindow_def)
  moreover have "cc_wire cc' = cc_wire cc @ [appendWindowUpdate [] 0 (word_of_int ?n)]" "cc_recvConsumed cc' = 0"
    using assms(1) True
    by (auto simp: recv_window_def writeControl_def conn_Write_def Let_def split: option.splits)
  ultimately show ?thesis
    using assms(3,4) by (simp add: sent_frames_write ClientConnWindow_def)
next
  case False
  with assms show ?thesis
    by (auto simp: recv_window_def Let_def sent_frames_def ClientConnWindow_def)
qed

lemma end_stream_wire [simp]: "sent_frames (end_stream r cc) = sent_frames cc"
  by (simp add: sent_frames_def)

lemma upd_stream_wire [simp]: "sent_frames (upd_stream r f cc) = sent_frames cc"
  by (simp add: sent_frames_def)

lemma read_frame_credit:
  assumes ok: "framer_ok expect f" and rf: "read_frame D w f cc = (None, cc')" and wire: "cc_wire cc \<noteq> []"
    and rc: "0 \<le> cc_recvConsumed cc" "cc_recvConsumed cc < ClientConnWindow div 2"
  shows "0 \<le> cc_recvConsumed cc' \<and> cc_recvConsumed cc' < ClientConnWindow div 2
    \<and> int (credit (sent_frames cc')) + cc_recvConsumed cc' =
        int (credit (sent_frames cc)) + cc_recvConsumed cc + int (frame_octets f)"
proof (cases f)
  case (DataFrame sid len data ended)
  obtain cc1 where w: "recv_window w len cc = (None, cc1)"
    using rf DataFrame by (auto simp: onData_def split: prod.splits option.splits)
  have "cc_recvConsumed cc' = cc_recvConsumed cc1 \<and> sent_frames cc' = sent_frames cc1"
    using rf DataFrame w by (auto simp: onData_def Let_def split: option.splits)
  with recv_window_credit [OF w _ wire rc] ok DataFrame show ?thesis by simp
next
  case (SettingsFrame ack xs)
  then show ?thesis
    using rf rc wire credit_control(1)
    by (auto simp: onSettings_def writeControl_def conn_Write_def sent_frames_def Let_def
        split: if_splits option.splits)
next
  case (PingFrame ack data)
  then show ?thesis
    using rf rc wire credit_control(2) ok
    by (auto simp: writeControl_def conn_Write_def sent_frames_def split: if_splits)
next
  case (HeadersFrame sid fragment endHeaders endStream)
  then show ?thesis using rf rc by (simp add: onHeaderBlock_rest sent_frames_def)
next
  case (ContinuationFrame sid fragment endHeaders)
  then show ?thesis using rf rc by (simp add: onHeaderBlock_rest sent_frames_def)
qed (use rf rc in \<open>auto simp: sent_frames_def\<close>)

lemma recv_inv_run:
  assumes sys: "sys_inv s" and ids: "id_inv s" and inv: "recv_inv s" and i: "i < length (sys_threads s)"
    and st: "thread_step pick w (sys_threads s ! i) (sys_cc s) = Some (t, cc)"
  shows "recv_inv (s\<lparr>sys_cc := cc, sys_threads := (sys_threads s)[i := t]\<rparr>)"
proof -
  let ?ths = "sys_threads s" and ?cc = "sys_cc s"
  from sys have small: "small_ids ?cc" and le: "unat (cc_nextID ?cc) \<le> 2 ^ 31 + 1"
    and odd: "odd (unat (cc_nextID ?cc))" and b: "batch_ok (?ths ! i)"
    using i by (auto simp: sys_inv_def conn_inv_def ids_inv_def)
  from ids have wire: "cc_wire ?cc \<noteq> []" by (simp add: id_inv_def)
  have req: "call_request req" if "thread_request (?ths ! i) = Some req" for req
    using ids i that by (auto simp: id_inv_def)
  have ti: "credit (flush_frames (?ths ! i)) = 0" using inv i by (simp add: recv_inv_def)
  have "credit (flush_frames t) = 0 \<and> credit (sent_frames cc) = credit (sent_frames ?cc)"
    using thread_step_wire [OF st b le]
  proof cases
    case (body r rest n)
    have "st_id (cc_heap ?cc r) \<le> maxStreamID" using small by (simp add: small_ids_def)
    then show ?thesis using body wire by (simp add: sent_frames_write write_frames_data flush_frames_def)
  next
    case (open_batch req n keep)
    then show ?thesis
      using req batch_ids_max [OF odd open_batch(3)]
      by (simp add: flush_frames_def write_frames_Repeat sent_frames_def)
  qed (use wire ti req in \<open>auto simp: flush_frames_def sent_frames_def sent_frames_write credit_open_buf\<close>)
  moreover have "\<forall>t' \<in> set (?ths[i := t]). credit (flush_frames t') = 0" if "credit (flush_frames t) = 0"
    using inv that by (auto simp: recv_inv_def dest!: set_update_subset_insert [THEN subsetD])
  ultimately show ?thesis using inv thread_step_rest [OF st] by (simp add: recv_inv_def)
qed

lemma recv_inv_step:
  assumes sys: "sys_inv s" and ids: "id_inv s" and inv: "recv_inv s" and "step D s t"
  shows "recv_inv t"
  using assms(4)
proof cases
  case (call t')
  then have "flush_frames t' = []" by (cases t') (auto simp: flush_frames_def)
  with call inv show ?thesis by (simp add: recv_inv_def)
next
  case (run i pick w t' cc)
  then show ?thesis using recv_inv_run [OF sys ids inv] by simp
next
  case (frame f w cc)
  have "cc_wire (sys_cc s) \<noteq> []" using ids by (simp add: id_inv_def)
  from read_frame_credit [OF frame(3,4) this] inv frame(1,2) read_frame_readerDone [OF frame(4)]
  show ?thesis by (auto simp: recv_inv_def received_def)
next
  case (frame_error f w e cc)
  then show ?thesis using inv by (simp add: recv_inv_def readLoop_exit_result)
next
  case (read_error e)
  then show ?thesis using inv by (simp add: recv_inv_def readLoop_exit_result)
next
  case close
  then show ?thesis using inv by (simp add: recv_inv_def conn_Close_def sent_frames_def)
qed

lemma recv_inv_opened: "opened s \<Longrightarrow> recv_inv s"
proof (induction rule: opened.induct)
  case (start d onResult cc)
  then have "cc_wire cc = [clientPreface]" "cc_recvConsumed cc = 0"
    by (auto simp: NewClientConn_def conn_Write_def)
  then show ?case by (simp add: recv_inv_def sent_frames_def received_def ClientConnWindow_def)
qed

interpretation recv: layered_invariant opened "step D" "\<lambda>s. sys_inv s \<and> id_inv s" recv_inv for D
  by unfold_locales (use recv_inv_opened recv_inv_step in blast)+

lemmas reachable_recv_inv = recv.layer_reach

text \<open>
  C8. The server is never starved of receive window: while the reader runs, the DATA received, padding
  included and on whatever stream, exceeds what the client's WINDOW_UPDATE frames have given back by
  less than half the connection window the preface opened.
\<close>

theorem receive_window_replenished:
  assumes "reachable D s" and "\<not> cc_readerDone (sys_cc s)"
  shows "credit (sent_frames (sys_cc s)) \<le> received (sys_read s)
    \<and> int (received (sys_read s)) < int (credit (sent_frames (sys_cc s))) + ClientConnWindow div 2"
  using reachable_recv_inv [OF assms(1)] assms(2) by (auto simp: recv_inv_def)

definition demo_data :: "unit system" where
  "demo_data =
     (case exec_event ok_decoder (Frame_In (DataFrame 1 5 [7, 7] False) None) (demo_state 5) of Some s \<Rightarrow> s)"

theorem receive_window_replenished_witness:
  "reachable ok_decoder demo_data \<and> received (sys_read demo_data) = 5
   \<and> int 5 < int (credit (sent_frames (sys_cc demo_data))) + ClientConnWindow div 2"
proof -
  have e: "exec_event ok_decoder (Frame_In (DataFrame 1 5 [7, 7] False) None) (demo_state 5) = Some demo_data"
    and d: "\<not> cc_readerDone (sys_cc demo_data)" "received (sys_read demo_data) = 5"
    by (simp_all add: demo_data_def demo_eval onData_def recv_window_def ClientConnWindow_def received_def)
  have r: "reachable ok_decoder demo_data"
    using demo_reach(3) exec_event_step [OF e] by (rule reach_move)
  with receive_window_replenished [OF r d(1)] d(2) show ?thesis by simp
qed

section \<open>The body of a response\<close>

definition add_datas :: "bytes list \<Rightarrow> stream \<Rightarrow> stream" where
  "add_datas ds s = foldl (\<lambda>s d. add_data d s) s ds"

lemma add_data_n: "st_n (add_data d s) = st_n s + int (length d)" "st_keep (add_data d s) = st_keep s"
  "st_id (add_data d s) = st_id s" "st_status (add_data d s) = st_status s" "st_done (add_data d s) = st_done s"
  by (simp_all add: add_data_def Let_def)

lemma add_datas_n: "st_n (add_datas ds s) = st_n s + int (length (concat ds))" "st_keep (add_datas ds s) = st_keep s"
  "st_id (add_datas ds s) = st_id s" "st_status (add_datas ds s) = st_status s" "st_done (add_datas ds s) = st_done s"
  by (induction ds arbitrary: s) (simp_all add: add_datas_def add_data_n)

lemma add_datas_fits:
  assumes "st_keep s" and "st_n s + int (length (concat ds)) \<le> MaxBodySize"
  shows "st_body (add_datas ds s) = st_body s @ concat ds \<and> st_err (add_datas ds s) = st_err s"
  using assms
  by (induction ds arbitrary: s) (auto simp: add_datas_def add_data_def Let_def)

lemma add_datas_err: "st_err s \<noteq> None \<Longrightarrow> st_err (add_datas ds s) \<noteq> None"
  by (induction ds arbitrary: s) (auto simp: add_datas_def add_data_def Let_def)

lemma add_datas_over:
  assumes "st_keep s" and "st_n s \<le> MaxBodySize" and "st_n s + int (length (concat ds)) > MaxBodySize"
  shows "st_err (add_datas ds s) \<noteq> None"
  using assms
proof (induction ds arbitrary: s)
  case Nil
  then show ?case by simp
next
  case (Cons d ds)
  show ?case
  proof (cases "st_n s + int (length d) > MaxBodySize")
    case True
    with Cons.prems have "st_err (add_data d s) \<noteq> None" by (auto simp: add_data_def Let_def)
    then show ?thesis using add_datas_err [of "add_data d s" ds] by (simp add: add_datas_def)
  next
    case False
    with Cons.prems Cons.IH [of "add_data d s"] show ?thesis by (simp add: add_datas_def add_data_n)
  qed
qed

lemma add_datas_bounded:
  "int (length (st_body s)) \<le> min (st_n s) MaxBodySize \<Longrightarrow> int (length (st_body (add_datas ds s))) \<le> MaxBodySize"
proof (induction ds arbitrary: s)
  case Nil
  then show ?case by (simp add: add_datas_def)
next
  case (Cons d ds)
  have "int (length (st_body (add_data d s))) \<le> min (st_n (add_data d s)) MaxBodySize"
    using Cons.prems by (auto simp: add_data_def Let_def)
  with Cons.IH [of "add_data d s"] show ?case by (simp add: add_datas_def)
qed

text \<open>
  C17. A kept body, however it is cut into DATA frames, is exactly their data in order when it is at
  most \<^const>\<open>MaxBodySize\<close> bytes and adds no error; when it is longer the stream has an error; its
  length is counted in both cases, and what is kept of it never exceeds the limit.
\<close>

theorem body_collected:
  assumes "st_keep s" and "st_n s = 0" and "st_body s = []"
  shows "st_n (add_datas ds s) = int (length (concat ds))
    \<and> int (length (st_body (add_datas ds s))) \<le> MaxBodySize
    \<and> (if int (length (concat ds)) \<le> MaxBodySize
       then st_body (add_datas ds s) = concat ds \<and> st_err (add_datas ds s) = st_err s
       else st_err (add_datas ds s) \<noteq> None)"
  using assms add_datas_fits [of s ds] add_datas_over [of s ds] add_datas_bounded [of s ds] add_datas_n(1) [of ds s]
  by (simp add: MaxBodySize_def)

theorem body_collected_witness:
  "st_body (add_datas [[1], [2, 3]] ((new_stream None)\<lparr>st_keep := True\<rparr>)) = [1, 2, 3]"
  using body_collected [of "(new_stream None)\<lparr>st_keep := True\<rparr>" "[[1], [2, 3]]"]
  by (simp add: new_stream_def MaxBodySize_def)

section \<open>A response, from its frames to the caller\<close>

text \<open>The DATA frames of a body on a stream, END_STREAM on the last.\<close>

fun body_frames :: "uint32 \<Rightarrow> bytes list \<Rightarrow> (rframe \<times> err option) list" where
  "body_frames sid [] = []"
| "body_frames sid [d] = [(DataFrame sid (length d) d True, None)]"
| "body_frames sid (d # ds) = (DataFrame sid (length d) d False, None) # body_frames sid ds"

text \<open>The stream a frame is for, as the reader finds it.\<close>

definition stream_at :: "'d ClientConn \<Rightarrow> uint32 \<Rightarrow> sref \<Rightarrow> stream \<Rightarrow> bool" where
  "stream_at cc sid r s \<longleftrightarrow> map_get (cc_streams cc) sid = Some r \<and> cc_heap cc r = s \<and> st_id s = sid"

lemma recv_window_rest:
  "recv_window None len cc = (e, cc') \<Longrightarrow>
   e = None \<and> cc_streams cc' = cc_streams cc \<and> cc_heap cc' = cc_heap cc"
  by (auto simp: recv_window_def writeControl_def conn_Write_def Let_def split: if_splits)

lemma onData_more:
  assumes "stream_at cc sid r s"
  obtains cc' where "onData None sid len d False cc = (None, cc')" "stream_at cc' sid r (add_data d s)"
proof -
  obtain e cc1 where w: "recv_window None len cc = (e, cc1)" by fastforce
  from recv_window_rest [OF w] assms show ?thesis
    using w by (intro that [of "upd_stream r (add_data d) cc1"])
      (auto simp: onData_def stream_at_def Let_def add_data_n)
qed

lemma finish_do: "st_done (cc_heap cc r) = Some k \<Longrightarrow> finish r cc = upd_stream r (\<lambda>s. s\<lparr>st_done := Some (Suc k)\<rparr>) cc"
  by (simp add: finish_def Let_def)

lemma onData_last:
  assumes "stream_at cc sid r s" and "st_done s = Some 0"
  obtains cc' where "onData None sid len d True cc = (None, cc')"
    "cc_heap cc' r = (add_data d s)\<lparr>st_done := Some 1\<rparr>" "map_get (cc_streams cc') sid = None"
proof -
  obtain e cc1 where w: "recv_window None len cc = (e, cc1)" by fastforce
  let ?cc = "upd_stream r (add_data d) cc1"
  have s: "cc_heap ?cc r = add_data d s" "map_get (cc_streams ?cc) sid = Some r" "st_id (add_data d s) = sid"
    using recv_window_rest [OF w] assms(1) by (simp_all add: stream_at_def add_data_n)
  have "end_stream r ?cc = finish r (?cc\<lparr>cc_streams := map_del (cc_streams ?cc) sid, cc_active := cc_active ?cc - 1\<rparr>)"
    using s by (simp add: end_stream_def take_stream_def)
  then have e: "end_stream r ?cc = upd_stream r (\<lambda>s. s\<lparr>st_done := Some 1\<rparr>)
      (?cc\<lparr>cc_streams := map_del (cc_streams ?cc) sid, cc_active := cc_active ?cc - 1\<rparr>)"
    using s(1) assms(2) by (simp add: finish_do add_data_n)
  show ?thesis
  proof (rule that)
    show "onData None sid len d True cc = (None, end_stream r ?cc)"
      using w s recv_window_rest [OF w] by (simp add: onData_def Let_def)
    show "cc_heap (end_stream r ?cc) r = (add_data d s)\<lparr>st_done := Some 1\<rparr>" using s(1) by (simp add: e)
    show "map_get (cc_streams (end_stream r ?cc)) sid = None"
      by (auto simp: e map_del_def map_get_def map_of_eq_None_iff)
  qed
qed

lemma read_body:
  assumes "ds \<noteq> []" and "stream_at cc sid r s" and "st_done s = Some 0"
  shows "\<exists>cc'. (\<forall>rest e. read D (body_frames sid ds @ rest) e cc = read D rest e cc')
    \<and> cc_heap cc' r = (add_datas ds s)\<lparr>st_done := Some 1\<rparr> \<and> map_get (cc_streams cc') sid = None"
  using assms
proof (induction sid ds arbitrary: cc s rule: body_frames.induct)
  case (1 sid)
  then show ?case by simp
next
  case (2 sid d)
  from onData_last [OF 2(2,3), of "length d" d] obtain cc'
    where o: "onData None sid (length d) d True cc = (None, cc')"
      and "cc_heap cc' r = (add_data d s)\<lparr>st_done := Some 1\<rparr>" "map_get (cc_streams cc') sid = None" .
  then show ?case by (intro exI [of _ cc']) (simp add: o add_datas_def)
next
  case (3 sid d d' ds)
  from onData_more [OF 3(3), of "length d" d] obtain cc'
    where o: "onData None sid (length d) d False cc = (None, cc')" and at: "stream_at cc' sid r (add_data d s)" .
  from 3(1) [OF _ at] 3(4) show ?case
    by (simp add: o add_datas_def add_data_n)
qed

lemma onHeaderField_others:
  "\<forall>f \<in> set fs. fst f \<noteq> '':status'' \<Longrightarrow> foldl (\<lambda>cc f. onHeaderField f cc) cc fs = cc"
  by (induction fs) (auto simp: onHeaderField_def)

lemma onHeaders_final:
  assumes at: "stream_at cc sid r s" and "st_status s = 0" and "200 \<le> status \<and> status \<le> 999"
    and wr: "dec_Write D (cc_dec cc) fragment = (d, ('':status'', itoa status) # fs, None)"
    and others: "\<forall>f \<in> set fs. fst f \<noteq> '':status''" and cl: "dec_Close D d = (d', None)"
  shows "\<exists>cc'. read_frame D w (HeadersFrame sid fragment True False) cc = (None, cc')
    \<and> stream_at cc' sid r (s\<lparr>st_status := status\<rparr>)"
proof -
  have "onHeaderField ('':status'', itoa status) c = c\<lparr>cc_hdrStatus := status\<rparr>" for c :: "'a ClientConn"
    using assms(3) by (simp add: onHeaderField_def atoi_itoa)
  then show ?thesis
    using assms
    by (simp add: onHeaderBlock_def startHeaders_def stream_at_def onHeaderField_others [OF others] apply_status_def)
qed

text \<open>
  C7. A complete response reaches its caller: a HEADERS frame with a final status, then DATA frames the
  last of which ends the stream, take the stream out of the map and make the \<^verbatim>\<open>Do\<close> waiting for it
  return that status, the body put together from the frames, its length and no error.
\<close>

theorem response_delivered:
  assumes "stream_at cc sid r s"
    and "st_keep s \<and> st_status s = 0 \<and> st_body s = [] \<and> st_n s = 0 \<and> st_err s = None \<and> st_done s = Some 0"
    and "dec_Write D (cc_dec cc) fragment = (d, ('':status'', itoa status) # fs, None)"
    and "\<forall>f \<in> set fs. fst f \<noteq> '':status''" and "dec_Close D d = (d', None)"
    and "200 \<le> status \<and> status \<le> 999" and "ds \<noteq> []" and "int (length (concat ds)) \<le> MaxBodySize"
  shows "\<exists>cc' cc''.
      (\<forall>rest e. read D ((HeadersFrame sid fragment True False, None) # body_frames sid ds @ rest) e cc = read D rest e cc')
    \<and> map_get (cc_streams cc') sid = None
    \<and> Do_wait r cc' = Some (DoReturn \<lparr>res_Status = status, res_Body = concat ds,
         res_N = int (length (concat ds)), res_Err = None\<rparr>, cc'')"
proof -
  let ?s = "s\<lparr>st_status := status\<rparr>"
  from onHeaders_final [OF assms(1) _ assms(6,3,4,5)] assms(2) obtain cc1
    where h: "read_frame D None (HeadersFrame sid fragment True False) cc = (None, cc1)" and at: "stream_at cc1 sid r ?s"
    by blast
  from read_body [OF assms(7) at, of D] assms(2) obtain cc'
    where b: "\<And>rest e. read D (body_frames sid ds @ rest) e cc1 = read D rest e cc'"
      and r: "cc_heap cc' r = (add_datas ds ?s)\<lparr>st_done := Some 1\<rparr>" and m: "map_get (cc_streams cc') sid = None"
    by auto
  have "st_body (add_datas ds ?s) = concat ds" "st_err (add_datas ds ?s) = None"
    using add_datas_fits [of ?s ds] assms(2,8) by simp_all
  then have "\<exists>cc''. Do_wait r cc' = Some (DoReturn \<lparr>res_Status = status, res_Body = concat ds,
      res_N = int (length (concat ds)), res_Err = None\<rparr>, cc'')"
    using assms(2) by (simp add: Do_wait_def r add_datas_n Let_def)
  with b h m show ?thesis by (auto simp del: read_frame.simps)
qed

theorem response_delivered_witness:
  "\<exists>cc' cc''. read ok_decoder [(HeadersFrame 1 [] True False, None), (DataFrame 1 2 [5, 6] False, None),
       (DataFrame 1 1 [7] True, None)] (IOErr ''EOF'') (sys_cc (demo_state 5)) = (Some (IOErr ''EOF''), cc')
     \<and> Do_wait 0 cc' = Some (DoReturn \<lparr>res_Status = 200, res_Body = [5, 6, 7], res_N = 3, res_Err = None\<rparr>, cc'')"
proof -
  let ?cc = "sys_cc (demo_state 5)"
  have i: "itoa 200 = ''200''" by (simp add: itoa_def itoa_nat.simps)
  have "stream_at ?cc 1 0 (cc_heap ?cc 0)" "st_keep (cc_heap ?cc 0)" "st_status (cc_heap ?cc 0) = 0"
    "st_body (cc_heap ?cc 0) = []" "st_n (cc_heap ?cc 0) = 0" "st_err (cc_heap ?cc 0) = None"
    by (simp_all add: stream_at_def demo_eval)
  then obtain cc' cc'' where
    rd: "\<forall>rest e. read ok_decoder ((HeadersFrame 1 [] True False, None) # body_frames 1 [[5, 6], [7]] @ rest) e ?cc
      = read ok_decoder rest e cc'"
    and dw: "Do_wait 0 cc' = Some (DoReturn \<lparr>res_Status = 200, res_Body = concat [[5, 6], [7]],
      res_N = int (length (concat [[5, 6], [7 :: byte]])), res_Err = None\<rparr>, cc'')"
    using response_delivered [of ?cc 1 0 "cc_heap ?cc 0" ok_decoder "[]" "()" 200 "[]" "()" "[[5, 6], [7]]"]
    by (auto simp: demo_state_5 i MaxBodySize_def ok_decoder_def simp del: read.simps body_frames.simps)
  show ?thesis
    using rd [rule_format, of "[]" "IOErr ''EOF''"] dw
    by (intro exI [of _ cc', OF exI [of _ cc'']]) (simp add: numeral_2_eq_2 del: read.simps(2))
qed

section \<open>Settings, GOAWAY and the reader's exit\<close>

lemma upd_fold_heap:
  "distinct (map snd es) \<Longrightarrow>
   cc_heap (foldl (\<lambda>cc e. upd_stream (snd e) f cc) cc es) r =
     (if r \<in> snd ` set es then f (cc_heap cc r) else cc_heap cc r)"
  by (induction es arbitrary: cc) auto

lemma onSetting_window:
  assumes "map_inv (view cc)" and "r \<in> snd ` set (cc_streams cc)"
  shows "st_sendWindow (cc_heap (onSetting x cc) r) - cc_peerInitialWindow (onSetting x cc) =
    st_sendWindow (cc_heap cc r) - cc_peerInitialWindow cc"
proof -
  have "distinct (map snd (cc_streams cc))"
    using map_inv_snd_distinct [OF assms(1) _ map_inv_distinct [OF assms(1)]] by simp
  then show ?thesis using assms(2) by (cases x) (simp add: onSetting_def Let_def upd_fold_heap)
qed

lemma onSetting_windows:
  assumes "map_inv (view cc)" and "r \<in> snd ` set (cc_streams cc)"
  shows "st_sendWindow (cc_heap (foldl (\<lambda>cc s. onSetting s cc) cc xs) r)
      - cc_peerInitialWindow (foldl (\<lambda>cc s. onSetting s cc) cc xs) =
    st_sendWindow (cc_heap cc r) - cc_peerInitialWindow cc"
  using assms
proof (induction xs arbitrary: cc)
  case Nil
  then show ?case by simp
next
  case (Cons x xs)
  have "cc_streams (onSetting x cc) = cc_streams cc" using view_onSetting [of x cc] by (metis view_simps(6))
  with Cons onSetting_window [OF Cons.prems] show ?case by simp
qed

text \<open>
  A SETTINGS frame moves the send window of every open stream by the change of the initial window
  size (RFC 9113 section 6.9.2), however many settings it holds and in whatever order: what a stream
  has used of its window is the same before and after, so a window may become negative but no byte
  of it is lost or granted twice.
\<close>

theorem settings_shift_windows:
  assumes "reachable D s" and "onSettings w xs (sys_cc s) = (e, cc)" and "(sid, r) \<in> set (cc_streams (sys_cc s))"
  shows "cc_peerInitialWindow cc - st_sendWindow (cc_heap cc r) =
    cc_peerInitialWindow (sys_cc s) - st_sendWindow (cc_heap (sys_cc s) r)"
proof -
  have m: "map_inv (view (sys_cc s))" using reachable_conn_inv [OF assms(1)] by (simp add: conn_inv_def)
  have "r \<in> snd ` set (cc_streams (sys_cc s))" using assms(3) by force
  from onSetting_windows [OF m this, of xs] assms(2) show ?thesis
    by (auto simp: onSettings_def writeControl_def conn_Write_def Let_def split: option.splits)
qed

theorem settings_shift_windows_witness:
  "\<exists>e cc. onSettings None [(4, 0)] (sys_cc (demo_state 5)) = (e, cc) \<and> st_sendWindow (cc_heap cc 0) = - 1"
proof -
  obtain e cc where s: "onSettings None [(4, 0)] (sys_cc (demo_state 5)) = (e, cc)" by fastforce
  have "cc_peerInitialWindow cc - st_sendWindow (cc_heap cc 0) = 1"
    using settings_shift_windows [OF demo_reach(3) s, of 1 0] by (simp add: demo_eval)
  moreover have "cc_peerInitialWindow cc = 0"
    using s by (auto simp: onSettings_def onSetting_def writeControl_def conn_Write_def Let_def)
  ultimately show ?thesis using s by auto
qed

lemma fail_one_other:
  "r \<noteq> q \<Longrightarrow> cc_heap (finish q (upd_stream q (set_err e) cc)) r = cc_heap cc r"
  by (simp add: finish_def putStream_def Let_def split: option.splits)

lemma fail_streams_other: "r \<notin> set rs \<Longrightarrow> cc_heap (fail_streams e rs cc) r = cc_heap cc r"
  by (induction rs arbitrary: cc) (simp_all add: fail_streams_def fail_one_other)

lemma fail_streams_heap:
  "distinct rs \<Longrightarrow> r \<in> set rs \<Longrightarrow> st_done (cc_heap cc r) = Some k \<Longrightarrow>
   cc_heap (fail_streams e rs cc) r = (cc_heap cc r)\<lparr>st_err := Some e, st_done := Some (Suc k)\<rparr>"
proof (induction rs arbitrary: cc)
  case Nil
  then show ?case by simp
next
  case (Cons q rs)
  show ?case
  proof (cases "q = r")
    case True
    with Cons.prems show ?thesis
      by (simp add: fail_streams_rest_step fail_streams_other finish_do set_err_def)
  next
    case False
    with Cons.prems Cons.IH [of "finish q (upd_stream q (set_err e) cc)"] show ?thesis
      by (simp add: fail_streams_rest_step fail_one_other)
  qed
qed

text \<open>
  C9. When the reader exits, every call still waiting on an open stream is answered: its \<^verbatim>\<open>Do\<close>
  returns what the stream had received and an error that wraps \<^verbatim>\<open>ErrConnClosed\<close> and the
  connection's own error, which is the first thing that went wrong.
\<close>

theorem exit_answers_waiting:
  assumes "reachable D s" and "i < length (sys_threads s)" and "sys_threads s ! i = DoWait r"
    and "r \<in> snd ` set (cc_streams (sys_cc s))"
  shows "\<exists>cc. Do_wait r (readLoop_exit (Some e) (sys_cc s)) = Some (DoReturn
      \<lparr>res_Status = st_status (cc_heap (sys_cc s) r), res_Body = st_body (cc_heap (sys_cc s) r),
       res_N = st_n (cc_heap (sys_cc s) r),
       res_Err = Some (ErrConnClosedBy (case Conn_Err (sys_cc s) of None \<Rightarrow> e | Some first \<Rightarrow> first))\<rparr>, cc)"
proof -
  let ?cc = "sys_cc s"
  have m: "map_inv (view ?cc)" and o: "owner_inv (view ?cc) (sys_threads s)"
    using reachable_conn_inv [OF assms(1)] by (simp_all add: conn_inv_def)
  have d: "st_done (cc_heap ?cc r) = Some 0"
    using owner_inv_thread(3) [OF o assms(2), of r] assms(3,4) by (simp add: a_refs_def)
  have ds: "distinct (map snd (cc_streams ?cc))"
    using map_inv_snd_distinct [OF m _ map_inv_distinct [OF m]] by simp
  have "cc_heap (readLoop_exit (Some e) ?cc) r = (cc_heap ?cc r)\<lparr>st_done := Some 1,
      st_err := Some (ErrConnClosedBy (case Conn_Err ?cc of None \<Rightarrow> e | Some first \<Rightarrow> first))\<rparr>"
    using d ds assms(4)
    by (cases "cc_err ?cc")
      (simp_all add: readLoop_exit_def failLocked_def conn_Close_def Conn_Err_def fail_streams_heap Let_def)
  then show ?thesis by (simp add: Do_wait_def Let_def)
qed

theorem exit_answers_waiting_witness:
  "\<exists>cc. Do_wait 0 (readLoop_exit (Some (IOErr ''EOF'')) (sys_cc (demo_state 5))) = Some (DoReturn
      \<lparr>res_Status = 0, res_Body = [], res_N = 0, res_Err = Some (ErrConnClosedBy (IOErr ''EOF''))\<rparr>, cc)"
proof -
  have "st_status (cc_heap (sys_cc (demo_state 5)) 0) = 0" "st_body (cc_heap (sys_cc (demo_state 5)) 0) = []"
    "st_n (cc_heap (sys_cc (demo_state 5)) 0) = 0" "cc_err (sys_cc (demo_state 5)) = None"
    by (simp_all add: demo_eval)
  with exit_answers_waiting [OF demo_reach(3), of 0 0 "IOErr ''EOF''"] show ?thesis
    by (simp add: demo_state_5 Conn_Err_def)
qed

text \<open>What failing streams does to the others' channels and pools, and to those of a batch, whose results go to \<^verbatim>\<open>OnResult\<close>.\<close>

definition failed_result :: "err \<Rightarrow> stream \<Rightarrow> Result" where
  "failed_result e s = \<lparr>res_Status = st_status s, res_Body = st_body s, res_N = st_n s, res_Err = Some e\<rparr>"

lemma finish_results:
  "cc_results (finish r (upd_stream r (set_err e) cc)) =
     cc_results cc @ (if st_done (cc_heap cc r) = None \<and> cc_hasOnResult cc then [failed_result e (cc_heap cc r)] else [])"
  by (simp add: finish_def set_err_def failed_result_def Let_def split: option.splits)

lemma fail_streams_results:
  "distinct rs \<Longrightarrow> cc_results (fail_streams e rs cc) =
     cc_results cc @ (if cc_hasOnResult cc
       then map (\<lambda>r. failed_result e (cc_heap cc r)) (filter (\<lambda>r. st_done (cc_heap cc r) = None) rs) else [])"
proof (induction rs arbitrary: cc)
  case Nil
  then show ?case by (simp add: fail_streams_def)
next
  case (Cons q rs)
  let ?cc = "finish q (upd_stream q (set_err e) cc)"
  have same: "cc_heap ?cc r = cc_heap cc r" if "r \<in> set rs" for r
    using Cons.prems that fail_one_other [of r q e cc] by auto
  have "filter (\<lambda>r. st_done (cc_heap ?cc r) = None) rs = filter (\<lambda>r. st_done (cc_heap cc r) = None) rs"
    by (rule filter_cong) (simp_all add: same)
  then have "map (\<lambda>r. failed_result e (cc_heap ?cc r)) (filter (\<lambda>r. st_done (cc_heap ?cc r) = None) rs)
      = map (\<lambda>r. failed_result e (cc_heap cc r)) (filter (\<lambda>r. st_done (cc_heap cc r) = None) rs)"
    by (auto simp: same)
  with Cons show ?case by (simp add: fail_streams_rest_step finish_results)
qed

lemma fail_streams_pool:
  "distinct rs \<Longrightarrow> cc_batchPool (fail_streams e rs cc) = rev (filter (\<lambda>r. st_done (cc_heap cc r) = None) rs) @ cc_batchPool cc"
  using arg_cong [OF view_fail_streams [of e rs cc], of a_batchPool] by (simp add: a_finish_fold)

text \<open>The error a connection has once GOAWAY is in: its first.\<close>

definition goaway_err :: "uint32 \<Rightarrow> 'd ClientConn \<Rightarrow> err" where
  "goaway_err code cc = (case cc_err cc of None \<Rightarrow> ErrGoAway code | Some first \<Rightarrow> first)"

lemma onGoAway_eq:
  "onGoAway lastID code cc = fail_streams (goaway_err code cc) (map snd (filter (\<lambda>x. fst x > lastID) (cc_streams cc)))
     (cc\<lparr>cc_err := Some (goaway_err code cc), cc_streams := filter (\<lambda>x. \<not> fst x > lastID) (cc_streams cc),
        cc_active := cc_active cc - int (length (filter (\<lambda>x. fst x > lastID) (cc_streams cc)))\<rparr>)"
proof (cases "cc_err cc")
  case None
  then show ?thesis by (simp add: onGoAway_def failLocked_def goaway_err_def Let_def)
next
  case (Some first)
  have "cc\<lparr>cc_err := cc_err cc\<rparr> = cc" by simp
  then have same: "cc\<lparr>cc_err := Some first\<rparr> = cc" by (simp only: Some)
  have "onGoAway lastID code cc = fail_streams first (map snd (filter (\<lambda>x. fst x > lastID) (cc_streams cc)))
     (cc\<lparr>cc_streams := filter (\<lambda>x. \<not> fst x > lastID) (cc_streams cc),
        cc_active := cc_active cc - int (length (filter (\<lambda>x. fst x > lastID) (cc_streams cc)))\<rparr>)"
    using Some by (simp add: onGoAway_def failLocked_def Let_def)
  then show ?thesis by (simp only: goaway_err_def Some option.case same)
qed

lemma refused_iff:
  assumes "map_inv (view cc)" and "(sid, r) \<in> set (cc_streams cc)"
  shows "r \<in> set (map snd (filter (\<lambda>x. fst x > lastID) (cc_streams cc))) \<longleftrightarrow> sid > lastID"
proof
  assume "r \<in> set (map snd (filter (\<lambda>x. fst x > lastID) (cc_streams cc)))"
  then obtain k where "(k, r) \<in> set (cc_streams cc)" "k > lastID" by auto
  with map_inv_id [OF assms(1), of k r] map_inv_id [OF assms(1), of sid r] assms(2) show "sid > lastID" by simp
qed (use assms(2) in force)

text \<open>
  C15. GOAWAY, a first one or one that follows another error, splits the open streams at the last identifier the server says
  it took. Those past it leave the map and are failed with the connection's error, which is its first: the caller of \<^verbatim>\<open>Do\<close> has its
  one value, the stream of a batch is given to \<^verbatim>\<open>OnResult\<close>, once each, and pooled. The others stay open, untouched, and may still be
  answered.
\<close>

theorem goaway_splits_streams:
  assumes "reachable D s" and "cc = sys_cc s" and "cc' = onGoAway lastID code cc" and "e = goaway_err code cc"
    and "refused = filter (\<lambda>x. fst x > lastID) (cc_streams cc)"
  shows "cc_err cc' = Some e \<and> cc_streams cc' = filter (\<lambda>x. \<not> fst x > lastID) (cc_streams cc)
    \<and> cc_active cc' = cc_active cc - int (length refused)
    \<and> (\<forall>(sid, r) \<in> set (cc_streams cc).
        if sid > lastID
        then (if st_done (cc_heap cc r) = None then r \<in> set (cc_batchPool cc')
              else cc_heap cc' r = (cc_heap cc r)\<lparr>st_err := Some e, st_done := Some 1\<rparr>)
        else cc_heap cc' r = cc_heap cc r)
    \<and> mset (cc_results cc') = mset (cc_results cc) + (if cc_hasOnResult cc
        then {# failed_result e (cc_heap cc (snd x)). x \<in># mset (filter (\<lambda>x. st_done (cc_heap cc (snd x)) = None) refused) #} else {#})"
proof (intro conjI)
  have m: "map_inv (view cc)" using reachable_conn_inv [OF assms(1)] by (simp add: conn_inv_def assms(2))
  let ?refs = "map snd refused"
  have ds: "distinct ?refs"
    using map_inv_snd_distinct [OF m, of refused] map_inv_distinct [OF m] by (auto simp: assms(5))
  note eq = onGoAway_eq [of lastID code cc, folded assms(3-5)]
  show "cc_err cc' = Some e" "cc_streams cc' = filter (\<lambda>x. \<not> fst x > lastID) (cc_streams cc)"
    "cc_active cc' = cc_active cc - int (length refused)" by (simp_all add: eq)
  show "mset (cc_results cc') = mset (cc_results cc) + (if cc_hasOnResult cc
      then {# failed_result e (cc_heap cc (snd x)). x \<in># mset (filter (\<lambda>x. st_done (cc_heap cc (snd x)) = None) refused) #} else {#})"
    unfolding eq fail_streams_results [OF ds] by (simp add: filter_map o_def mset_filter image_mset.compositionality)
  show "\<forall>(sid, r) \<in> set (cc_streams cc).
      if sid > lastID
      then (if st_done (cc_heap cc r) = None then r \<in> set (cc_batchPool cc')
            else cc_heap cc' r = (cc_heap cc r)\<lparr>st_err := Some e, st_done := Some 1\<rparr>)
      else cc_heap cc' r = cc_heap cc r"
  proof (intro ballI, clarify)
    fix sid r
    assume in_map: "(sid, r) \<in> set (cc_streams cc)"
    have r: "r \<in> set ?refs \<longleftrightarrow> sid > lastID" using refused_iff [OF m in_map, of lastID] by (simp add: assms(5))
    have d: "st_done (cc_heap cc r) \<in> {None, Some 0}"
      using open_streams_wait [OF assms(1)] in_map by (force simp: assms(2))
    have refused: "if st_done (cc_heap cc r) = None then r \<in> set (cc_batchPool cc')
        else cc_heap cc' r = (cc_heap cc r)\<lparr>st_err := Some e, st_done := Some 1\<rparr>" if "r \<in> set ?refs"
      using d that by (auto simp: eq fail_streams_pool [OF ds] fail_streams_heap [OF ds that])
    have "cc_heap cc' r = cc_heap cc r" if "r \<notin> set ?refs" using that by (simp add: eq fail_streams_other)
    with refused r show "if sid > lastID
        then (if st_done (cc_heap cc r) = None then r \<in> set (cc_batchPool cc')
              else cc_heap cc' r = (cc_heap cc r)\<lparr>st_err := Some e, st_done := Some 1\<rparr>)
        else cc_heap cc' r = cc_heap cc r"
      by simp
  qed
qed

theorem goaway_splits_streams_witness:
  "cc_streams (onGoAway 1 0 (sys_cc (demo_state 5))) \<noteq> []
   \<and> cc_err (onGoAway 1 0 (sys_cc (demo_state 5))) = Some (ErrGoAway 0)
   \<and> cc_heap (onGoAway 0 0 (sys_cc (demo_state 5))) 0 = (cc_heap (sys_cc (demo_state 5)) 0)\<lparr>st_err := Some (ErrGoAway 0), st_done := Some 1\<rparr>"
proof -
  have "cc_err (sys_cc (demo_state 5)) = None" "st_done (cc_heap (sys_cc (demo_state 5)) 0) = Some 0" by (simp_all add: demo_eval)
  with goaway_splits_streams [OF demo_reach(3) refl refl refl refl, of 1 0] goaway_splits_streams [OF demo_reach(3) refl refl refl refl, of 0 0]
  show ?thesis by (auto simp: demo_state_5 goaway_err_def)
qed

section \<open>A stream GOAWAY leaves open\<close>

text \<open>
  C18. A call can be left waiting with its request half sent. When GOAWAY comes while a \<^verbatim>\<open>Do\<close> has some of its request's body still
  to write, on a stream that the server says it took, then the stream stays open, but the call's next step is to
  wait for the response with the rest of the body unwritten, and it goes on waiting whatever window the server grants from then on.
\<close>

theorem graceful_goaway_strands_body:
  assumes "reachable D s" and "i < length (sys_threads s)" and "sys_threads s ! i = DoBody r body"
    and "(sid, r) \<in> set (cc_streams (sys_cc s))" and "\<not> sid > lastID"
    and "read_frame D w (GoAwayFrame lastID code) (sys_cc s) = (None, cc)"
  shows "(sid, r) \<in> set (cc_streams cc) \<and> cc_wire cc = cc_wire (sys_cc s)
    \<and> thread_step pick w' (DoBody r body) cc = Some (DoWait r, cc)
    \<and> thread_step pick w' (DoWait r) (onWindowUpdate 0 a (onWindowUpdate sid b cc)) = None"
proof -
  have cc: "cc = onGoAway lastID code (sys_cc s)" using assms(6) by simp
  have m: "map_inv (view (sys_cc s))" and o: "owner_inv (view (sys_cc s)) (sys_threads s)"
    using reachable_conn_inv [OF assms(1)] by (simp_all add: conn_inv_def)
  have "r \<notin> set (map snd (filter (\<lambda>x. fst x > lastID) (cc_streams (sys_cc s))))"
    using refused_iff [OF m assms(4), of lastID] assms(5) by simp
  then have heap: "cc_heap cc r = cc_heap (sys_cc s) r" by (simp add: cc onGoAway_eq fail_streams_other)
  have "st_done (cc_heap (sys_cc s) r) = Some 0"
    using owner_inv_thread(3) [OF o assms(2), of r] assms(3,4) by (force simp: a_refs_def)
  then have "st_done (cc_heap (onWindowUpdate 0 a (onWindowUpdate sid b cc)) r) = Some 0"
    using heap by (simp add: onWindowUpdate_def split: option.split)
  then have "thread_step pick w' (DoWait r) (onWindowUpdate 0 a (onWindowUpdate sid b cc)) = None" by (simp add: Do_wait_def)
  moreover have "cc_err cc \<noteq> None" "(sid, r) \<in> set (cc_streams cc)" using assms(4,5) by (simp_all add: cc onGoAway_eq)
  moreover from this(1) have "thread_step pick w' (DoBody r body) cc = Some (DoWait r, cc)"
    by (simp add: writeStream_body_def Let_def)
  ultimately show ?thesis by (simp add: cc)
qed

text \<open>A server that opens no window and lets a request with a one-byte body in.\<close>

definition goaway_schedule :: "event list" where
  "goaway_schedule = [Frame_In (SettingsFrame False [(4, 0)]) None, Call (DoStart demo_request True 0),
     Run 0 fresh_pick None, Run 0 fresh_pick None, Run 0 fresh_pick None, Run 0 fresh_pick None]"

definition goaway_state :: "unit system" where
  "goaway_state = (case exec_events ok_decoder goaway_schedule demo_start of Some s \<Rightarrow> s)"

lemma goaway_state_facts:
  "exec_events ok_decoder goaway_schedule demo_start = Some goaway_state"
  "sys_threads goaway_state = [DoBody 0 [1]]" "cc_streams (sys_cc goaway_state) = [(1, 0)]"
  by (simp_all add: goaway_state_def goaway_schedule_def demo_eval onSettings_def onSetting_def writeControl_def
      writeStream_body_def fail_streams_def)

theorem graceful_goaway_strands_body_witness:
  "sys_threads goaway_state = [DoBody 0 [1]]
   \<and> (1, 0) \<in> set (cc_streams (onGoAway 1 0 (sys_cc goaway_state)))
   \<and> thread_step fresh_pick None (DoBody 0 [1]) (onGoAway 1 0 (sys_cc goaway_state)) = Some (DoWait 0, onGoAway 1 0 (sys_cc goaway_state))"
proof -
  have "reachable ok_decoder goaway_state" by (rule demo_reachable [OF goaway_state_facts(1)])
  from graceful_goaway_strands_body [OF this, of 0 0 "[1]" 1 1 None 0 "onGoAway 1 0 (sys_cc goaway_state)" fresh_pick None]
  show ?thesis by (simp add: goaway_state_facts)
qed

end
