(* ===== verification/GoStrings.thy ===== *)
theory GoStrings
  imports Prelude
begin

text \<open>
  The functions of \<^verbatim>\<open>strings\<close>, \<^verbatim>\<open>path/filepath\<close>, \<^verbatim>\<open>net\<close> and \<^verbatim>\<open>unicode/utf8\<close>
  the repository calls, on Go strings, which are sequences of bytes. White space is ASCII white
  space, which is what the code trims from and splits on.
\<close>

section \<open>Splitting and trimming\<close>

text \<open>\<^verbatim>\<open>strings.Split\<close> by a separator of one character.\<close>

fun Split :: "string \<Rightarrow> char \<Rightarrow> string list" where
  "Split [] sep = [[]]"
| "Split (c # s) sep =
     (if c = sep then [] # Split s sep
      else case Split s sep of [] \<Rightarrow> [[c]] | w # ws \<Rightarrow> (c # w) # ws)"

definition Trim :: "string \<Rightarrow> string \<Rightarrow> string" where
  "Trim s cutset =
     rev (dropWhile (\<lambda>c. c \<in> set cutset) (rev (dropWhile (\<lambda>c. c \<in> set cutset) s)))"

definition is_space :: "char \<Rightarrow> bool" where
  "is_space c \<longleftrightarrow> (of_char c :: nat) \<in> {9, 10, 11, 12, 13, 32}"

definition TrimSpace :: "string \<Rightarrow> string" where
  "TrimSpace s = rev (dropWhile is_space (rev (dropWhile is_space s)))"

fun Fields_acc :: "string \<Rightarrow> string \<Rightarrow> string list" where
  "Fields_acc w [] = (if w = [] then [] else [w])"
| "Fields_acc w (c # s) =
     (if is_space c then (if w = [] then Fields_acc [] s else w # Fields_acc [] s)
      else Fields_acc (w @ [c]) s)"

definition Fields :: "string \<Rightarrow> string list" where
  "Fields s = Fields_acc [] s"

fun Join :: "string list \<Rightarrow> string \<Rightarrow> string" where
  "Join [] sep = []"
| "Join [s] sep = s"
| "Join (s # ss) sep = s @ sep @ Join ss sep"

definition HasPrefix :: "string \<Rightarrow> string \<Rightarrow> bool" where
  "HasPrefix s p \<longleftrightarrow> take (length p) s = p"

definition TrimPrefix :: "string \<Rightarrow> string \<Rightarrow> string" where
  "TrimPrefix s p = (if HasPrefix s p then drop (length p) s else s)"

definition spaces :: "nat \<Rightarrow> string" where
  "spaces n = replicate n CHR '' ''"

text \<open>\<^verbatim>\<open>filepath.Base\<close>\<close>

definition Base :: "string \<Rightarrow> string" where
  "Base path =
     (if path = [] then ''.''
      else let p = rev (dropWhile (\<lambda>c. c = CHR ''/'') (rev path));
               b = rev (takeWhile (\<lambda>c. c \<noteq> CHR ''/'') (rev p))
           in if b = [] then ''/'' else b)"

text \<open>\<^verbatim>\<open>net.JoinHostPort\<close>\<close>

definition JoinHostPort :: "string \<Rightarrow> string \<Rightarrow> string" where
  "JoinHostPort host port =
     (if CHR '':'' \<in> set host then ''['' @ host @ '']:'' @ port else host @ '':'' @ port)"

section \<open>Runes\<close>

text \<open>
  \<^verbatim>\<open>utf8.RuneCountInString\<close>: how many bytes the first rune of a string takes, an invalid one
  taking a single byte.
\<close>

definition in_range :: "nat \<Rightarrow> nat \<Rightarrow> char \<Rightarrow> bool" where
  "in_range lo hi c \<longleftrightarrow> lo \<le> of_char c \<and> of_char c \<le> hi"

definition cont :: "char \<Rightarrow> bool" where
  "cont = in_range 0x80 0xBF"

definition second_ok :: "char \<Rightarrow> char \<Rightarrow> bool" where
  "second_ok a b \<longleftrightarrow>
     (if in_range 0xE0 0xE0 a then in_range 0xA0 0xBF b
      else if in_range 0xED 0xED a then in_range 0x80 0x9F b
      else if in_range 0xF0 0xF0 a then in_range 0x90 0xBF b
      else if in_range 0xF4 0xF4 a then in_range 0x80 0x8F b
      else cont b)"

fun rune_len :: "string \<Rightarrow> nat" where
  "rune_len (a # b # c # d # s) =
     (if in_range 0xC2 0xDF a \<and> cont b then 2
      else if in_range 0xE0 0xEF a \<and> second_ok a b \<and> cont c then 3
      else if in_range 0xF0 0xF4 a \<and> second_ok a b \<and> cont c \<and> cont d then 4
      else 1)"
| "rune_len [a, b, c] =
     (if in_range 0xC2 0xDF a \<and> cont b then 2
      else if in_range 0xE0 0xEF a \<and> second_ok a b \<and> cont c then 3
      else 1)"
| "rune_len [a, b] = (if in_range 0xC2 0xDF a \<and> cont b then 2 else 1)"
| "rune_len s = 1"

lemma rune_len_pos: "0 < rune_len s"
  by (cases s rule: rune_len.cases) auto

function rune_count :: "string \<Rightarrow> nat" where
  "rune_count s = (if s = [] then 0 else Suc (rune_count (drop (rune_len s) s)))"
  by pat_completeness auto
termination
  by (relation "measure length") (auto simp: rune_len_pos)

declare rune_count.simps [simp del]

lemma rune_count_Nil [simp]: "rune_count [] = 0"
  by (simp add: rune_count.simps)

lemma rune_len_le: "s \<noteq> [] \<Longrightarrow> rune_len s \<le> length s"
  by (cases s rule: rune_len.cases) auto

lemma rune_len_append:
  assumes "a \<noteq> []" and "b = [] \<or> \<not> cont (hd b)"
  shows "rune_len (a @ b) = rune_len a"
proof -
  have s: "\<not> second_ok x y" if "\<not> cont y" for x y
    using that by (auto simp: second_ok_def cont_def in_range_def)
  consider x where "a = [x]" | x y where "a = [x, y]" | x y z where "a = [x, y, z]"
    | x y z w t where "a = x # y # z # w # t"
    using assms(1) by (metis list.exhaust)
  then show ?thesis
  proof cases
    case 1
    with assms(2) s show ?thesis
      by (cases b rule: rune_len.cases) auto
  next
    case 2
    with assms(2) s show ?thesis
      by (cases b rule: rune_len.cases) auto
  next
    case 3
    with assms(2) s show ?thesis by (cases b) auto
  next
    case 4
    then show ?thesis by simp
  qed
qed

text \<open>Runes of two strings put together, when the second does not start inside a rune.\<close>

lemma rune_count_append:
  "b = [] \<or> \<not> cont (hd b) \<Longrightarrow> rune_count (a @ b) = rune_count a + rune_count b"
proof (induction a rule: rune_count.induct)
  case (1 s)
  show ?case
  proof (cases "s = []")
    case False
    with 1 have "rune_len (s @ b) = rune_len s" "drop (rune_len s) (s @ b) = drop (rune_len s) s @ b"
      by (simp_all add: rune_len_append rune_len_le)
    with False 1 show ?thesis
      by (subst rune_count.simps, subst (2) rune_count.simps) simp
  qed simp
qed

lemma rune_count_ascii_Cons:
  assumes "of_char c < (0x80 :: nat)"
  shows "rune_count (c # s) = Suc (rune_count s)"
proof -
  have "rune_len (c # s) = 1" using assms by (cases "c # s" rule: rune_len.cases) (auto simp: in_range_def)
  then show ?thesis by (subst rune_count.simps) simp
qed

lemma ascii_not_cont: "of_char c < (0x80 :: nat) \<Longrightarrow> \<not> cont c"
  by (simp add: cont_def in_range_def)

lemma rune_count_spaces [simp]: "rune_count (spaces n) = n"
  by (induction n) (simp_all add: spaces_def rune_count_ascii_Cons)

section \<open>Lemmas\<close>

lemma Split_nonempty [simp]: "Split s sep \<noteq> []"
  by (cases s) (auto split: list.splits)

lemma Split_plain: "sep \<notin> set s \<Longrightarrow> Split s sep = [s]"
  by (induction s) auto

lemma Split_at: "sep \<notin> set s \<Longrightarrow> Split (s @ sep # t) sep = s # Split t sep"
  by (induction s) auto

lemma itoa_nat_no_char: "\<not> is_digit c \<Longrightarrow> c \<notin> set (itoa_nat n)"
  using itoa_nat_digits [of n] by (auto simp: list_all_iff)

lemma itoa_no_colon: "0 \<le> n \<Longrightarrow> CHR '':'' \<notin> set (itoa n)"
  using itoa_nat_no_char [of "CHR '':''" "nat n"] by (simp add: itoa_def is_digit_def)

lemma itoa_inj: "0 \<le> m \<Longrightarrow> 0 \<le> n \<Longrightarrow> itoa m = itoa n \<Longrightarrow> m = n"
  by (metis itoa_def nat_of_digits_itoa_nat not_le nat_eq_iff2 int_nat_eq)

end
