(* ===== verification/Float64.thy ===== *)
theory Float64
  imports Complex_Main "HOL-Library.Log_Nat"
begin

text \<open>
  Go's \<^verbatim>\<open>float64\<close>: the finite IEEE 754 binary64 values as the rationals they are, the two
  infinities and NaN, with every operation rounded to nearest, ties to even. A zero carries no sign:
  the code that uses this theory never divides by a zero it has not tested for, and prints no
  negative number.
\<close>

datatype float64 = NaN | PInf | NInf | Fin rat

section \<open>Rounding\<close>

text \<open>The exponent of a positive rational: \<open>2 powi e \<le> x < 2 powi (e + 1)\<close>.\<close>

definition exponent :: "rat \<Rightarrow> int" where
  "exponent x =
     (case quotient_of x of (p, q) \<Rightarrow>
        let e = bitlen p - bitlen q in if 2 powi e \<le> x then e else e - 1)"

definition round_even :: "rat \<Rightarrow> int" where
  "round_even x =
     (let r = \<lfloor>x\<rfloor>; d = x - of_int r
      in if d < 1 / 2 then r else if 1 / 2 < d then r + 1 else if even r then r else r + 1)"

text \<open>The exponent of the last place: 52 below the number's own, and no less than that of the subnormals.\<close>

definition last_place :: "rat \<Rightarrow> int" where
  "last_place x = max (exponent x - 52) (- 1074)"

definition round_pos :: "rat \<Rightarrow> rat" where
  "round_pos x = of_int (round_even (x / 2 powi last_place x)) * 2 powi last_place x"

definition round64 :: "rat \<Rightarrow> float64" where
  "round64 x =
     (if x = 0 then Fin 0
      else if 0 < x then (if round_pos x < 2 ^ 1024 then Fin (round_pos x) else PInf)
      else (if round_pos (- x) < 2 ^ 1024 then Fin (- round_pos (- x)) else NInf))"

section \<open>Operations\<close>

fun f_less :: "float64 \<Rightarrow> float64 \<Rightarrow> bool" where
  "f_less (Fin x) (Fin y) \<longleftrightarrow> x < y"
| "f_less NInf (Fin y) \<longleftrightarrow> True"
| "f_less NInf PInf \<longleftrightarrow> True"
| "f_less (Fin x) PInf \<longleftrightarrow> True"
| "f_less x y \<longleftrightarrow> False"

fun f_eq :: "float64 \<Rightarrow> float64 \<Rightarrow> bool" where
  "f_eq NaN y \<longleftrightarrow> False"
| "f_eq x y \<longleftrightarrow> x = y"

definition f_le :: "float64 \<Rightarrow> float64 \<Rightarrow> bool" where
  "f_le x y \<longleftrightarrow> f_less x y \<or> f_eq x y"

fun IsNaN :: "float64 \<Rightarrow> bool" where
  "IsNaN x \<longleftrightarrow> x = NaN"

fun IsInf :: "float64 \<Rightarrow> bool" where
  "IsInf x \<longleftrightarrow> x = PInf \<or> x = NInf"

definition f_of_int :: "int \<Rightarrow> float64" where
  "f_of_int n = round64 (of_int n)"

fun f_add :: "float64 \<Rightarrow> float64 \<Rightarrow> float64" where
  "f_add (Fin x) (Fin y) = round64 (x + y)"
| "f_add NaN y = NaN"
| "f_add x NaN = NaN"
| "f_add PInf NInf = NaN"
| "f_add NInf PInf = NaN"
| "f_add PInf y = PInf"
| "f_add NInf y = NInf"
| "f_add (Fin x) y = y"

definition inf_of :: "bool \<Rightarrow> float64" where
  "inf_of pos = (if pos then PInf else NInf)"

fun f_mul :: "float64 \<Rightarrow> float64 \<Rightarrow> float64" where
  "f_mul (Fin x) (Fin y) = round64 (x * y)"
| "f_mul NaN y = NaN"
| "f_mul x NaN = NaN"
| "f_mul (Fin x) y = (if x = 0 then NaN else inf_of ((0 < x) = (y = PInf)))"
| "f_mul x (Fin y) = (if y = 0 then NaN else inf_of ((0 < y) = (x = PInf)))"
| "f_mul x y = inf_of (x = y)"

fun f_div :: "float64 \<Rightarrow> float64 \<Rightarrow> float64" where
  "f_div NaN y = NaN"
| "f_div x NaN = NaN"
| "f_div (Fin x) (Fin y) =
     (if y = 0 then (if x = 0 then NaN else inf_of (0 < x)) else round64 (x / y))"
| "f_div (Fin x) y = Fin 0"
| "f_div x (Fin y) = inf_of ((x = PInf) = (0 \<le> y))"
| "f_div x y = NaN"

fun f_floor :: "float64 \<Rightarrow> float64" where
  "f_floor (Fin x) = Fin (of_int \<lfloor>x\<rfloor>)"
| "f_floor x = x"

text \<open>\<^verbatim>\<open>math.Max\<close>: an infinity before a NaN, a NaN before any number.\<close>

definition f_max :: "float64 \<Rightarrow> float64 \<Rightarrow> float64" where
  "f_max x y =
     (if x = PInf \<or> y = PInf then PInf else if x = NaN \<or> y = NaN then NaN
      else if f_less y x then x else y)"

text \<open>A conversion to \<^verbatim>\<open>int64\<close>, which Go leaves to the machine (\<open>None\<close>) for a value out of range.\<close>

fun int64_of :: "float64 \<Rightarrow> int option" where
  "int64_of (Fin x) =
     (let n = (if 0 \<le> x then \<lfloor>x\<rfloor> else \<lceil>x\<rceil>) in if - (2 ^ 63) \<le> n \<and> n < 2 ^ 63 then Some n else None)"
| "int64_of x = None"

section \<open>The error of rounding\<close>

lemma round_even_error: "\<bar>of_int (round_even x) - x\<bar> \<le> 1 / 2"
proof -
  have "of_int \<lfloor>x\<rfloor> \<le> x" "x < of_int \<lfloor>x\<rfloor> + 1" by linarith+
  then show ?thesis by (auto simp: round_even_def Let_def abs_le_iff)
qed

lemma round_even_of_int [simp]: "round_even (of_int n) = n"
  by (simp add: round_even_def)

lemma powi_bitlen:
  assumes "0 < n"
  shows "2 powi (bitlen n - 1) \<le> (of_int n :: rat)" and "(of_int n :: rat) < 2 powi bitlen n"
proof -
  have b: "2 ^ nat (bitlen n - 1) \<le> n" "n < 2 ^ nat (bitlen n)" using bitlen_bounds [OF assms] by auto
  have pos: "1 \<le> bitlen n" using assms by (simp add: bitlen_alt_def)
  have "(of_int (2 ^ nat (bitlen n - 1)) :: rat) \<le> of_int n" "(of_int n :: rat) < of_int (2 ^ nat (bitlen n))"
    using b by (simp_all only: of_int_le_iff of_int_less_iff)
  then show "2 powi (bitlen n - 1) \<le> (of_int n :: rat)" and "(of_int n :: rat) < 2 powi bitlen n"
    using pos by (simp_all add: power_int_def)
qed

lemma exponent_bounds:
  assumes "0 < x"
  shows "2 powi exponent x \<le> x" and "x < 2 powi (exponent x + 1)"
proof -
  obtain p q where pq: "quotient_of x = (p, q)" by fastforce
  have q: "0 < q" using quotient_of_denom_pos [OF pq] .
  have x: "x = of_int p / of_int q" using quotient_of_div [OF pq] .
  with assms q have p: "0 < p" by (simp add: zero_less_divide_iff)
  let ?e = "bitlen p - bitlen q"
  note bp = powi_bitlen [OF p] and bq = powi_bitlen [OF q]
  have "2 powi (bitlen p - 1) / 2 powi bitlen q \<le> x"
    unfolding x using bp bq q p by (intro frac_le) auto
  then have lo: "2 powi (?e - 1) \<le> x" by (simp add: power_int_diff power_int_add field_simps)
  have "x < 2 powi bitlen p / 2 powi (bitlen q - 1)"
    unfolding x using bp bq q p by (intro frac_less) auto
  then have hi: "x < 2 powi (?e + 1)" by (simp add: power_int_diff power_int_add field_simps)
  show "2 powi exponent x \<le> x" and "x < 2 powi (exponent x + 1)"
    using lo hi by (auto simp: exponent_def pq Let_def)
qed

lemma round_pos_error: "\<bar>round_pos x - x\<bar> \<le> 2 powi last_place x / 2"
proof -
  let ?u = "2 powi last_place x :: rat"
  have u: "0 < ?u" by simp
  have "round_pos x - x = (of_int (round_even (x / ?u)) - x / ?u) * ?u"
    using u by (simp add: round_pos_def field_simps)
  also have "\<bar>\<dots>\<bar> \<le> 1 / 2 * ?u"
    unfolding abs_mult using round_even_error [of "x / ?u"] u by (intro mult_mono) simp_all
  finally show ?thesis by simp
qed

text \<open>A relative error of at most \<open>2 ^ - 53\<close>, or the last place of the subnormals.\<close>

lemma round_pos_relative:
  assumes "0 < x"
  shows "\<bar>round_pos x - x\<bar> \<le> max (x / 2 ^ 53) (2 powi (- 1075))"
proof -
  have "2 powi last_place x / 2 \<le> max (x / 2 ^ 53) (2 powi (- 1075) :: rat)"
  proof (cases "exponent x - 52 \<ge> - 1074")
    case True
    then have "2 powi last_place x = (2 powi exponent x :: rat) / 2 ^ 52"
      by (simp add: last_place_def power_int_diff)
    with exponent_bounds(1) [OF assms] show ?thesis by (simp add: le_max_iff_disj field_simps)
  next
    case False
    then have "2 powi last_place x / 2 = (2 powi (- 1075) :: rat)"
      by (simp add: last_place_def power_int_minus)
    then show ?thesis by simp
  qed
  with round_pos_error [of x] show ?thesis by linarith
qed

lemma round64_near:
  assumes "0 < x" and "x \<le> 2 ^ 1020"
  obtains y where "round64 x = Fin y" and "\<bar>y - x\<bar> \<le> x / 2 ^ 53 + 2 powi (- 1075)"
proof -
  have t: "0 \<le> (2 powi (- 1075) :: rat)" "(2 powi (- 1075) :: rat) \<le> 1"
    by (simp_all add: power_int_minus field_simps)
  have near: "\<bar>round_pos x - x\<bar> \<le> x / 2 ^ 53 + 2 powi (- 1075)"
    using round_pos_relative [OF assms(1)] assms(1) t by (simp add: max_def split: if_splits)
  also have "\<dots> \<le> 2 ^ 1020 + 1"
    using t assms by (intro add_mono) (simp_all add: field_simps)
  finally have "round_pos x \<le> 2 ^ 1020 + 1 + x" by linarith
  also have "\<dots> \<le> 2 ^ 1020 + 1 + 2 ^ 1020" using assms(2) by simp
  also have "\<dots> < 2 ^ 1024" by simp
  finally have "round64 x = Fin (round_pos x)" using assms(1) by (simp add: round64_def)
  with near that show ?thesis by blast
qed

section \<open>The order\<close>

lemma f_less_asym: "f_less x y \<Longrightarrow> \<not> f_less y x"
  by (cases x; cases y) auto

lemma f_eq_iff: "x \<noteq> NaN \<Longrightarrow> f_eq x y \<longleftrightarrow> x = y"
  by (cases x) auto

lemma f_less_linear: "x \<noteq> NaN \<Longrightarrow> y \<noteq> NaN \<Longrightarrow> x \<noteq> y \<Longrightarrow> f_less x y \<or> f_less y x"
  by (cases x; cases y) auto

lemma f_less_trans: "f_less x y \<Longrightarrow> f_less y z \<Longrightarrow> f_less x z"
  by (cases x; cases y; cases z) auto

end
