(* ===== verification/Config.thy ===== *)
theory Config
  imports GoStrings Float64
begin

text \<open>
  \<^verbatim>\<open>config/config.go\<close>: the frameworks, the ports their servers listen on, the addresses clients
  reach them at, and the control requests a client reads a server's pid and resource samples with.

  What is outside the repository is a parameter: how the HTTP client's requests end
  (\<open>http_outcome\<close>, one for each attempt), and the JSON encoding and the statistics of the
  \<^verbatim>\<open>perf.PSCounter\<close> a server answers with.
\<close>

section \<open>Frameworks and their ports\<close>

definition FrameworkList :: "string list" where
  "FrameworkList = [''beego'', ''chi'', ''echo'', ''fib'', ''gin'', ''goji'', ''gorillamux'', ''h2'',
     ''hertz'', ''httprouter'', ''nethttp'']"

definition Ports :: "(string \<times> string) list" where
  "Ports =
     [(''beego'', ''2401:2450''), (''chi'', ''2452:2501''), (''echo'', ''2503:2552''),
      (''fib'', ''2554:2603''), (''gin'', ''2605:2654''), (''goji'', ''2656:2705''),
      (''gorillamux'', ''2707:2756''), (''h2'', ''2758:2807''), (''hertz'', ''2809:2858''),
      (''httprouter'', ''2860:2909''), (''nethttp'', ''2911:2960'')]"

definition Langs :: "(string \<times> string) list" where
  "Langs =
     [(''beego'', ''go''), (''chi'', ''go''), (''echo'', ''go''), (''fib'', ''go''), (''gin'', ''go''),
      (''goji'', ''go''), (''gorillamux'', ''go''), (''h2'', ''rust''), (''hertz'', ''go''),
      (''httprouter'', ''go''), (''nethttp'', ''go'')]"

definition FrameworkLang :: "string \<Rightarrow> string" where
  "FrameworkLang framework = (case map_of Langs framework of None \<Rightarrow> '''' | Some lang \<Rightarrow> lang)"

definition HasPprof :: "string \<Rightarrow> bool" where
  "HasPprof framework \<longleftrightarrow> FrameworkLang framework = ''go''"

definition EchoPath :: string where "EchoPath = ''/echo''"

datatype config_error =
    UnknownFramework string
  | BadNumber string
  | IndexPanic \<comment> \<open>\<^verbatim>\<open>bounds[1]\<close> of a range without a colon\<close>
  | HttpError string \<comment> \<open>no answer from the server\<close>
  | HttpStatus int bytes
  | BadJSON string
  | NoSamples string

definition GetFrameworkBenchmarkPorts :: "string \<Rightarrow> config_error + int list" where
  "GetFrameworkBenchmarkPorts framework =
     (case map_of Ports framework of
        None \<Rightarrow> Inl (UnknownFramework framework)
      | Some portRange \<Rightarrow>
          let bounds = Split portRange CHR '':''
          in case atoi (bounds ! 0) of
               None \<Rightarrow> Inl (BadNumber (bounds ! 0))
             | Some minPort \<Rightarrow>
                 if length bounds < 2 then Inl IndexPanic
                 else case atoi (bounds ! 1) of
                        None \<Rightarrow> Inl (BadNumber (bounds ! 1))
                      | Some maxPort \<Rightarrow> Inr [minPort..maxPort])"

definition GetFrameworkServerAddrs :: "string \<Rightarrow> config_error + string list" where
  "GetFrameworkServerAddrs framework =
     (case GetFrameworkBenchmarkPorts framework of
        Inl e \<Rightarrow> Inl e
      | Inr ports \<Rightarrow> Inr (map (\<lambda>port. '':'' @ itoa port) ports))"

text \<open>No range of \<^const>\<open>Ports\<close> is empty, so \<^verbatim>\<open>ports[len(ports)-1]\<close> never panics.\<close>

definition frameworkControlPort :: "string \<Rightarrow> config_error + int" where
  "frameworkControlPort framework =
     (case GetFrameworkBenchmarkPorts framework of
        Inl e \<Rightarrow> Inl e
      | Inr ports \<Rightarrow> if ports = [] then Inl IndexPanic else Inr (last ports + 1))"

definition GetFrameworkControlServerAddr :: "string \<Rightarrow> config_error + string" where
  "GetFrameworkControlServerAddr framework =
     (case frameworkControlPort framework of Inl e \<Rightarrow> Inl e | Inr port \<Rightarrow> Inr ('':'' @ itoa port))"

definition urlHost :: "string \<Rightarrow> string" where
  "urlHost ip = (if CHR '':'' \<in> set ip \<and> \<not> HasPrefix ip ''['' then ''['' @ ip @ '']'' else ip)"

definition GetFrameworkBenchmarkAddrs :: "string \<Rightarrow> string \<Rightarrow> config_error + string list" where
  "GetFrameworkBenchmarkAddrs framework ip =
     (case GetFrameworkBenchmarkPorts framework of
        Inl e \<Rightarrow> Inl e
      | Inr ports \<Rightarrow>
          let host = Trim ip ''[]'' in Inr (map (\<lambda>port. JoinHostPort host (itoa port)) ports))"

definition FrameworkControlAddr :: "string \<Rightarrow> string \<Rightarrow> config_error + string" where
  "FrameworkControlAddr framework ip =
     (case frameworkControlPort framework of
        Inl e \<Rightarrow> Inl e
      | Inr port \<Rightarrow> Inr (''http://'' @ urlHost ip @ '':'' @ itoa port))"

section \<open>Control requests\<close>

datatype http_outcome =
    NoReply string \<comment> \<open>the request, or reading its reply, failed\<close>
  | Reply int bytes

definition controlAttempts :: int where "controlAttempts = 4"
definition controlBackoff :: int where "controlBackoff = 2" \<comment> \<open>seconds\<close>

text \<open>\<^verbatim>\<open>controlOnce\<close>: the data, whether the server answered, and the error.\<close>

definition controlOnce :: "http_outcome \<Rightarrow> bytes option \<times> bool \<times> config_error option" where
  "controlOnce res =
     (case res of
        NoReply e \<Rightarrow> (None, False, Some (HttpError e))
      | Reply status data \<Rightarrow>
          if status \<noteq> 200 then (None, True, Some (HttpStatus status data))
          else (Some data, True, None))"

text \<open>What a run of \<^verbatim>\<open>controlRequest\<close> leaves: its result, and how long it slept before each attempt.\<close>

record control_run =
  cr_data :: "bytes option"
  cr_err :: "config_error option"
  cr_sleeps :: "int list" \<comment> \<open>one entry for each attempt, 0 for the first\<close>

function controlLoop ::
  "(int \<Rightarrow> http_outcome) \<Rightarrow> int \<Rightarrow> int \<Rightarrow> config_error option \<Rightarrow> int list \<Rightarrow> control_run" where
  "controlLoop net attempts attempt lastErr sleeps =
     (if attempt \<le> attempts then
        let sleeps = sleeps @ [if attempt > 1 then (attempt - 1) * controlBackoff else 0];
            (data, answered, err) = controlOnce (net attempt)
        in case err of
             None \<Rightarrow> \<lparr>cr_data = data, cr_err = None, cr_sleeps = sleeps\<rparr>
           | Some e \<Rightarrow>
               if answered then \<lparr>cr_data = None, cr_err = Some e, cr_sleeps = sleeps\<rparr>
               else controlLoop net attempts (attempt + 1) (Some e) sleeps
      else \<lparr>cr_data = None, cr_err = lastErr, cr_sleeps = sleeps\<rparr>)"
  by pat_completeness auto
termination
  by (relation "measure (\<lambda>(net, attempts, attempt, lastErr, sleeps). nat (attempts + 1 - attempt))") auto

declare controlLoop.simps [simp del]

definition controlRequest :: "(int \<Rightarrow> http_outcome) \<Rightarrow> int \<Rightarrow> control_run" where
  "controlRequest net attempts = controlLoop net attempts 1 None []"

text \<open>What \<^verbatim>\<open>strconv.Atoi\<close> returns with its error: the nearest \<^verbatim>\<open>int\<close> to a number out of range, and 0 for no number.\<close>

definition atoi_failed :: "string \<Rightarrow> int" where
  "atoi_failed s =
     (let ds = (if s \<noteq> [] \<and> (hd s = CHR ''-'' \<or> hd s = CHR ''+'') then tl s else s)
      in if ds = [] \<or> \<not> list_all is_digit ds then 0 else if hd s = CHR ''-'' then - (2 ^ 63) else 2 ^ 63 - 1)"

text \<open>The outcomes of requests: to an address, at each attempt.\<close>

definition InitAndGetFrameworkPid ::
  "(string \<Rightarrow> int \<Rightarrow> http_outcome) \<Rightarrow> string \<Rightarrow> string \<Rightarrow> int \<times> string \<times> config_error option" where
  "InitAndGetFrameworkPid net framework ip =
     (case FrameworkControlAddr framework ip of
        Inl e \<Rightarrow> (- 1, '''', Some e)
      | Inr pprofAddr \<Rightarrow>
          let serverAddr = pprofAddr @ ''/init'';
              run = controlRequest (net serverAddr) controlAttempts
          in case cr_err run of
               Some e \<Rightarrow> (- 1, '''', Some e)
             | None \<Rightarrow>
                 let text = TrimSpace (string_of_bytes (case cr_data run of None \<Rightarrow> [] | Some b \<Rightarrow> b))
                 in case atoi text of
                      Some pid \<Rightarrow> (pid, pprofAddr, None)
                    | None \<Rightarrow> (atoi_failed text, pprofAddr, Some (BadNumber text)))"

text \<open>
  \<^verbatim>\<open>GetFrameworkPsInfo\<close>: a counter, an error, or a counter with an error. \<open>unmarshal\<close> is the JSON
  decoder for a \<^verbatim>\<open>perf.PSCounter\<close> and \<open>cpuAvg\<close> its \<^verbatim>\<open>CPUAvg\<close>.
\<close>

definition GetFrameworkPsInfo ::
  "(bytes \<Rightarrow> 'c option) \<Rightarrow> ('c \<Rightarrow> float64) \<Rightarrow> (string \<Rightarrow> int \<Rightarrow> http_outcome) \<Rightarrow> string \<Rightarrow> string \<Rightarrow>
   'c option \<times> config_error option" where
  "GetFrameworkPsInfo unmarshal cpuAvg net framework ip =
     (case FrameworkControlAddr framework ip of
        Inl e \<Rightarrow> (None, Some e)
      | Inr controlAddr \<Rightarrow>
          let serverAddr = controlAddr @ ''/ps'';
              run = controlRequest (net serverAddr) controlAttempts
          in case cr_err run of
               Some e \<Rightarrow> (None, Some e)
             | None \<Rightarrow>
                 (case unmarshal (case cr_data run of None \<Rightarrow> [] | Some b \<Rightarrow> b) of
                    None \<Rightarrow> (None, Some (BadJSON serverAddr))
                  | Some psCounter \<Rightarrow>
                      if f_le (cpuAvg psCounter) (Fin 0) then (Some psCounter, Some (NoSamples serverAddr))
                      else (Some psCounter, None)))"

section \<open>The port plan\<close>

definition first_port :: "string \<Rightarrow> int" where
  "first_port fw =
     (case map_of (zip FrameworkList [0..<11]) fw of None \<Rightarrow> 0 | Some i \<Rightarrow> 2401 + 51 * int i)"

lemma framework_ports:
  "fw \<in> set FrameworkList \<Longrightarrow>
   GetFrameworkBenchmarkPorts fw = Inr [first_port fw..first_port fw + 49] \<and> 0 < first_port fw"
  by (auto simp: FrameworkList_def GetFrameworkBenchmarkPorts_def Ports_def atoi_def nat_of_digits_def
      is_digit_def digit_val_def first_port_def upt_rec simp del: upto_rec_numeral)

lemma framework_cases:
  "fw \<in> set FrameworkList \<Longrightarrow> \<exists>lo. GetFrameworkBenchmarkPorts fw = Inr [lo..lo + 49] \<and> 0 < lo"
  using framework_ports by blast

lemma unknown_framework:
  "fw \<notin> set FrameworkList \<Longrightarrow> GetFrameworkBenchmarkPorts fw = Inl (UnknownFramework fw)"
  by (auto simp: FrameworkList_def GetFrameworkBenchmarkPorts_def Ports_def)

text \<open>
  The ports of the servers and of their control routes are one block with no gap and no overlap:
  in framework order, each framework's fifty benchmark ports and its control port after them are
  exactly 2401 to 2961; a name that is not a framework's is refused; and each framework has a language.
\<close>

theorem ports_packed:
  "concat (map (\<lambda>fw. (case GetFrameworkBenchmarkPorts fw of Inr ports \<Rightarrow> ports | Inl e \<Rightarrow> []) @
       (case frameworkControlPort fw of Inr port \<Rightarrow> [port] | Inl e \<Rightarrow> [])) FrameworkList) = [2401..2961]
   \<and> (GetFrameworkBenchmarkPorts fw = Inl (UnknownFramework fw) \<longleftrightarrow> fw \<notin> set FrameworkList)
   \<and> (FrameworkLang fw = '''' \<longleftrightarrow> fw \<notin> set FrameworkList)"
proof -
  have "concat (map (\<lambda>fw. (case GetFrameworkBenchmarkPorts fw of Inr ports \<Rightarrow> ports | Inl e \<Rightarrow> []) @
       (case frameworkControlPort fw of Inr port \<Rightarrow> [port] | Inl e \<Rightarrow> [])) FrameworkList) = [2401..2961]"
    by code_simp
  moreover have "FrameworkLang fw = '''' \<longleftrightarrow> fw \<notin> set FrameworkList"
    by (auto simp: FrameworkLang_def Langs_def FrameworkList_def)
  ultimately show ?thesis using framework_cases [of fw] unknown_framework [of fw] by auto
qed

section \<open>Addresses\<close>

text \<open>How a dialer reads an address: the host, in brackets when it has colons, and the port after the last one.\<close>

definition split_host_port :: "string \<Rightarrow> (string \<times> string) option" where
  "split_host_port s =
     (if CHR '':'' \<notin> set s then None
      else let r = rev s;
               port = rev (takeWhile (\<lambda>c. c \<noteq> CHR '':'') r);
               host = rev (tl (dropWhile (\<lambda>c. c \<noteq> CHR '':'') r))
           in if HasPrefix host ''['' \<and> last host = CHR '']'' then Some (butlast (tl host), port)
              else if CHR '':'' \<in> set host then None else Some (host, port))"

lemma split_last_colon:
  assumes "CHR '':'' \<notin> set port"
  shows "split_host_port (h @ CHR '':'' # port) =
    (if HasPrefix h ''['' \<and> last h = CHR '']'' then Some (butlast (tl h), port)
     else if CHR '':'' \<in> set h then None else Some (h, port))"
proof -
  have "takeWhile (\<lambda>c. c \<noteq> CHR '':'') (rev (h @ CHR '':'' # port)) = rev port"
    using assms by (auto simp: takeWhile_append2 takeWhile_tail)
  moreover have "dropWhile (\<lambda>c. c \<noteq> CHR '':'') (rev (h @ CHR '':'' # port)) = CHR '':'' # rev h"
    using assms by (auto simp: dropWhile_append3 dropWhile_append2)
  ultimately show ?thesis by (simp add: split_host_port_def Let_def)
qed

lemma split_JoinHostPort:
  assumes "\<not> HasPrefix host ''[''" and "CHR '':'' \<notin> set port"
  shows "split_host_port (JoinHostPort host port) = Some (host, port)"
proof (cases "CHR '':'' \<in> set host")
  case True
  then show ?thesis
    using split_last_colon [OF assms(2), of "''['' @ host @ '']''"]
    by (simp add: JoinHostPort_def HasPrefix_def)
next
  case False
  then show ?thesis using split_last_colon [OF assms(2), of host] assms(1) by (simp add: JoinHostPort_def)
qed

lemma Trim_prefix: "c \<in> set cutset \<Longrightarrow> \<not> HasPrefix (Trim s cutset) [c]"
proof
  assume c: "c \<in> set cutset" and "HasPrefix (Trim s cutset) [c]"
  let ?u = "dropWhile (\<lambda>c. c \<in> set cutset) s"
  from \<open>HasPrefix _ _\<close> obtain t where t: "Trim s cutset = c # t"
    by (cases "Trim s cutset") (auto simp: HasPrefix_def)
  obtain v where u: "?u = Trim s cutset @ v"
    by (metis Trim_def rev_append rev_rev_ident takeWhile_dropWhile_id)
  then have "?u \<noteq> []" "hd ?u = c" unfolding u t by simp_all
  with c hd_dropWhile [of "\<lambda>c. c \<in> set cutset" s] show False by simp
qed

text \<open>
  C37. A client dials what the server listens on: for every framework and every host, an IPv6 address
  with or without brackets included, the fifty addresses it dials are distinct, each reads back as
  that host and a port, and their ports are in order those the server listens on.
\<close>

theorem client_dials_server_ports:
  assumes "fw \<in> set FrameworkList"
  shows "\<exists>dialed served. GetFrameworkBenchmarkAddrs fw ip = Inr dialed \<and> GetFrameworkServerAddrs fw = Inr served
    \<and> length dialed = 50 \<and> distinct dialed
    \<and> map split_host_port dialed = map (\<lambda>addr. Some (Trim ip ''[]'', drop 1 addr)) served"
proof -
  from framework_cases [OF assms] obtain lo
    where ports: "GetFrameworkBenchmarkPorts fw = Inr [lo..lo + 49]" and lo: "0 < lo" by blast
  let ?host = "Trim ip ''[]''"
  let ?dialed = "map (\<lambda>port. JoinHostPort ?host (itoa port)) [lo..lo + 49]"
  have sp: "split_host_port (JoinHostPort ?host (itoa port)) = Some (?host, itoa port)"
    if "port \<in> set [lo..lo + 49]" for port
    using that lo by (intro split_JoinHostPort Trim_prefix itoa_no_colon) auto
  have "inj_on (\<lambda>port. JoinHostPort ?host (itoa port)) (set [lo..lo + 49])"
  proof (rule inj_onI)
    fix p q assume "p \<in> set [lo..lo + 49]" "q \<in> set [lo..lo + 49]"
      and eq: "JoinHostPort ?host (itoa p) = JoinHostPort ?host (itoa q)"
    then have "itoa p = itoa q" using sp by (metis option.inject prod.inject)
    with \<open>p \<in> _\<close> \<open>q \<in> _\<close> lo show "p = q" by (intro itoa_inj) auto
  qed
  then have "distinct ?dialed" by (simp add: distinct_map)
  moreover have "map split_host_port ?dialed =
      map (\<lambda>addr. Some (?host, drop 1 addr)) (map (\<lambda>port. '':'' @ itoa port) [lo..lo + 49])"
    using sp by simp
  ultimately show ?thesis
    by (intro exI [of _ ?dialed, OF exI])
      (auto simp: GetFrameworkBenchmarkAddrs_def GetFrameworkServerAddrs_def ports)
qed

theorem client_dials_server_ports_witness:
  "\<exists>dialed served. GetFrameworkBenchmarkAddrs ''fib'' ''[::1]'' = Inr dialed
    \<and> GetFrameworkServerAddrs ''fib'' = Inr served
    \<and> map split_host_port dialed = map (\<lambda>addr. Some (''::1'', drop 1 addr)) served"
proof -
  have "Trim ''[::1]'' ''[]'' = ''::1''" by (simp add: Trim_def)
  with client_dials_server_ports [of "''fib''" "''[::1]''"] show ?thesis by (auto simp: FrameworkList_def)
qed

section \<open>Retrying a control request\<close>

fun replied :: "http_outcome \<Rightarrow> bool" where
  "replied (NoReply e) \<longleftrightarrow> False"
| "replied (Reply status data) \<longleftrightarrow> True"

lemma controlLoop_failures:
  assumes "1 \<le> a" and "a \<le> k" and "k \<le> n + 1" and "\<forall>j. a \<le> j \<and> j < k \<longrightarrow> \<not> replied (net j)"
  shows "controlLoop net n a le sl = controlLoop net n k
    (if a = k then le else snd (snd (controlOnce (net (k - 1))))) (sl @ map (\<lambda>j. (j - 1) * controlBackoff) [a..k - 1])"
  using assms
proof (induction "nat (k - a)" arbitrary: a le sl)
  case 0
  then have "a = k" by simp
  then show ?case by simp
next
  case (Suc m)
  then have "a < k" by simp
  then obtain e where e: "net a = NoReply e" using Suc.prems(4) by (cases "net a") auto
  have "controlLoop net n a le sl =
      controlLoop net n (a + 1) (Some (HttpError e)) (sl @ [(a - 1) * controlBackoff])"
    using \<open>a < k\<close> Suc.prems(1,3) by (subst controlLoop.simps) (simp add: controlOnce_def e)
  also have "\<dots> = controlLoop net n k
      (if a + 1 = k then Some (HttpError e) else snd (snd (controlOnce (net (k - 1)))))
      ((sl @ [(a - 1) * controlBackoff]) @ map (\<lambda>j. (j - 1) * controlBackoff) [a + 1..k - 1])"
    using Suc.prems Suc.hyps(2) \<open>a < k\<close> by (intro Suc.hyps(1)) auto
  finally show ?case
    using \<open>a < k\<close> e by (auto simp: upto_rec1 [of a "k - 1"] controlOnce_def)
qed

lemma controlLoop_Reply:
  assumes "net k = Reply status data" and "k \<le> n"
  shows "controlLoop net n k le sl = (let sl = sl @ [if k > 1 then (k - 1) * controlBackoff else 0]
        in if status = 200 then \<lparr>cr_data = Some data, cr_err = None, cr_sleeps = sl\<rparr>
           else \<lparr>cr_data = None, cr_err = Some (HttpStatus status data), cr_sleeps = sl\<rparr>)"
  using assms by (subst controlLoop.simps) (simp add: controlOnce_def Let_def)

lemma controlRequest_replied:
  assumes "1 \<le> k" and "k \<le> n" and "\<forall>j. 1 \<le> j \<and> j < k \<longrightarrow> \<not> replied (net j)" and "net k = Reply 200 data"
  shows "cr_data (controlRequest net n) = Some data" and "cr_err (controlRequest net n) = None"
  using controlLoop_failures [of 1 k n net None "[]"] controlLoop_Reply [of net k 200 data n] assms
  by (simp_all add: controlRequest_def Let_def)

text \<open>
  C36. A control request is retried until the server answers and no longer: it makes attempts up to and
  including the first the server replies to, sleeping two seconds more before each, and returns the
  body of a 200 or the error of any other status; when none of its attempts is answered it makes all
  of them and returns the error of the last.
\<close>

theorem controlRequest_retries:
  assumes "1 \<le> k" and "k \<le> n" and "\<forall>j. 1 \<le> j \<and> j < k \<longrightarrow> \<not> replied (net j)" and "replied (net k) \<or> k = n"
  shows "cr_sleeps (controlRequest net n) = map (\<lambda>j. (j - 1) * 2) [1..k]
    \<and> (case net k of
         Reply status data \<Rightarrow>
           if status = 200 then cr_data (controlRequest net n) = Some data \<and> cr_err (controlRequest net n) = None
           else cr_data (controlRequest net n) = None \<and> cr_err (controlRequest net n) = Some (HttpStatus status data)
       | NoReply e \<Rightarrow> cr_data (controlRequest net n) = None \<and> cr_err (controlRequest net n) = Some (HttpError e))"
proof -
  have k: "controlRequest net n = controlLoop net n k
      (if 1 = k then None else snd (snd (controlOnce (net (k - 1))))) (map (\<lambda>j. (j - 1) * controlBackoff) [1..k - 1])"
    using controlLoop_failures [of 1 k n net None "[]"] assms by (simp add: controlRequest_def)
  have sleeps: "map (\<lambda>j. (j - 1) * controlBackoff) [1..k - 1] @ [if k > 1 then (k - 1) * controlBackoff else 0] =
      map (\<lambda>j. (j - 1) * 2) [1..k]"
    using assms(1) by (simp add: upto_rec2 [of 1 k] controlBackoff_def)
  show ?thesis
  proof (cases "net k")
    case (Reply status data)
    then show ?thesis unfolding k controlLoop_Reply [of net k status data, OF Reply assms(2)]
      using sleeps by (simp add: Let_def)
  next
    case (NoReply e)
    with assms have "k = n" by simp
    then have "controlLoop net n (k + 1) (Some (HttpError e)) sl =
        \<lparr>cr_data = None, cr_err = Some (HttpError e), cr_sleeps = sl\<rparr>" for sl
      by (subst controlLoop.simps) simp
    with NoReply have "controlLoop net n k le sl = \<lparr>cr_data = None, cr_err = Some (HttpError e),
        cr_sleeps = sl @ [if k > 1 then (k - 1) * controlBackoff else 0]\<rparr>" for le sl
      using assms(2) by (subst controlLoop.simps) (simp add: controlOnce_def Let_def)
    then show ?thesis unfolding k using sleeps NoReply by simp
  qed
qed

theorem controlRequest_retries_witness:
  "cr_sleeps (controlRequest (\<lambda>i. if i < 3 then NoReply ''reset'' else Reply 200 [52, 50]) 4) = [0, 2, 4]
   \<and> cr_data (controlRequest (\<lambda>i. if i < 3 then NoReply ''reset'' else Reply 200 [52, 50]) 4) = Some [52, 50]"
  using controlRequest_retries [of 3 4 "\<lambda>i. if i < 3 then NoReply ''reset'' else Reply 200 [52, 50]"]
  by (auto simp: upto.simps)

end
