(* ===== verification/Report.thy ===== *)
theory Report
  imports Config
begin

text \<open>
  The three reports of a run (\<^verbatim>\<open>benchcli-go/report/*_report.go\<close>), their columns
  (\<^verbatim>\<open>parsing.go\<close>) and how they are ranked (\<^verbatim>\<open>reporter.go\<close>).

  The Go code reads a report's columns off its struct by reflection, so a report here is a record
  together with its reflection: the list of its fields in the order they are declared, each with its
  tags, its type and its value. The two number formats of \<^verbatim>\<open>github.com/lesismal/perf\<close> are
  parameters (\<open>perf_fmt\<close>).
\<close>

section \<open>Structs by reflection\<close>

record field =
  fd_name :: string
  fd_type :: string
  fd_md :: string
  fd_fmt :: string
  fd_summary :: string
  fd_tpn :: string
  fd_rank :: string

datatype fvalue = VStr string | VInt int | VUint nat | VFloat float64 | VBytes "bytes option"

type_synonym struct = "(field \<times> fvalue) list"

fun type_name :: "fvalue \<Rightarrow> bool \<Rightarrow> string" where
  "type_name (VStr s) w64 = ''string''"
| "type_name (VInt n) w64 = (if w64 then ''int64'' else ''int'')"
| "type_name (VUint n) w64 = ''uint64''"
| "type_name (VFloat x) w64 = ''float64''"
| "type_name (VBytes b) w64 = ''''"

text \<open>A field with its \<^verbatim>\<open>md\<close> tag, and the tags some fields have besides.\<close>

definition fd :: "string \<Rightarrow> string \<Rightarrow> fvalue \<Rightarrow> field \<times> fvalue" where
  "fd name md v =
     (\<lparr>fd_name = name, fd_type = type_name v True, fd_md = md, fd_fmt = '''', fd_summary = '''',
       fd_tpn = '''', fd_rank = ''''\<rparr>, v)"

definition tag_int :: "field \<times> fvalue \<Rightarrow> field \<times> fvalue" where
  "tag_int f = ((fst f)\<lparr>fd_type := type_name (snd f) False\<rparr>, snd f)"

definition tag_fmt :: "string \<Rightarrow> field \<times> fvalue \<Rightarrow> field \<times> fvalue" where
  "tag_fmt t f = ((fst f)\<lparr>fd_fmt := t\<rparr>, snd f)"

definition tag_summary :: "string \<Rightarrow> field \<times> fvalue \<Rightarrow> field \<times> fvalue" where
  "tag_summary t f = ((fst f)\<lparr>fd_summary := t\<rparr>, snd f)"

definition tag_tpn :: "field \<times> fvalue \<Rightarrow> field \<times> fvalue" where
  "tag_tpn f = ((fst f)\<lparr>fd_tpn := ''opt''\<rparr>, snd f)"

definition tag_rank :: "string \<Rightarrow> field \<times> fvalue \<Rightarrow> field \<times> fvalue" where
  "tag_rank t f = ((fst f)\<lparr>fd_rank := t\<rparr>, snd f)"

lemmas field_tags = fd_def tag_int_def tag_fmt_def tag_summary_def tag_tpn_def tag_rank_def

section \<open>The reports\<close>

record ConnectionsReport =
  cn_Framework :: string
  cn_Lang :: string
  cn_BenchClient :: string
  cn_TPS :: int
  cn_Min :: int
  cn_Avg :: int
  cn_Max :: int
  cn_TP50 :: int
  cn_TP75 :: int
  cn_TP90 :: int
  cn_TP95 :: int
  cn_TP99 :: int
  cn_Used :: int
  cn_Total :: int
  cn_Success :: int
  cn_Failed :: int
  cn_Concurrency :: int
  cn_MaxStreams :: int

definition cn_struct :: "ConnectionsReport \<Rightarrow> struct" where
  "cn_struct r =
     [fd ''Framework'' ''Framework'' (VStr (cn_Framework r)),
      fd ''Lang'' ''Lang'' (VStr (cn_Lang r)),
      tag_summary ''Client'' (tag_fmt ''client'' (fd ''BenchClient'' ''Client'' (VStr (cn_BenchClient r)))),
      tag_rank ''1'' (fd ''TPS'' ''TPS'' (VInt (cn_TPS r))),
      tag_tpn (tag_fmt ''duration'' (fd ''Min'' ''Min'' (VInt (cn_Min r)))),
      tag_tpn (tag_fmt ''duration'' (fd ''Avg'' ''Avg'' (VInt (cn_Avg r)))),
      tag_tpn (tag_fmt ''duration'' (fd ''Max'' ''Max'' (VInt (cn_Max r)))),
      tag_tpn (tag_fmt ''duration'' (fd ''TP50'' ''-'' (VInt (cn_TP50 r)))),
      tag_tpn (tag_fmt ''duration'' (fd ''TP75'' ''-'' (VInt (cn_TP75 r)))),
      tag_tpn (tag_fmt ''duration'' (fd ''TP90'' ''-'' (VInt (cn_TP90 r)))),
      tag_tpn (tag_fmt ''duration'' (fd ''TP95'' ''TP95'' (VInt (cn_TP95 r)))),
      tag_tpn (tag_fmt ''duration'' (fd ''TP99'' ''TP99'' (VInt (cn_TP99 r)))),
      tag_fmt ''duration'' (fd ''Used'' ''Used'' (VInt (cn_Used r))),
      tag_int (fd ''Total'' ''Total'' (VInt (cn_Total r))),
      fd ''Success'' ''Success'' (VInt (cn_Success r)),
      fd ''Failed'' ''Failed'' (VInt (cn_Failed r)),
      tag_summary ''Dial Concurrency'' (tag_int (fd ''Concurrency'' ''Concurrency'' (VInt (cn_Concurrency r)))),
      tag_summary ''Max Streams'' (tag_int (fd ''MaxStreams'' ''MaxStreams'' (VInt (cn_MaxStreams r))))]"

record BenchEchoReport =
  be_Framework :: string
  be_Lang :: string
  be_BenchClient :: string
  be_TPS :: int
  be_EER :: float64
  be_MEMEER :: float64
  be_Min :: int
  be_Avg :: int
  be_Max :: int
  be_TP50 :: int
  be_TP75 :: int
  be_TP90 :: int
  be_TP95 :: int
  be_TP99 :: int
  be_Used :: int
  be_Total :: int
  be_Success :: int
  be_Failed :: int
  be_Connections :: int
  be_Concurrency :: int
  be_Streams :: int
  be_Payload :: int
  be_Pprof :: string
  be_CPUMin :: float64
  be_CPUAvg :: float64
  be_CPUMax :: float64
  be_MEMRSSMin :: nat
  be_MEMRSSAvg :: nat
  be_MEMRSSMax :: nat
  be_pprofDataCPU :: "bytes option"
  be_pprofDataMEM :: "bytes option"

definition be_struct :: "BenchEchoReport \<Rightarrow> struct" where
  "be_struct r =
     [fd ''Framework'' ''Framework'' (VStr (be_Framework r)),
      fd ''Lang'' ''Lang'' (VStr (be_Lang r)),
      tag_summary ''Client'' (tag_fmt ''client'' (fd ''BenchClient'' ''Client'' (VStr (be_BenchClient r)))),
      tag_rank ''1'' (fd ''TPS'' ''TPS'' (VInt (be_TPS r))),
      tag_rank ''2'' (fd ''EER'' ''CPU EER'' (VFloat (be_EER r))),
      tag_rank ''3'' (fd ''MEMEER'' ''MEM EER'' (VFloat (be_MEMEER r))),
      tag_tpn (tag_fmt ''duration'' (fd ''Min'' ''Min'' (VInt (be_Min r)))),
      tag_tpn (tag_fmt ''duration'' (fd ''Avg'' ''Avg'' (VInt (be_Avg r)))),
      tag_tpn (tag_fmt ''duration'' (fd ''Max'' ''Max'' (VInt (be_Max r)))),
      tag_tpn (tag_fmt ''duration'' (fd ''TP50'' ''-'' (VInt (be_TP50 r)))),
      tag_tpn (tag_fmt ''duration'' (fd ''TP75'' ''-'' (VInt (be_TP75 r)))),
      tag_tpn (tag_fmt ''duration'' (fd ''TP90'' ''-'' (VInt (be_TP90 r)))),
      tag_tpn (tag_fmt ''duration'' (fd ''TP95'' ''TP95'' (VInt (be_TP95 r)))),
      tag_tpn (tag_fmt ''duration'' (fd ''TP99'' ''TP99'' (VInt (be_TP99 r)))),
      tag_fmt ''duration'' (fd ''Used'' ''Used'' (VInt (be_Used r))),
      tag_summary ''Echo Total'' (tag_int (fd ''Total'' ''Total'' (VInt (be_Total r)))),
      fd ''Success'' ''Success'' (VInt (be_Success r)),
      fd ''Failed'' ''Failed'' (VInt (be_Failed r)),
      tag_summary ''Conns'' (tag_int (fd ''Connections'' ''Conns'' (VInt (be_Connections r)))),
      tag_summary ''Echo Concurrency'' (tag_int (fd ''Concurrency'' ''Concurrency'' (VInt (be_Concurrency r)))),
      tag_summary ''Echo Streams'' (tag_int (fd ''Streams'' ''Streams'' (VInt (be_Streams r)))),
      tag_summary ''Payload'' (tag_int (fd ''Payload'' ''Payload'' (VInt (be_Payload r)))),
      tag_summary ''Echo Pprof'' (fd ''Pprof'' ''-'' (VStr (be_Pprof r))),
      tag_fmt ''cpu'' (fd ''CPUMin'' ''-'' (VFloat (be_CPUMin r))),
      tag_fmt ''cpu'' (fd ''CPUAvg'' ''CPU Avg'' (VFloat (be_CPUAvg r))),
      tag_fmt ''cpu'' (fd ''CPUMax'' ''CPU Max'' (VFloat (be_CPUMax r))),
      tag_fmt ''mem'' (fd ''MEMRSSMin'' ''-'' (VUint (be_MEMRSSMin r))),
      tag_fmt ''mem'' (fd ''MEMRSSAvg'' ''MEM Avg'' (VUint (be_MEMRSSAvg r))),
      tag_fmt ''mem'' (fd ''MEMRSSMax'' ''MEM Max'' (VUint (be_MEMRSSMax r))),
      tag_fmt ''-'' (fd ''pprofDataCPU'' ''-'' (VBytes (be_pprofDataCPU r))),
      tag_fmt ''-'' (fd ''pprofDataMEM'' ''-'' (VBytes (be_pprofDataMEM r)))]"

record BenchRateReport =
  br_Framework :: string
  br_Lang :: string
  br_BenchClient :: string
  br_Duration :: int
  br_TPS :: int
  br_EchoEER :: float64
  br_MEMEER :: float64
  br_SendTimes :: int
  br_SendBytes :: int
  br_RecvTimes :: int
  br_RecvBytes :: int
  br_Connections :: int
  br_Concurrency :: int
  br_SendRate :: int
  br_Batch :: int
  br_Payload :: int
  br_Pprof :: string
  br_CPUMin :: float64
  br_CPUAvg :: float64
  br_CPUMax :: float64
  br_MEMRSSMin :: nat
  br_MEMRSSAvg :: nat
  br_MEMRSSMax :: nat
  br_pprofDataCPU :: "bytes option"
  br_pprofDataMEM :: "bytes option"

definition br_struct :: "BenchRateReport \<Rightarrow> struct" where
  "br_struct r =
     [fd ''Framework'' ''Framework'' (VStr (br_Framework r)),
      fd ''Lang'' ''Lang'' (VStr (br_Lang r)),
      tag_summary ''Client'' (tag_fmt ''client'' (fd ''BenchClient'' ''Client'' (VStr (br_BenchClient r)))),
      tag_summary ''Rate Duration'' (tag_fmt ''duration'' (fd ''Duration'' ''Duration'' (VInt (br_Duration r)))),
      tag_rank ''1'' (fd ''TPS'' ''TPS'' (VInt (br_TPS r))),
      tag_rank ''2'' (fd ''EchoEER'' ''CPU EER'' (VFloat (br_EchoEER r))),
      tag_rank ''3'' (fd ''MEMEER'' ''MEM EER'' (VFloat (br_MEMEER r))),
      fd ''SendTimes'' ''Req Sent'' (VInt (br_SendTimes r)),
      tag_fmt ''mem'' (fd ''SendBytes'' ''Bytes Sent'' (VInt (br_SendBytes r))),
      fd ''RecvTimes'' ''Resp Recv'' (VInt (br_RecvTimes r)),
      tag_fmt ''mem'' (fd ''RecvBytes'' ''Bytes Recv'' (VInt (br_RecvBytes r))),
      tag_summary ''Conns'' (tag_int (fd ''Connections'' ''Conns'' (VInt (br_Connections r)))),
      tag_summary ''Rate Concurrency'' (tag_int (fd ''Concurrency'' ''Concurrency'' (VInt (br_Concurrency r)))),
      tag_summary ''Rate SendRate'' (tag_int (fd ''SendRate'' ''SendRate'' (VInt (br_SendRate r)))),
      tag_summary ''Rate Batch'' (tag_int (fd ''Batch'' ''Batch'' (VInt (br_Batch r)))),
      tag_summary ''Payload'' (tag_int (fd ''Payload'' ''Payload'' (VInt (br_Payload r)))),
      tag_summary ''Rate Pprof'' (fd ''Pprof'' ''-'' (VStr (br_Pprof r))),
      tag_fmt ''cpu'' (fd ''CPUMin'' ''-'' (VFloat (br_CPUMin r))),
      tag_fmt ''cpu'' (fd ''CPUAvg'' ''CPU Avg'' (VFloat (br_CPUAvg r))),
      tag_fmt ''cpu'' (fd ''CPUMax'' ''CPU Max'' (VFloat (br_CPUMax r))),
      tag_fmt ''mem'' (fd ''MEMRSSMin'' ''-'' (VUint (br_MEMRSSMin r))),
      tag_fmt ''mem'' (fd ''MEMRSSAvg'' ''MEM Avg'' (VUint (br_MEMRSSAvg r))),
      tag_fmt ''mem'' (fd ''MEMRSSMax'' ''MEM Max'' (VUint (br_MEMRSSMax r))),
      tag_fmt ''-'' (fd ''pprofDataCPU'' ''-'' (VBytes (br_pprofDataCPU r))),
      tag_fmt ''-'' (fd ''pprofDataMEM'' ''-'' (VBytes (br_pprofDataMEM r)))]"

datatype Report = ConnR ConnectionsReport | EchoR BenchEchoReport | RateR BenchRateReport

fun report_struct :: "Report \<Rightarrow> struct" where
  "report_struct (ConnR r) = cn_struct r"
| "report_struct (EchoR r) = be_struct r"
| "report_struct (RateR r) = br_struct r"

definition BenchMultiplexName :: string where "BenchMultiplexName = ''BenchMultiplex''"

fun Type :: "Report \<Rightarrow> string" where
  "Type (ConnR r) = ''Connections''"
| "Type (EchoR r) = ''BenchEcho''"
| "Type (RateR r) = BenchMultiplexName"

fun report_Framework :: "Report \<Rightarrow> string" where
  "report_Framework (ConnR r) = cn_Framework r"
| "report_Framework (EchoR r) = be_Framework r"
| "report_Framework (RateR r) = br_Framework r"

fun Name :: "Report \<Rightarrow> string" where
  "Name (ConnR r) = cn_Framework r @ ''-Connections''"
| "Name (EchoR r) = be_Framework r @ ''-BenchEcho''"
| "Name (RateR r) = br_Framework r @ ''-'' @ BenchMultiplexName"

fun PprofCPU :: "Report \<Rightarrow> bytes option" where
  "PprofCPU (ConnR r) = None"
| "PprofCPU (EchoR r) = be_pprofDataCPU r"
| "PprofCPU (RateR r) = br_pprofDataCPU r"

fun PprofMEM :: "Report \<Rightarrow> bytes option" where
  "PprofMEM (ConnR r) = None"
| "PprofMEM (EchoR r) = be_pprofDataMEM r"
| "PprofMEM (RateR r) = br_pprofDataMEM r"

definition be_SetPprofData :: "bytes option \<Rightarrow> bytes option \<Rightarrow> BenchEchoReport \<Rightarrow> BenchEchoReport" where
  "be_SetPprofData cpu mem r = r\<lparr>be_pprofDataCPU := cpu, be_pprofDataMEM := mem\<rparr>"

definition br_SetPprofData :: "bytes option \<Rightarrow> bytes option \<Rightarrow> BenchRateReport \<Rightarrow> BenchRateReport" where
  "br_SetPprofData cpu mem r = r\<lparr>br_pprofDataCPU := cpu, br_pprofDataMEM := mem\<rparr>"

section \<open>Empty reports\<close>

text \<open>What the \<^verbatim>\<open>create\<close> functions of \<^verbatim>\<open>reporter.go\<close> make: the framework, its language, and zeros.\<close>

definition create_Connections :: "string \<Rightarrow> ConnectionsReport" where
  "create_Connections framework =
     \<lparr>cn_Framework = framework, cn_Lang = FrameworkLang framework, cn_BenchClient = '''', cn_TPS = 0,
      cn_Min = 0, cn_Avg = 0, cn_Max = 0, cn_TP50 = 0, cn_TP75 = 0, cn_TP90 = 0, cn_TP95 = 0, cn_TP99 = 0,
      cn_Used = 0, cn_Total = 0, cn_Success = 0, cn_Failed = 0, cn_Concurrency = 0, cn_MaxStreams = 0\<rparr>"

definition create_BenchEcho :: "string \<Rightarrow> BenchEchoReport" where
  "create_BenchEcho framework =
     \<lparr>be_Framework = framework, be_Lang = FrameworkLang framework, be_BenchClient = '''', be_TPS = 0,
      be_EER = Fin 0, be_MEMEER = Fin 0, be_Min = 0, be_Avg = 0, be_Max = 0, be_TP50 = 0, be_TP75 = 0,
      be_TP90 = 0, be_TP95 = 0, be_TP99 = 0, be_Used = 0, be_Total = 0, be_Success = 0, be_Failed = 0,
      be_Connections = 0, be_Concurrency = 0, be_Streams = 0, be_Payload = 0, be_Pprof = '''',
      be_CPUMin = Fin 0, be_CPUAvg = Fin 0, be_CPUMax = Fin 0, be_MEMRSSMin = 0, be_MEMRSSAvg = 0,
      be_MEMRSSMax = 0, be_pprofDataCPU = None, be_pprofDataMEM = None\<rparr>"

definition create_BenchRate :: "string \<Rightarrow> BenchRateReport" where
  "create_BenchRate framework =
     \<lparr>br_Framework = framework, br_Lang = FrameworkLang framework, br_BenchClient = '''', br_Duration = 0,
      br_TPS = 0, br_EchoEER = Fin 0, br_MEMEER = Fin 0, br_SendTimes = 0, br_SendBytes = 0,
      br_RecvTimes = 0, br_RecvBytes = 0, br_Connections = 0, br_Concurrency = 0, br_SendRate = 0,
      br_Batch = 0, br_Payload = 0, br_Pprof = '''', br_CPUMin = Fin 0, br_CPUAvg = Fin 0,
      br_CPUMax = Fin 0, br_MEMRSSMin = 0, br_MEMRSSAvg = 0, br_MEMRSSMax = 0, br_pprofDataCPU = None,
      br_pprofDataMEM = None\<rparr>"

end
