(* ===== verification/StableSort.thy ===== *)
theory StableSort
  imports Main "HOL-Library.Multiset"
begin

text \<open>
  \<^verbatim>\<open>sort.SliceStable\<close> of Go's standard library, and what it promises for a comparison that is a
  strict weak order on the elements of the slice: a permutation, in order, with elements that tie
  left in the order they had.
\<close>

text \<open>\<^verbatim>\<open>sort.SliceStable\<close>: elements move left past those they are less than, and no further.\<close>

fun insert_stable :: "('a \<Rightarrow> 'a \<Rightarrow> bool) \<Rightarrow> 'a \<Rightarrow> 'a list \<Rightarrow> 'a list" where
  "insert_stable lt x [] = [x]"
| "insert_stable lt x (y # ys) = (if lt y x then y # insert_stable lt x ys else x # y # ys)"

definition SliceStable :: "('a \<Rightarrow> 'a \<Rightarrow> bool) \<Rightarrow> 'a list \<Rightarrow> 'a list" where
  "SliceStable lt xs = foldr (insert_stable lt) xs []"

text \<open>A strict weak order: what the comparison of a sort has to be.\<close>

locale stable_sorting =
  fixes lt :: "'a \<Rightarrow> 'a \<Rightarrow> bool" and ok :: "'a \<Rightarrow> bool"
  assumes asym: "ok x \<Longrightarrow> ok y \<Longrightarrow> lt x y \<Longrightarrow> \<not> lt y x"
    and neg_trans: "ok x \<Longrightarrow> ok y \<Longrightarrow> ok z \<Longrightarrow> \<not> lt x y \<Longrightarrow> \<not> lt y z \<Longrightarrow> \<not> lt x z"
begin

lemma set_insert_stable [simp]: "set (insert_stable lt x xs) = insert x (set xs)"
  by (induction xs) auto

lemma mset_insert_stable [simp]: "mset (insert_stable lt x xs) = add_mset x (mset xs)"
  by (induction xs) auto

lemma insert_stable_sorted:
  assumes "ok x" "\<forall>y \<in> set xs. ok y" "sorted_wrt (\<lambda>x y. \<not> lt y x) xs"
  shows "sorted_wrt (\<lambda>x y. \<not> lt y x) (insert_stable lt x xs)"
  using assms
proof (induction xs)
  case (Cons y ys)
  show ?case
  proof (cases "lt y x")
    case True
    with Cons show ?thesis using asym by auto
  next
    case False
    with Cons show ?thesis using neg_trans [of _ y x] by auto
  qed
qed simp

text \<open>Elements none of which is below another keep their order.\<close>

lemma filter_insert_stable:
  assumes "\<And>y. y \<in> set xs \<Longrightarrow> P x \<Longrightarrow> P y \<Longrightarrow> \<not> lt y x"
  shows "filter P (insert_stable lt x xs) = filter P (x # xs)"
  using assms by (induction xs) auto

lemma mset_SliceStable: "mset (SliceStable lt xs) = mset xs"
  unfolding SliceStable_def by (induction xs) auto

lemma set_SliceStable [simp]: "set (SliceStable lt xs) = set xs"
  unfolding SliceStable_def by (induction xs) auto

lemma SliceStable_sorted:
  "\<forall>x \<in> set xs. ok x \<Longrightarrow> sorted_wrt (\<lambda>x y. \<not> lt y x) (SliceStable lt xs)"
proof (induction xs)
  case (Cons x xs)
  then show ?case
    using insert_stable_sorted [of x "SliceStable lt xs"] by (simp add: SliceStable_def [symmetric] SliceStable_def [of _ "_ # _"])
qed (simp add: SliceStable_def)

lemma SliceStable_stable:
  assumes "\<And>x y. x \<in> set xs \<Longrightarrow> y \<in> set xs \<Longrightarrow> P x \<Longrightarrow> P y \<Longrightarrow> \<not> lt y x"
  shows "filter P (SliceStable lt xs) = filter P xs"
  using assms
proof (induction xs)
  case (Cons x xs)
  then have "filter P (insert_stable lt x (SliceStable lt xs)) = filter P (x # SliceStable lt xs)"
    by (intro filter_insert_stable) auto
  with Cons show ?case by (simp add: SliceStable_def)
qed (simp add: SliceStable_def)

end

end
