(* ===== verification/ReportRank.thy ===== *)
theory ReportRank
  imports Report StableSort
begin

text \<open>
  The columns of a report (\<^verbatim>\<open>parsing.go\<close>), its ranking, its percentages and its derived
  numbers (\<^verbatim>\<open>reporter.go\<close>, \<^verbatim>\<open>benchrate_report.go\<close>, \<^verbatim>\<open>benchecho_report.go\<close>).
\<close>

section \<open>Columns and cells\<close>

definition tableColumn :: "field \<Rightarrow> bool \<Rightarrow> bool" where
  "tableColumn f enableTPN \<longleftrightarrow>
     (if fd_md f = ''-'' \<or> fd_summary f \<noteq> '''' then False else enableTPN \<or> fd_tpn f = '''')"

text \<open>The headers \<^verbatim>\<open>Init\<close> works out for a struct.\<close>

definition Init_headers :: "bool \<Rightarrow> struct \<Rightarrow> string list" where
  "Init_headers enableTPN st = map (\<lambda>f. fd_md (fst f)) (filter (\<lambda>f. tableColumn (fst f) enableTPN) st)"

definition clientNames :: "(string \<times> string) list" where
  "clientNames = [(''benchcli-go'', ''go-x/net/http2''), (''benchcli-rust-h2'', ''rust-h2''),
     (''benchcli-rust-reqwest'', ''rust-reqwest''), (''benchcli-rust'', ''rust-reqwest'')]"

definition clientName :: "string \<Rightarrow> string" where
  "clientName name =
     (case map_of clientNames name of Some s \<Rightarrow> s | None \<Rightarrow> TrimPrefix name ''benchcli-'')"

record perf_fmt =
  I2MemString :: "nat \<Rightarrow> string"
  I2TimeString :: "int \<Rightarrow> string"

text \<open>\<^verbatim>\<open>fmt.Sprintf("%.2f", x)\<close>\<close>

definition pad2 :: "nat \<Rightarrow> string" where
  "pad2 n = (if n < 10 then ''0'' @ itoa_nat n else itoa_nat n)"

fun format2 :: "float64 \<Rightarrow> string" where
  "format2 NaN = ''NaN''"
| "format2 PInf = ''+Inf''"
| "format2 NInf = ''-Inf''"
| "format2 (Fin x) =
     (let n = nat (round_even (\<bar>x\<bar> * 100))
      in (if x < 0 then ''-'' else '''') @ itoa_nat (n div 100) @ ''.'' @ pad2 (n mod 100))"

fun reflect_String :: "string \<Rightarrow> fvalue \<Rightarrow> string" where
  "reflect_String typ (VStr s) = s"
| "reflect_String typ v = ''<'' @ typ @ '' Value>''"

fun reflect_Int :: "fvalue \<Rightarrow> int" where
  "reflect_Int (VInt n) = n"
| "reflect_Int v = 0" \<comment> \<open>a panic: no field with fmt duration is of another type\<close>

fun reflect_Float :: "fvalue \<Rightarrow> float64" where
  "reflect_Float (VFloat x) = x"
| "reflect_Float v = NaN" \<comment> \<open>a panic: asked of float fields only\<close>

fun format_v :: "fvalue \<Rightarrow> string" where
  "format_v (VStr s) = s"
| "format_v (VInt n) = itoa n"
| "format_v (VUint n) = itoa_nat n"
| "format_v (VFloat x) = format2 x" \<comment> \<open>not reached: a float is shown with two decimals\<close>
| "format_v (VBytes b) =
     ''['' @ Join (map (\<lambda>x. itoa_nat (unat x)) (case b of None \<Rightarrow> [] | Some bs \<Rightarrow> bs)) '' '' @ '']''"

fun mem_string :: "perf_fmt \<Rightarrow> fvalue \<Rightarrow> string" where
  "mem_string P (VInt n) = I2MemString P (nat (n mod 2 ^ 64))"
| "mem_string P (VUint n) = I2MemString P n"
| "mem_string P v = ''''"

definition plain_string :: "field \<Rightarrow> fvalue \<Rightarrow> string" where
  "plain_string f v =
     (if fd_type f = ''string'' then reflect_String (fd_type f) v
      else if fd_type f = ''float32'' \<or> fd_type f = ''float64'' then format2 (reflect_Float v)
      else format_v v)"

definition cellString :: "perf_fmt \<Rightarrow> field \<Rightarrow> fvalue \<Rightarrow> string" where
  "cellString P f v =
     (if fd_fmt f = ''client'' then clientName (reflect_String (fd_type f) v)
      else if fd_fmt f = ''mem'' then mem_string P v
      else if fd_fmt f = ''duration'' then I2TimeString P (reflect_Int v)
      else plain_string f v)"

definition ObjFieldValues :: "perf_fmt \<Rightarrow> struct \<Rightarrow> bool \<Rightarrow> string list" where
  "ObjFieldValues P st enableTPN =
     map (\<lambda>f. cellString P (fst f) (snd f)) (filter (\<lambda>f. tableColumn (fst f) enableTPN) st)"

subsection \<open>The console block\<close>

definition console_field :: "bool \<Rightarrow> field \<Rightarrow> bool" where
  "console_field enableTPN f \<longleftrightarrow> fd_md f \<noteq> ''-'' \<and> (enableTPN \<or> fd_tpn f = '''')"

text \<open>The values a field adds to the block: none for one with fmt \<^verbatim>\<open>"-"\<close>.\<close>

definition console_values :: "perf_fmt \<Rightarrow> field \<times> fvalue \<Rightarrow> string list" where
  "console_values P fv =
     (let (f, v) = fv
      in if fd_fmt f = ''client'' then [clientName (reflect_String (fd_type f) v)]
         else if fd_fmt f = ''cpu'' then [format2 (reflect_Float v) @ ''%'']
         else if fd_fmt f = ''mem'' then [mem_string P v]
         else if fd_fmt f = ''duration'' then [I2TimeString P (reflect_Int v)]
         else if fd_fmt f = ''-'' then []
         else [plain_string f v])"

definition pad_to :: "nat \<Rightarrow> string \<Rightarrow> string" where
  "pad_to n s = s @ spaces (n - length s)"

fun console_lines :: "string \<Rightarrow> string \<Rightarrow> (string \<times> string) list \<Rightarrow> string" where
  "console_lines frameworkHeader typeLine [] = ''''"
| "console_lines frameworkHeader typeLine [(h, v)] =
     (if h = frameworkHeader then typeLine else '''') @ h @ '': '' @ v"
| "console_lines frameworkHeader typeLine ((h, v) # hvs) =
     (if h = frameworkHeader then typeLine else '''') @ h @ '': '' @ v @ [CHR 0x0A]
       @ console_lines frameworkHeader typeLine hvs"

text \<open>\<^verbatim>\<open>ObjString\<close>; \<open>None\<close> when it would index past the end of its values.\<close>

definition ObjString :: "perf_fmt \<Rightarrow> Report \<Rightarrow> bool \<Rightarrow> string option" where
  "ObjString P r enableTPN =
     (let shown = filter (\<lambda>f. console_field enableTPN (fst f)) (report_struct r);
          headers = map (\<lambda>f. fd_md (fst f)) shown;
          values = concat (map (console_values P) shown);
          typHeader = ''BenchType'';
          maxHeaderLen = foldl (\<lambda>m h. max m (length h)) (length typHeader) headers;
          padded = map (pad_to maxHeaderLen) headers;
          frameworkHeader = (case filter (\<lambda>h. h = ''Framework'') headers of [] \<Rightarrow> '''' | h # _ \<Rightarrow> pad_to maxHeaderLen h);
          typeLine = pad_to maxHeaderLen typHeader @ '': '' @ Type r @ [CHR 0x0A]
      in if length values < length headers then None
         else Some (console_lines frameworkHeader typeLine (zip padded values)))"

section \<open>Ranking\<close>

definition SortOrders :: "string list" where "SortOrders = [''result'', ''framework'']"

definition ValidateSort :: "string \<Rightarrow> string option" where
  "ValidateSort order = (if order \<in> set SortOrders then None else Some order)"

text \<open>
  \<^verbatim>\<open>rankFields\<close>: the rank, the index and the header of each ranked field, by rank. The ranks of a
  struct differ, so that \<^verbatim>\<open>sort.Slice\<close> has one result.
\<close>

definition rankFields :: "struct \<Rightarrow> (int \<times> nat \<times> string) list" where
  "rankFields st =
     sort_key fst (List.map_filter (\<lambda>(i, f, v). map_option (\<lambda>rank. (rank, i, fd_md f)) (atoi (fd_rank f)))
       (enumerate 0 st))"

fun rank_key :: "fvalue \<Rightarrow> float64 option" where
  "rank_key (VInt n) = Some (f_of_int n)"
| "rank_key (VUint n) = Some (f_of_int (int n))"
| "rank_key (VFloat x) = Some x"
| "rank_key v = None"

definition RankKeys :: "Report \<Rightarrow> float64 list" where
  "RankKeys r =
     List.map_filter (\<lambda>(rank, i, header). rank_key (snd (report_struct r ! i))) (rankFields (report_struct r))"

fun rankedBefore :: "float64 list \<Rightarrow> float64 list \<Rightarrow> bool" where
  "rankedBefore (a # as) (b # bs) \<longleftrightarrow> (if \<not> f_eq a b then f_less b a else rankedBefore as bs)"
| "rankedBefore as bs \<longleftrightarrow> False"

definition SortReports :: "Report list \<Rightarrow> string \<Rightarrow> Report list" where
  "SortReports reports order =
     (if order = ''result'' then SliceStable (\<lambda>r q. rankedBefore (RankKeys r) (RankKeys q)) reports
      else reports)"

section \<open>Numbers\<close>

definition percentSlack :: float64 where "percentSlack = round64 (1 / 10 ^ 9)"

definition Percent :: "float64 \<Rightarrow> float64 \<Rightarrow> string option" where
  "Percent value best =
     (if f_le best (Fin 0) \<or> f_le value (Fin 0) then Some ''0%''
      else if f_le best value then Some ''100%''
      else map_option (\<lambda>percent. itoa (min percent 99) @ ''%'')
             (int64_of (f_floor (f_add (f_div (f_mul value (Fin 100)) best) percentSlack))))"

definition EER :: "float64 \<Rightarrow> float64 \<Rightarrow> float64" where
  "EER throughput cpuAvg =
     (if f_le cpuAvg (Fin 0) \<or> IsNaN cpuAvg \<or> IsInf throughput \<or> IsNaN throughput then Fin 0
      else let eer = f_div throughput cpuAvg in if IsInf eer \<or> IsNaN eer then Fin 0 else eer)"

definition MEMEER :: "float64 \<Rightarrow> nat \<Rightarrow> float64" where
  "MEMEER throughput memAvg = EER throughput (f_div (f_of_int (int memAvg)) (Fin (2 ^ 20)))"

definition RateTPS :: "int \<Rightarrow> int \<Rightarrow> float64" where
  "RateTPS recvTimes duration =
     (if duration \<le> 0 then Fin 0
      else f_div (f_of_int recvTimes) (f_div (f_of_int duration) (f_of_int (10 ^ 9))))"

text \<open>\<^verbatim>\<open>int64(math.Floor(...))\<close> of a value out of range is the machine's; none here is, see below.\<close>

definition floor_int :: "float64 \<Rightarrow> int" where
  "floor_int x = (case int64_of (f_floor x) of None \<Rightarrow> - (2 ^ 63) | Some n \<Rightarrow> n)"

definition fillMEMEER :: "BenchEchoReport \<Rightarrow> BenchEchoReport" where
  "fillMEMEER r =
     (if f_eq (be_MEMEER r) (Fin 0)
      then r\<lparr>be_MEMEER := MEMEER (f_of_int (be_TPS r)) (be_MEMRSSAvg r)\<rparr> else r)"

definition fillTPS :: "BenchRateReport \<Rightarrow> BenchRateReport" where
  "fillTPS r =
     (let r = (if br_TPS r = 0 \<and> br_RecvTimes r > 0
               then r\<lparr>br_TPS := floor_int (RateTPS (br_RecvTimes r) (br_Duration r))\<rparr> else r)
      in if f_eq (br_MEMEER r) (Fin 0)
         then r\<lparr>br_MEMEER := MEMEER (RateTPS (br_RecvTimes r) (br_Duration r)) (br_MEMRSSAvg r)\<rparr> else r)"

definition PprofSetting :: "string \<Rightarrow> bool \<Rightarrow> int \<Rightarrow> string" where
  "PprofSetting framework enabled seconds =
     (if \<not> HasPprof framework then ''''
      else if \<not> enabled then ''false''
      else ''true ('' @ itoa seconds @ ''s)'')"

section \<open>The ranking\<close>

lemma RankKeys_eval:
  "RankKeys (ConnR c) = [f_of_int (cn_TPS c)]"
  "RankKeys (EchoR e) = [f_of_int (be_TPS e), be_EER e, be_MEMEER e]"
  "RankKeys (RateR r) = [f_of_int (br_TPS r), br_EchoEER r, br_MEMEER r]"
  by (simp_all add: RankKeys_def rankFields_def cn_struct_def be_struct_def br_struct_def field_tags
      map_filter_simps atoi_def is_digit_def nat_of_digits_def digit_val_def enumerate_eq_zip)

lemma rankFields_eval:
  "rankFields (cn_struct c) = [(1, 3, ''TPS'')]"
  "rankFields (be_struct e) = [(1, 3, ''TPS''), (2, 4, ''CPU EER''), (3, 5, ''MEM EER'')]"
  "rankFields (br_struct r) = [(1, 4, ''TPS''), (2, 5, ''CPU EER''), (3, 6, ''MEM EER'')]"
  by (simp_all add: rankFields_def cn_struct_def be_struct_def br_struct_def field_tags
      map_filter_simps atoi_def is_digit_def nat_of_digits_def digit_val_def)

lemma rankedBefore_asym:
  "NaN \<notin> set as \<Longrightarrow> NaN \<notin> set bs \<Longrightarrow> rankedBefore as bs \<Longrightarrow> \<not> rankedBefore bs as"
  by (induction as bs rule: rankedBefore.induct) (auto simp: f_eq_iff split: if_splits dest: f_less_asym)

lemma rankedBefore_neg_trans:
  assumes "NaN \<notin> set as" "NaN \<notin> set bs" "NaN \<notin> set cs" "length as = length bs" "length bs = length cs"
    and "\<not> rankedBefore as bs" "\<not> rankedBefore bs cs"
  shows "\<not> rankedBefore as cs"
  using assms(4,5,1-3,6,7)
proof (induction as bs cs rule: list_induct3)
  case (Cons a as b bs c cs)
  then show ?case
    using f_less_trans [of b a c] f_less_trans [of a b c] f_less_linear [of a b] f_less_linear [of b c] f_less_linear [of a c]
    by (auto simp: f_eq_iff split: if_splits dest: f_less_asym f_less_trans)
qed simp


lemma length_RankKeys: "Type r = Type q \<Longrightarrow> length (RankKeys r) = length (RankKeys q)"
  by (cases r; cases q) (simp_all add: RankKeys_eval BenchMultiplexName_def)

interpretation ranking: stable_sorting "\<lambda>r q. rankedBefore (RankKeys r) (RankKeys q)"
  "\<lambda>r. Type r = t \<and> NaN \<notin> set (RankKeys r)" for t
proof
  fix x y z
  assume "Type x = t \<and> NaN \<notin> set (RankKeys x)" "Type y = t \<and> NaN \<notin> set (RankKeys y)"
  then show "rankedBefore (RankKeys x) (RankKeys y) \<Longrightarrow> \<not> rankedBefore (RankKeys y) (RankKeys x)"
    using rankedBefore_asym by blast
  assume "Type z = t \<and> NaN \<notin> set (RankKeys z)"
  with \<open>Type x = t \<and> NaN \<notin> set (RankKeys x)\<close> \<open>Type y = t \<and> NaN \<notin> set (RankKeys y)\<close>
  show "\<not> rankedBefore (RankKeys x) (RankKeys y) \<Longrightarrow> \<not> rankedBefore (RankKeys y) (RankKeys z) \<Longrightarrow>
      \<not> rankedBefore (RankKeys x) (RankKeys z)"
    using rankedBefore_neg_trans length_RankKeys [of x y] length_RankKeys [of y z] by metis
qed

lemma mset_SortReports [simp]: "mset (SortReports reports order) = mset reports"
  by (simp add: SortReports_def ranking.mset_SliceStable)

lemma rankedBefore_irrefl: "NaN \<notin> set ks \<Longrightarrow> \<not> rankedBefore ks ks"
  using rankedBefore_asym by blast

text \<open>
  What a table ranks by, said without the tags and without the code's comparison: the results of a report, the weightiest first, and
  that one row's are better than another's, which is a bigger value in the first place they differ.
\<close>

fun results :: "Report \<Rightarrow> float64 list" where
  "results (ConnR c) = [f_of_int (cn_TPS c)]"
| "results (EchoR e) = [f_of_int (be_TPS e), be_EER e, be_MEMEER e]"
| "results (RateR r) = [f_of_int (br_TPS r), br_EchoEER r, br_MEMEER r]"

definition better :: "float64 list \<Rightarrow> float64 list \<Rightarrow> bool" where
  "better xs ys \<longleftrightarrow> (\<exists>k < min (length xs) (length ys). take k xs = take k ys \<and> f_less (ys ! k) (xs ! k))"

lemma RankKeys_results: "RankKeys r = results r"
  by (cases r) (simp_all add: RankKeys_eval)

lemma better_Cons: "better (x # xs) (y # ys) \<longleftrightarrow> f_less y x \<or> x = y \<and> better xs ys"
proof
  assume "better (x # xs) (y # ys)"
  then obtain k where "k < Suc (min (length xs) (length ys))" "take k (x # xs) = take k (y # ys)" "f_less ((y # ys) ! k) ((x # xs) ! k)"
    by (auto simp: better_def)
  then show "f_less y x \<or> x = y \<and> better xs ys" by (cases k) (auto simp: better_def)
next
  assume "f_less y x \<or> x = y \<and> better xs ys"
  then show "better (x # xs) (y # ys)"
  proof
    assume "f_less y x"
    then show ?thesis unfolding better_def by (intro exI [of _ 0]) simp
  next
    assume "x = y \<and> better xs ys"
    then obtain k where "k < min (length xs) (length ys)" "take k xs = take k ys" "f_less (ys ! k) (xs ! k)" "x = y"
      by (auto simp: better_def)
    then show ?thesis unfolding better_def by (intro exI [of _ "Suc k"]) simp
  qed
qed

lemma rankedBefore_better:
  assumes "length xs = length ys" and "NaN \<notin> set xs" and "NaN \<notin> set ys"
  shows "rankedBefore xs ys \<longleftrightarrow> better xs ys" and "xs = ys \<or> better xs ys \<or> better ys xs"
proof -
  have "(rankedBefore xs ys \<longleftrightarrow> better xs ys) \<and> (xs = ys \<or> better xs ys \<or> better ys xs)"
    using assms
  proof (induction xs ys rule: list_induct2)
    case Nil
    then show ?case by (simp add: better_def)
  next
    case (Cons x xs y ys)
    then show ?case using f_less_linear [of x y] f_less_asym [of y y] by (auto simp: better_Cons f_eq_iff dest: f_less_asym)
  qed
  then show "rankedBefore xs ys \<longleftrightarrow> better xs ys" "xs = ys \<or> better xs ys \<or> better ys xs" by blast+
qed

lemma length_results: "Type r = Type q \<Longrightarrow> length (results r) = length (results q)"
  using length_RankKeys [of r q] by (simp add: RankKeys_results)

text \<open>
  C21. Ranking a table: the rows are those read, each as often; of any two, the upper one has the better results or the
  same, the calls a second first, then the efficiencies, bigger being better; and rows with the same results keep
  the order they were read in, which is the framework order.
\<close>

theorem SortReports_ranks:
  assumes "\<forall>r \<in> set reports. Type r = t \<and> NaN \<notin> set (results r)"
  shows "mset (SortReports reports ''result'') = mset reports
    \<and> sorted_wrt (\<lambda>r q. results r = results q \<or> better (results r) (results q)) (SortReports reports ''result'')
    \<and> (\<forall>xs. filter (\<lambda>r. results r = xs) (SortReports reports ''result'') = filter (\<lambda>r. results r = xs) reports)"
proof (intro conjI allI)
  have ok: "Type r = t \<and> NaN \<notin> set (results r)" if "r \<in> set (SortReports reports ''result'')" for r
    using assms that mset_eq_setD [OF mset_SortReports] by blast
  have "sorted_wrt (\<lambda>r q. \<not> rankedBefore (RankKeys q) (RankKeys r)) (SortReports reports ''result'')"
    using ranking.SliceStable_sorted [of reports t] assms by (simp add: SortReports_def RankKeys_results)
  then show "sorted_wrt (\<lambda>r q. results r = results q \<or> better (results r) (results q)) (SortReports reports ''result'')"
  proof (rule sorted_wrt_mono_rel [rotated])
    fix r q
    assume "r \<in> set (SortReports reports ''result'')" "q \<in> set (SortReports reports ''result'')"
      and "\<not> rankedBefore (RankKeys q) (RankKeys r)"
    with ok [of r] ok [of q] show "results r = results q \<or> better (results r) (results q)"
      using rankedBefore_better [of "results q" "results r"] length_results [of q r] by (auto simp: RankKeys_results)
  qed
  show "filter (\<lambda>r. results r = xs) (SortReports reports ''result'') = filter (\<lambda>r. results r = xs) reports" for xs
    using ranking.SliceStable_stable [of reports "\<lambda>r. RankKeys r = xs"] assms rankedBefore_irrefl
    by (simp add: SortReports_def RankKeys_results) blast
qed simp

definition sample_reports :: "Report list" where
  "sample_reports =
     [EchoR ((create_BenchEcho ''fib'')\<lparr>be_EER := Fin 1\<rparr>), EchoR ((create_BenchEcho ''gin'')\<lparr>be_EER := Fin 2\<rparr>),
      EchoR ((create_BenchEcho ''echo'')\<lparr>be_EER := Fin 1\<rparr>)]"

theorem SortReports_ranks_witness:
  "map report_Framework (SortReports sample_reports ''result'') = [''gin'', ''fib'', ''echo'']
   \<and> sorted_wrt (\<lambda>r q. results r = results q \<or> better (results r) (results q)) (SortReports sample_reports ''result'')"
proof
  show "map report_Framework (SortReports sample_reports ''result'') = [''gin'', ''fib'', ''echo'']"
    by (simp add: sample_reports_def SortReports_def SliceStable_def RankKeys_eval create_BenchEcho_def
        f_of_int_def round64_def)
  have "\<forall>r \<in> set sample_reports. Type r = ''BenchEcho'' \<and> NaN \<notin> set (results r)"
    by (simp add: sample_reports_def create_BenchEcho_def f_of_int_def round64_def)
  then show "sorted_wrt (\<lambda>r q. results r = results q \<or> better (results r) (results q)) (SortReports sample_reports ''result'')"
    using SortReports_ranks [of sample_reports "''BenchEcho''"] by blast
qed

section \<open>Numbers that can be written\<close>

lemma EER_finite: "\<exists>z. EER t c = Fin z"
  by (simp add: EER_def Let_def) (metis float64.exhaust)

lemma percentSlack_near:
  obtains k where "percentSlack = Fin k" and "\<bar>k - 1 / 10 ^ 9\<bar> \<le> 1 / 10 ^ 20"
proof -
  obtain k where k: "round64 (1 / 10 ^ 9) = Fin k" "\<bar>k - 1 / 10 ^ 9\<bar> \<le> (1 / 10 ^ 9) / 2 ^ 53 + 2 powi (- 1075)"
    by (rule round64_near [of "1 / 10 ^ 9"]) simp_all
  have "(1 / 10 ^ 9) / 2 ^ 53 + 2 powi (- 1075) \<le> (1 / 10 ^ 20 :: rat)"
    by (simp add: power_int_minus)
  with k that show ?thesis unfolding percentSlack_def by force
qed

lemma percent_quotient:
  assumes "0 < v" "v < b" "1 / 2 ^ 900 \<le> v" "b \<le> 2 ^ 1000"
  obtains s where "f_add (f_div (f_mul (Fin v) (Fin 100)) (Fin b)) percentSlack = Fin s"
    and "100 * v / b \<le> s" and "s \<le> 100 * v / b + 2 / 10 ^ 9"
proof -
  define e :: rat where "e = 2 powi (- 1075)"
  have e: "0 < e" "e \<le> 1 / 10 ^ 20" by (simp_all add: e_def power_int_minus)
  have ev: "e \<le> v / 2 ^ 53"
  proof -
    have "e \<le> (1 / 2 ^ 900) / 2 ^ 53" by (simp add: e_def power_int_minus)
    also have "\<dots> \<le> v / 2 ^ 53" using assms(3) by (rule divide_right_mono) simp
    finally show ?thesis .
  qed
  have b: "0 < b" using assms by simp
  have v100: "v * 100 \<le> 2 ^ 1020"
  proof -
    have "v * 100 \<le> 2 ^ 1000 * 100" using assms by simp
    also have "\<dots> \<le> (2 ^ 1020 :: rat)" by simp
    finally show ?thesis .
  qed
  obtain m where m: "round64 (v * 100) = Fin m" "\<bar>m - v * 100\<bar> \<le> v * 100 / 2 ^ 53 + e"
    unfolding e_def by (rule round64_near [of "v * 100"]) (use assms v100 in simp_all)
  define r where "r = 100 * v / b"
  have r: "0 < r" "r < 100" using assms b by (simp_all add: r_def field_simps)
  have mv: "\<bar>m - v * 100\<bar> \<le> 101 * v / 2 ^ 53" using m(2) ev by linarith
  have "\<bar>m / b - r\<bar> = \<bar>m - v * 100\<bar> / b"
    using b by (simp add: r_def diff_divide_distrib [symmetric] abs_divide mult.commute)
  also have "\<dots> \<le> (101 * v / 2 ^ 53) / b" using mv b by (rule divide_right_mono [OF _ less_imp_le])
  also have "\<dots> \<le> 101 / 2 ^ 53" using assms b by (simp add: field_simps)
  finally have mr: "\<bar>m / b - r\<bar> \<le> 101 / 2 ^ 53" .
  define t where "t = m / b"
  have c: "101 / 2 ^ 53 \<le> (1 / 10 ^ 12 :: rat)" "102 / 2 ^ 53 \<le> (1 / 10 ^ 12 :: rat)"
    "103 / 2 ^ 53 \<le> (1 / 10 ^ 12 :: rat)" "101 / 2 ^ 53 + 1 / 10 ^ 20 \<le> (102 / 2 ^ 53 :: rat)"
    "102 / 2 ^ 53 + 1 / 10 ^ 20 \<le> (103 / 2 ^ 53 :: rat)" "(1 / 10 ^ 20 :: rat) \<le> 1 / 10 ^ 12"
    "4 * (1 / 10 ^ 12) \<le> (1 / 10 ^ 9 :: rat)" "1 / 10 ^ 9 \<le> (1 / 10 :: rat)"
    "2 / 10 ^ 9 = (2 * (1 / 10 ^ 9) :: rat)"
    by simp_all
  have mb: "0 < t"
  proof -
    have "101 * v / 2 ^ 53 < v * 100" using assms by (simp add: field_simps)
    with mv have "0 < m" by linarith
    with b show ?thesis by (simp add: t_def)
  qed
  have "t \<le> 101" using mr r c unfolding t_def [symmetric] by linarith
  then have mb': "t \<le> 2 ^ 1020" by (rule order_trans) simp
  obtain q where q: "round64 (t) = Fin q" "\<bar>q - t\<bar> \<le> (t) / 2 ^ 53 + e"
    unfolding e_def by (rule round64_near [of t]) (use mb mb' in simp_all)
  obtain k where k: "percentSlack = Fin k" "\<bar>k - 1 / 10 ^ 9\<bar> \<le> 1 / 10 ^ 20" by (rule percentSlack_near)
  have "(t) / 2 ^ 53 \<le> 101 / 2 ^ 53" using \<open>t \<le> 101\<close> by (rule divide_right_mono) simp
  with q(2) e c have qm: "\<bar>q - t\<bar> \<le> 102 / 2 ^ 53" by linarith
  have qk: "0 < q + k" "q + k \<le> 102" using qm mr r k(2) c unfolding t_def [symmetric] by linarith+
  then have qk': "q + k \<le> 2 ^ 1020" by (elim order_trans) simp
  obtain s where s: "round64 (q + k) = Fin s" "\<bar>s - (q + k)\<bar> \<le> (q + k) / 2 ^ 53 + e"
    unfolding e_def by (rule round64_near [of "q + k"]) (use qk qk' in simp_all)
  have "(q + k) / 2 ^ 53 \<le> 102 / 2 ^ 53" using qk(2) by (rule divide_right_mono) simp
  with s(2) e c have "\<bar>s - (q + k)\<bar> \<le> 103 / 2 ^ 53" by linarith
  with qm mr [folded t_def] k(2) c have "r \<le> s" "s \<le> r + 2 / 10 ^ 9" by linarith+
  moreover have "f_add (f_div (f_mul (Fin v) (Fin 100)) (Fin b)) percentSlack = Fin s"
    using m(1) q(1) s(1) b by (simp add: t_def k(1))
  ultimately show ?thesis using that unfolding r_def by blast
qed

text \<open>
  C22. A row's percentage of the best result of its table, worked out in floating point, for results within any
  measurement's range: the best
  reads 100%, and any other the whole percentage of the exact quotient, or, for a quotient less than two
  billionths under the next whole number, that number, and never more than 99%.
\<close>

theorem Percent_accurate:
  assumes "0 < v" and "1 / 2 ^ 900 \<le> v" and "v \<le> b" and "b \<le> 2 ^ 1000"
  shows "if v = b then Percent (Fin v) (Fin b) = Some ''100%''
         else \<exists>p. Percent (Fin v) (Fin b) = Some (itoa p @ ''%'')
                \<and> 0 \<le> p \<and> p \<le> 99 \<and> \<lfloor>100 * v / b\<rfloor> \<le> p \<and> of_int p \<le> 100 * v / b + 2 / 10 ^ 9"
proof (cases "v = b")
  case True
  with assms show ?thesis by (simp add: Percent_def f_le_def)
next
  case False
  with assms have vb: "v < b" by simp
  then obtain s where s: "f_add (f_div (f_mul (Fin v) (Fin 100)) (Fin b)) percentSlack = Fin s"
    "100 * v / b \<le> s" "s \<le> 100 * v / b + 2 / 10 ^ 9"
    using percent_quotient assms by metis
  have r: "0 < 100 * v / b" "100 * v / b < 100" using assms vb by (simp_all add: field_simps)
  then have f: "0 \<le> \<lfloor>s\<rfloor>" "\<lfloor>s\<rfloor> \<le> 100" "\<lfloor>100 * v / b\<rfloor> \<le> 99" "\<lfloor>100 * v / b\<rfloor> \<le> \<lfloor>s\<rfloor>"
    using s(2,3) by (simp_all add: le_floor_iff floor_le_iff order_trans [OF of_int_floor_le])
  then have "int64_of (f_floor (Fin s)) = Some \<lfloor>s\<rfloor>" by simp
  with s(1) assms vb have "Percent (Fin v) (Fin b) = Some (itoa (min \<lfloor>s\<rfloor> 99) @ ''%'')"
    by (simp add: Percent_def f_le_def)
  moreover have "of_int (min \<lfloor>s\<rfloor> 99) \<le> 100 * v / b + 2 / 10 ^ 9" using s(3) by linarith
  ultimately show ?thesis using False f by (auto intro!: exI [of _ "min \<lfloor>s\<rfloor> 99"])
qed

theorem Percent_accurate_witness:
  "\<exists>p. Percent (Fin 1) (Fin 3) = Some (itoa p @ ''%'') \<and> p = 33"
proof -
  obtain p where "Percent (Fin 1) (Fin 3) = Some (itoa p @ ''%'')" "33 \<le> p"
    "p \<le> \<lfloor>100 * 1 / 3 + 2 / (10 ^ 9 :: rat)\<rfloor>"
    using Percent_accurate [of 1 3] by (auto simp: floor_le_iff le_floor_iff)
  moreover have "\<lfloor>100 * 1 / 3 + 2 / (10 ^ 9 :: rat)\<rfloor> = 33" by (rule floor_unique) simp_all
  ultimately show ?thesis by auto
qed


section \<open>Rows and console blocks\<close>

lemma length_console_values:
  "fd_fmt (fst f) \<noteq> ''-'' \<Longrightarrow> length (console_values P f) = 1"
  by (cases f) (simp add: console_values_def)

lemma length_concat_singletons:
  "\<forall>x \<in> set xs. length (f x) = 1 \<Longrightarrow> length (concat (map f xs)) = length xs"
  by (induction xs) auto

lemma shown_fields_have_values:
  "\<forall>f \<in> set (report_struct r). console_field enableTPN (fst f) \<longrightarrow> fd_fmt (fst f) \<noteq> ''-''"
  by (cases r) (simp_all add: cn_struct_def be_struct_def br_struct_def field_tags console_field_def)

lemma length_ObjFieldValues: "length (ObjFieldValues P st tpn) = length (Init_headers tpn st)"
  by (simp add: ObjFieldValues_def Init_headers_def)

text \<open>
  The console block of a report is written whole, whatever the report holds: the values
  \<^verbatim>\<open>ObjString\<close> collects are as many as the headers it indexes them by, so it never reads past the end.
\<close>

theorem ObjString_total: "\<exists>s. ObjString P r enableTPN = Some s"
proof -
  let ?shown = "filter (\<lambda>f. console_field enableTPN (fst f)) (report_struct r)"
  have "length (concat (map (console_values P) ?shown)) = length ?shown"
    using shown_fields_have_values [of r enableTPN]
    by (intro length_concat_singletons ballI length_console_values) auto
  then show ?thesis by (simp add: ObjString_def Let_def)
qed

end
