(* ===== verification/ReportTable.thy ===== *)
theory ReportTable
  imports ReportRank
begin

text \<open>
  The Markdown tables (\<^verbatim>\<open>table.go\<close>) and how a table of reports is made
  (\<^verbatim>\<open>Markdown\<close> of \<^verbatim>\<open>reporter.go\<close>). A table is put together as a list of lines, which
  \<^verbatim>\<open>markdownTableAligned\<close> writes out one by one. Widths are counted in runes.
\<close>

section \<open>Tables\<close>

definition padLeft :: "string \<Rightarrow> int \<Rightarrow> bool \<Rightarrow> nat \<Rightarrow> string" where
  "padLeft s maxLen isFirst idx =
     (let paddingLen = maxLen - int (rune_count s)
      in if paddingLen \<le> 0 then s else '' '' @ s @ spaces (nat (paddingLen - 1)))"

text \<open>
  \<^verbatim>\<open>padCell\<close>'s loop for the first column, \<open>i\<close> spaces in: its bound shrinks as it goes, since it is
  half the padding that is left.
\<close>

function padFirst :: "nat \<Rightarrow> nat \<Rightarrow> nat \<Rightarrow> string \<Rightarrow> string" where
  "padFirst i paddingLen idx s =
     (if i < paddingLen div 2 \<and> i < idx then padFirst (i + 1) (paddingLen - 1) idx ('' '' @ s)
      else s @ spaces paddingLen)"
  by pat_completeness auto
termination
  by (relation "measure (\<lambda>(i, p, idx, s). idx - i)") auto

declare padFirst.simps [simp del]

definition padCell :: "string \<Rightarrow> int \<Rightarrow> bool \<Rightarrow> nat \<Rightarrow> string" where
  "padCell s maxLen isFirst titleLeftPaddingIdx =
     (let paddingLen = nat (maxLen - int (rune_count s))
      in if paddingLen = 0 then s
         else if isFirst then padFirst 0 paddingLen titleLeftPaddingIdx s
         else let half = paddingLen div 2 in spaces half @ s @ spaces (paddingLen - half))"

text \<open>The index of the last rune that is not a space.\<close>

function last_nonspace :: "nat \<Rightarrow> nat \<Rightarrow> string \<Rightarrow> nat" where
  "last_nonspace k idx s =
     (if s = [] then idx
      else last_nonspace (k + 1) (if hd s \<noteq> CHR '' '' then k else idx) (drop (rune_len s) s))"
  by pat_completeness auto
termination
  by (relation "measure (\<lambda>(k, idx, s). length s)") (auto simp: rune_len_pos)

declare last_nonspace.simps [simp del]

text \<open>The widths of the columns after one more row.\<close>

fun widen :: "nat list \<Rightarrow> string list \<Rightarrow> nat list" where
  "widen ws [] = ws"
| "widen [] (c # row) = rune_count c # widen [] row"
| "widen (w # ws) (c # row) = max w (rune_count c) # widen ws row"

definition fill :: "nat \<Rightarrow> string list \<Rightarrow> string list" where
  "fill n row = row @ replicate (n - length row) ''''"

definition table_line :: "(string \<Rightarrow> int \<Rightarrow> bool \<Rightarrow> nat \<Rightarrow> string) \<Rightarrow> nat list \<Rightarrow> nat \<Rightarrow> bool \<Rightarrow> string list \<Rightarrow> string" where
  "table_line pad maxLen idx isRow row =
     ''|'' @ concat (map (\<lambda>(j, cell). pad cell (int (maxLen ! j)) (isRow \<and> j = 0) idx @ ''|'') (enumerate 0 row))"

definition table_lines :: "string list \<Rightarrow> string list list \<Rightarrow> bool \<Rightarrow> string list" where
  "table_lines title rows left =
     (let all = replicate (length title) ''---'' # rows;
          maxLen = map (\<lambda>w. w + 2) (foldl widen (map rune_count title) all);
          columnNum = foldl (\<lambda>n row. max n (length row)) (length title) all;
          title = fill columnNum title;
          all = map (fill columnNum) all;
          pad = (if left then padLeft else padCell);
          titleLeftPaddingIdx =
            (case title of [] \<Rightarrow> 0 | v # _ \<Rightarrow> last_nonspace 0 0 (pad v (int (maxLen ! 0)) False 0))
      in table_line pad maxLen 0 False title # map (table_line pad maxLen titleLeftPaddingIdx True) all)"

definition markdownTableAligned :: "string list \<Rightarrow> string list list \<Rightarrow> bool \<Rightarrow> string" where
  "markdownTableAligned title rows left = concat (map (\<lambda>l. l @ [CHR 0x0A]) (table_lines title rows left))"

definition markdownTable :: "string list \<Rightarrow> string list list \<Rightarrow> string" where
  "markdownTable title rows = markdownTableAligned title rows False"

section \<open>Every line of a table is as wide as the others\<close>

text \<open>A string that does not start inside a rune.\<close>

definition whole :: "string \<Rightarrow> bool" where
  "whole s \<longleftrightarrow> s = [] \<or> \<not> cont (hd s)"

lemma whole_ascii [simp]: "of_char c < (0x80 :: nat) \<Longrightarrow> whole (c # s)"
  by (simp add: whole_def ascii_not_cont)

lemma whole_spaces_append [simp]: "whole (spaces n @ s) \<longleftrightarrow> 0 < n \<or> whole s"
  by (cases n) (simp_all add: spaces_def)

lemma whole_spaces [simp]: "whole (spaces n)"
  by (cases n) (simp_all add: spaces_def whole_def [of "[]"])

lemma whole_append: "whole s \<Longrightarrow> whole t \<Longrightarrow> whole (s @ t)"
  by (cases s) (auto simp: whole_def)

lemma runes_append [simp]: "whole t \<Longrightarrow> rune_count (s @ t) = rune_count s + rune_count t"
  by (rule rune_count_append) (simp add: whole_def)

lemma whole_concat: "\<forall>s \<in> set ss. whole s \<Longrightarrow> whole (concat ss)"
  by (induction ss) (auto intro: whole_append simp: whole_def [of "[]"])

lemma rune_count_concat:
  "\<forall>s \<in> set ss. whole s \<Longrightarrow> rune_count (concat ss) = sum_list (map rune_count ss)"
  by (induction ss) (auto simp: whole_concat)

lemma rune_count_padFirst:
  "whole s \<Longrightarrow> rune_count (padFirst i p idx s) = rune_count s + p \<and> whole (padFirst i p idx s)"
proof (induction i p idx s rule: padFirst.induct)
  case (1 i p idx s)
  show ?case
  proof (cases "i < p div 2 \<and> i < idx")
    case True
    with 1 show ?thesis by (subst (1 2) padFirst.simps) (auto simp: rune_count_ascii_Cons)
  next
    case False
    with 1 show ?thesis by (subst (1 2) padFirst.simps) (auto intro: whole_append)
  qed
qed

definition pads :: "(string \<Rightarrow> int \<Rightarrow> bool \<Rightarrow> nat \<Rightarrow> string) \<Rightarrow> bool" where
  "pads pad \<longleftrightarrow> (\<forall>s w f idx. whole s \<and> rune_count s < w
     \<longrightarrow> rune_count (pad s (int w) f idx) = w \<and> whole (pad s (int w) f idx))"

lemma pads_padLeft: "pads padLeft"
  by (auto simp: pads_def padLeft_def Let_def rune_count_ascii_Cons nat_diff_distrib)

lemma pads_padCell: "pads padCell"
  unfolding pads_def
proof (intro allI impI)
  fix s w f idx
  assume a: "whole s \<and> rune_count s < w"
  define p where "p = w - rune_count s"
  have p: "nat (int w - int (rune_count s)) = p" "0 < p" "rune_count s + p = w" using a by (auto simp: p_def)
  have "p div 2 + (rune_count s + (p - p div 2)) = w" using p by linarith
  with a p(2,3) rune_count_padFirst [of s 0 p idx]
  show "rune_count (padCell s (int w) f idx) = w \<and> whole (padCell s (int w) f idx)"
    unfolding padCell_def Let_def p(1) by (auto simp: whole_append)
qed

text \<open>Column widths that hold a row.\<close>

definition covers :: "nat list \<Rightarrow> string list \<Rightarrow> bool" where
  "covers ws row \<longleftrightarrow> length row \<le> length ws \<and> (\<forall>j < length row. rune_count (row ! j) \<le> ws ! j)"

lemma length_widen [simp]: "length (widen ws row) = max (length ws) (length row)"
  by (induction ws row rule: widen.induct) auto

lemma covers_widen: "covers (widen ws row) row"
  unfolding covers_def
proof (intro conjI allI impI)
  fix j
  assume "j < length row"
  then show "rune_count (row ! j) \<le> widen ws row ! j"
    by (induction ws row arbitrary: j rule: widen.induct) (auto simp: nth_Cons split: nat.splits)
qed simp

lemma widen_le: "j < length ws \<Longrightarrow> ws ! j \<le> widen ws row ! j"
  by (induction ws row arbitrary: j rule: widen.induct) (auto simp: nth_Cons split: nat.splits)

lemma covers_widen_mono: "covers ws r \<Longrightarrow> covers (widen ws row) r"
  unfolding covers_def by (auto simp: le_max_iff_disj intro: order_trans [OF _ widen_le])

lemma covers_foldl: "covers ws r \<or> r \<in> set rows \<Longrightarrow> covers (foldl widen ws rows) r"
  by (induction rows arbitrary: ws) (auto simp: covers_widen covers_widen_mono)

lemma length_foldl_widen:
  "length (foldl widen ws rows) = foldl (\<lambda>n row. max n (length row)) (length ws) rows"
  by (induction rows arbitrary: ws) auto

lemma covers_fill: "covers ws row \<Longrightarrow> n = length ws \<Longrightarrow> covers ws (fill n row) \<and> length (fill n row) = n"
  by (auto simp: covers_def fill_def nth_append)

lemma rune_count_table_line:
  assumes "pads pad" and "covers ws row" and "length row = length ws" and "\<forall>c \<in> set row. whole c"
  shows "rune_count (table_line pad (map (\<lambda>w. w + 2) ws) idx isRow row) = 1 + sum_list (map (\<lambda>w. w + 3) ws)"
proof -
  let ?cell = "\<lambda>j. pad (row ! j) (int (map (\<lambda>w. w + 2) ws ! j)) (isRow \<and> j = 0) idx @ ''|''"
  have cells: "rune_count (?cell j) = ws ! j + 3 \<and> whole (?cell j)" if "j < length ws" for j
  proof -
    have "whole (row ! j) \<and> rune_count (row ! j) < ws ! j + 2"
      using assms that by (auto simp: covers_def le_imp_less_Suc)
    with assms(1) have "rune_count (pad (row ! j) (int (ws ! j + 2)) (isRow \<and> j = 0) idx) = ws ! j + 2
        \<and> whole (pad (row ! j) (int (ws ! j + 2)) (isRow \<and> j = 0) idx)"
      unfolding pads_def by blast
    with that show ?thesis by (simp add: rune_count_ascii_Cons whole_append)
  qed
  have "map (\<lambda>(j, cell). pad cell (int (map (\<lambda>w. w + 2) ws ! j)) (isRow \<and> j = 0) idx @ ''|'') (enumerate 0 row)
      = map ?cell [0..<length ws]"
    by (rule nth_equalityI) (simp_all add: assms(3) nth_enumerate_eq)
  moreover have "rune_count (concat (map ?cell [0..<length ws])) = sum_list (map (\<lambda>w. w + 3) ws)"
  proof -
    have "rune_count (concat (map ?cell [0..<length ws])) = sum_list (map (rune_count \<circ> ?cell) [0..<length ws])"
      using cells by (subst rune_count_concat) auto
    also have "map (rune_count \<circ> ?cell) [0..<length ws] = map (\<lambda>w. w + 3) ws"
      by (rule nth_equalityI) (simp, use cells in simp)
    finally show ?thesis .
  qed
  moreover have "whole (concat (map ?cell [0..<length ws]))" using cells by (intro whole_concat) auto
  ultimately show ?thesis unfolding table_line_def by (simp add: rune_count_ascii_Cons)
qed

text \<open>
  C31. Every line of a Markdown table, the titles, the rule and each row, is equally wide in characters,
  whatever the rows' lengths and however many bytes their characters take, and there is a line for each
  row besides those two. A cell is any string that does not begin in the middle of a character.
\<close>

theorem table_lines_aligned:
  assumes "\<forall>row \<in> set (title # rows). \<forall>cell \<in> set row. whole cell"
  shows "\<exists>n. (\<forall>line \<in> set (table_lines title rows left). rune_count line = n)
           \<and> length (table_lines title rows left) = length rows + 2"
proof -
  define all where "all = replicate (length title) ''---'' # rows"
  define ws where "ws = foldl widen (map rune_count title) all"
  define n where "n = foldl (\<lambda>n row. max n (length row)) (length title) all"
  have n: "n = length ws" by (simp add: n_def ws_def length_foldl_widen)
  have cov: "covers ws row" if "row \<in> set (title # all)" for row
    using that covers_foldl [of "map rune_count title" row all] by (auto simp: ws_def covers_def)
  have wh: "\<forall>c \<in> set (fill n row). whole c" if "row \<in> set (title # all)" for row
    using that assms by (auto simp: all_def fill_def whole_def cont_def in_range_def)
  have pad: "pads (if left then padLeft else padCell)" by (simp add: pads_padLeft pads_padCell)
  have "rune_count (table_line (if left then padLeft else padCell) (map (\<lambda>w. w + 2) ws) idx isRow (fill n row))
      = 1 + sum_list (map (\<lambda>w. w + 3) ws)" if "row \<in> set (title # all)" for idx isRow row
    using rune_count_table_line [OF pad] covers_fill [OF cov n] wh that n by metis
  then show ?thesis
    by (auto simp: table_lines_def Let_def all_def [symmetric] ws_def [symmetric] n_def [symmetric])
      (auto simp: all_def)
qed

theorem table_lines_aligned_witness:
  "\<exists>n. (\<forall>line \<in> set (table_lines [''Framework'', ''TPS''] [[''fib'', ''100000''], [''nethttp'']] False). rune_count line = n)
     \<and> length (table_lines [''Framework'', ''TPS''] [[''fib'', ''100000''], [''nethttp'']] False) = 4"
  using table_lines_aligned [of "[''Framework'', ''TPS'']" "[[''fib'', ''100000''], [''nethttp'']]" False]
  by simp

section \<open>A table of reports\<close>

record md_headers =
  ConnectionsReportMarkdownHeaders :: "string list"
  BenchEchoReportMarkdownHeaders :: "string list"
  BenchRateReportMarkdownHeaders :: "string list"

definition Init :: "bool \<Rightarrow> md_headers" where
  "Init enableTPN =
     \<lparr>ConnectionsReportMarkdownHeaders = Init_headers enableTPN (cn_struct (create_Connections '''')),
      BenchEchoReportMarkdownHeaders = Init_headers enableTPN (be_struct (create_BenchEcho '''')),
      BenchRateReportMarkdownHeaders = Init_headers enableTPN (br_struct (create_BenchRate ''''))\<rparr>"

fun report_Headers :: "md_headers \<Rightarrow> Report \<Rightarrow> string list" where
  "report_Headers H (ConnR r) = ConnectionsReportMarkdownHeaders H"
| "report_Headers H (EchoR r) = BenchEchoReportMarkdownHeaders H"
| "report_Headers H (RateR r) = BenchRateReportMarkdownHeaders H"

fun set_Headers :: "md_headers \<Rightarrow> Report \<Rightarrow> string list \<Rightarrow> md_headers" where
  "set_Headers H (ConnR r) hs = H\<lparr>ConnectionsReportMarkdownHeaders := hs\<rparr>"
| "set_Headers H (EchoR r) hs = H\<lparr>BenchEchoReportMarkdownHeaders := hs\<rparr>"
| "set_Headers H (RateR r) hs = H\<lparr>BenchRateReportMarkdownHeaders := hs\<rparr>"

text \<open>
  \<^verbatim>\<open>filtHeaders\<close> and \<^verbatim>\<open>filtFieldsByHeaders\<close> collect what passes into the slice they read: the result,
  and what the slice holds afterwards.
\<close>

definition filt_in_place :: "string list \<Rightarrow> (string \<Rightarrow> bool) option \<Rightarrow> string list \<times> string list" where
  "filt_in_place values flt =
     (case flt of None \<Rightarrow> ([], values)
      | Some p \<Rightarrow> (let ret = filter p values in (ret, ret @ drop (length ret) values)))"

definition filtHeaders :: "string list \<Rightarrow> (string \<Rightarrow> bool) option \<Rightarrow> string list \<times> string list" where
  "filtHeaders headers flt = filt_in_place headers flt"

definition filtFieldsByHeaders :: "string list \<Rightarrow> (string \<Rightarrow> bool) option \<Rightarrow> string list" where
  "filtFieldsByHeaders values flt = fst (filt_in_place values flt)"

definition Headers :: "md_headers \<Rightarrow> Report \<Rightarrow> (string \<Rightarrow> bool) option \<Rightarrow> string list \<times> md_headers" where
  "Headers H r flt =
     (let (ret, hs) = filtHeaders (report_Headers H r) flt in (ret, set_Headers H r hs))"

definition report_Fields :: "perf_fmt \<Rightarrow> Report \<Rightarrow> bool \<Rightarrow> (string \<Rightarrow> bool) option \<Rightarrow> string list" where
  "report_Fields P r enableTPN flt = filtFieldsByHeaders (ObjFieldValues P (report_struct r) enableTPN) flt"

text \<open>\<^verbatim>\<open>withPercent\<close>; \<open>None\<close> for an index out of range, and for a percentage that is the machine's.\<close>

definition withPercent :: "string list list \<Rightarrow> nat \<Rightarrow> float64 list \<Rightarrow> string list list option" where
  "withPercent rows col values =
     (if length values < length rows \<or> list_ex (\<lambda>row. length row \<le> col) rows then None
      else let best = foldl f_max (Fin 0) values
           in map_option (\<lambda>percents.
                let valueLen = foldl max 0 (map (\<lambda>row. length (row ! col)) rows);
                    percentLen = foldl max 0 (map length percents)
                in map2 (\<lambda>row percent. row[col := spaces (valueLen - length (row ! col)) @ row ! col @ '' ''
                       @ spaces (percentLen - length percent) @ percent]) rows percents)
              (those (map (\<lambda>v. Percent v best) (take (length rows) values))))"

definition RankMarker :: "int \<Rightarrow> string" where
  "RankMarker rank = '' ['' @ [CHR 0xE2, CHR 0x86, CHR 0x93] @ itoa rank @ '']''"

fun first_index :: "string \<Rightarrow> string list \<Rightarrow> nat option" where
  "first_index h [] = None"
| "first_index h (x # xs) = (if x = h then Some 0 else map_option Suc (first_index h xs))"

text \<open>One rank column: each row's percentage of the best is added to its cell.\<close>

definition percent_column ::
  "string list \<Rightarrow> float64 list list \<Rightarrow> (nat \<times> int \<times> nat \<times> string) \<Rightarrow> string list list option \<Rightarrow> string list list option" where
  "percent_column headers keys kr rows =
     (case (kr, rows) of ((k, rank, i, header), Some rows) \<Rightarrow>
        (case first_index header headers of None \<Rightarrow> Some rows
         | Some col \<Rightarrow> if list_ex (\<lambda>ks. length ks \<le> k) keys then None
                       else withPercent rows col (map (\<lambda>ks. ks ! k) keys))
      | (_, None) \<Rightarrow> None)"

definition mark_title :: "(int \<times> nat \<times> string) \<Rightarrow> string list \<Rightarrow> string list" where
  "mark_title r title =
     (case r of (rank, i, header) \<Rightarrow>
        (case first_index header title of None \<Rightarrow> title
         | Some col \<Rightarrow> title[col := title ! col @ RankMarker rank]))"

text \<open>The titles and the rows of \<^verbatim>\<open>Markdown\<close>'s table, and the headers as it leaves them.\<close>

definition markdown_rows ::
  "md_headers \<Rightarrow> perf_fmt \<Rightarrow> Report list \<Rightarrow> bool \<Rightarrow> string \<Rightarrow> (string \<Rightarrow> bool) option
     \<Rightarrow> (string list \<times> string list list \<times> md_headers) option" where
  "markdown_rows H P reports enableTPN order flt =
     (let p = (case flt of None \<Rightarrow> (\<lambda>_. True) | Some p \<Rightarrow> p);
          reports = SortReports reports order;
          rows = map (\<lambda>r. ObjFieldValues P (report_struct r) enableTPN) reports;
          keys = map RankKeys reports;
          headers = report_Headers H (hd reports);
          ranks = rankFields (report_struct (hd reports))
      in map_option (\<lambda>rows.
           let (ret, H') = Headers H (hd reports) (Some p)
           in (fold mark_title ranks ret, map (\<lambda>row. filtFieldsByHeaders row (Some p)) rows, H'))
         (fold (percent_column headers keys) (enumerate 0 ranks) (Some rows)))"

definition Markdown ::
  "md_headers \<Rightarrow> perf_fmt \<Rightarrow> Report list \<Rightarrow> bool \<Rightarrow> string \<Rightarrow> (string \<Rightarrow> bool) option \<Rightarrow> (string \<times> md_headers) option" where
  "Markdown H P reports enableTPN order flt =
     (if reports = [] then Some ('''', H)
      else map_option (\<lambda>(title, rows, H'). (markdownTable title rows, H'))
             (markdown_rows H P reports enableTPN order flt))"

definition LongLine :: string where "LongLine = replicate 100 CHR ''-'' @ [CHR 0x0A]"

definition ConsoleSection :: "string \<Rightarrow> string \<Rightarrow> string" where
  "ConsoleSection name table =
     LongLine @ ''['' @ name @ '']'' @ [CHR 0x0A, CHR 0x0A]
       @ (if table = '''' then ''(no results)'' @ [CHR 0x0A] else table) @ [CHR 0x0A]"

section \<open>Rows and titles\<close>

lemma Init_headers_eval:
  "Init_headers tpn (cn_struct c) = [''Framework'', ''Lang'', ''TPS'']
     @ (if tpn then [''Min'', ''Avg'', ''Max'', ''TP95'', ''TP99''] else [])
     @ [''Used'', ''Total'', ''Success'', ''Failed'']"
  "Init_headers tpn (be_struct e) = [''Framework'', ''Lang'', ''TPS'', ''CPU EER'', ''MEM EER'']
     @ (if tpn then [''Min'', ''Avg'', ''Max'', ''TP95'', ''TP99''] else [])
     @ [''Used'', ''Success'', ''Failed'', ''CPU Avg'', ''CPU Max'', ''MEM Avg'', ''MEM Max'']"
  "Init_headers tpn (br_struct r) = [''Framework'', ''Lang'', ''TPS'', ''CPU EER'', ''MEM EER'',
     ''Req Sent'', ''Bytes Sent'', ''Resp Recv'', ''Bytes Recv'', ''CPU Avg'', ''CPU Max'', ''MEM Avg'', ''MEM Max'']"
  by (simp_all add: Init_headers_def cn_struct_def be_struct_def br_struct_def field_tags tableColumn_def)

lemma report_Headers_Init: "report_Headers (Init tpn) r = Init_headers tpn (report_struct r)"
  by (cases r) (simp_all add: Init_def Init_headers_eval)

lemma set_Headers_same [simp]: "set_Headers H r (report_Headers H r) = H"
  by (cases r) simp_all

lemma ObjFieldValues_hd: "\<exists>cells. ObjFieldValues P (report_struct r) tpn = report_Framework r # cells"
  by (cases r) (auto simp: ObjFieldValues_def cn_struct_def be_struct_def br_struct_def field_tags
      tableColumn_def cellString_def plain_string_def)


text \<open>A rank key whose percentages are exact enough: none, or within the range of any measurement.\<close>

definition key_ok :: "float64 \<Rightarrow> bool" where
  "key_ok x \<longleftrightarrow> (case x of Fin q \<Rightarrow> q \<le> 0 \<or> 1 / 2 ^ 900 \<le> q \<and> q \<le> 2 ^ 1000 | _ \<Rightarrow> False)"

lemma foldl_f_max:
  assumes "\<forall>v \<in> set vals. key_ok v" and "0 \<le> a" and "a \<le> 2 ^ 1000"
  shows "\<exists>b. foldl f_max (Fin a) vals = Fin b \<and> b \<le> 2 ^ 1000"
  using assms
proof (induction vals arbitrary: a)
  case (Cons v vals)
  then obtain q where q: "v = Fin q" "q \<le> 0 \<or> q \<le> 2 ^ 1000" by (auto simp: key_ok_def split: float64.splits)
  have "f_max (Fin a) v = Fin (max a q)" by (auto simp: q f_max_def max_def)
  moreover have "max a q \<le> 2 ^ 1000" using q(2) Cons.prems by (auto intro: order_trans)
  ultimately show ?case using Cons.IH [of "max a q"] Cons.prems by auto
qed auto

lemma Percent_defined:
  assumes "key_ok x" and "b \<le> 2 ^ 1000"
  shows "\<exists>s. Percent x (Fin b) = Some s"
proof -
  obtain v where v: "x = Fin v" "v \<le> 0 \<or> 1 / 2 ^ 900 \<le> v"
    using assms by (auto simp: key_ok_def split: float64.splits)
  show ?thesis
  proof (cases "v \<le> 0 \<or> b \<le> v")
    case True
    then show ?thesis by (auto simp: Percent_def v f_le_def)
  next
    case False
    then have vb: "0 < v" "v < b" "1 / 2 ^ 900 \<le> v" using v by auto
    from percent_quotient [OF vb assms(2)] obtain s where
      s: "f_add (f_div (f_mul (Fin v) (Fin 100)) (Fin b)) percentSlack = Fin s"
         "100 * v / b \<le> s" "s \<le> 100 * v / b + 2 / 10 ^ 9" .
    have "0 < 100 * v / b" "100 * v / b < 100" using vb by (simp_all add: field_simps)
    with s have "0 \<le> \<lfloor>s\<rfloor>" "\<lfloor>s\<rfloor> \<le> 100" by (simp_all add: le_floor_iff floor_le_iff)
    then show ?thesis using s(1) by (simp add: Percent_def v)
  qed
qed

text \<open>Rows of the same lengths that start with the same cells.\<close>

definition same_rows :: "string list list \<Rightarrow> string list list \<Rightarrow> bool" where
  "same_rows rows rows' \<longleftrightarrow> list_all2 (\<lambda>r r'. length r' = length r \<and> hd r' = hd r) rows rows'"

lemma same_rows_refl: "same_rows rows rows"
  by (simp add: same_rows_def list_all2_same)

lemma same_rows_trans: "same_rows a b \<Longrightarrow> same_rows b c \<Longrightarrow> same_rows a c"
  unfolding same_rows_def by (auto simp: list_all2_conv_all_nth)

lemma same_rowsD: "same_rows rows rows' \<Longrightarrow> \<forall>row \<in> set rows. length row = n \<Longrightarrow>
    length rows' = length rows \<and> (\<forall>row \<in> set rows'. length row = n) \<and> map hd rows' = map hd rows"
  unfolding same_rows_def
  by (induction rows rows' rule: list_all2_induct) auto

lemma those_Some: "\<forall>x \<in> set xs. x \<noteq> None \<Longrightarrow> those xs = Some (map the xs)"
  by (induction xs) auto

lemma withPercent_rows:
  assumes "length vals = length rows" and "\<forall>row \<in> set rows. col < length row" and "0 < col"
    and "\<forall>v \<in> set vals. key_ok v"
  shows "\<exists>rows'. withPercent rows col vals = Some rows' \<and> same_rows rows rows'"
proof -
  obtain b where b: "foldl f_max (Fin 0) vals = Fin b" "b \<le> 2 ^ 1000"
    using foldl_f_max [of vals 0] assms(4) by auto
  define percents where "percents = map (the \<circ> (\<lambda>v. Percent v (Fin b))) vals"
  have "those (map (\<lambda>v. Percent v (Fin b)) vals) = Some percents"
    unfolding percents_def using Percent_defined [OF _ b(2)] assms(4) by (subst those_Some) fastforce+
  moreover have "\<not> list_ex (\<lambda>row. length row \<le> col) rows" using assms(2) by (auto simp: list_ex_iff)
  ultimately have "\<exists>f. withPercent rows col vals = Some (map2 (\<lambda>row percent. row[col := f row percent]) rows percents)"
    using assms(1) by (auto simp: withPercent_def b(1) Let_def)
  moreover have "same_rows rows (map2 (\<lambda>row percent. row[col := f row percent]) rows percents)" for f
  proof -
    have "length percents = length rows" by (simp add: percents_def assms(1))
    moreover have "hd (row[col := x]) = hd row" for row :: "string list" and x using assms(3) by (cases row; cases col) auto
    ultimately show ?thesis by (auto simp: same_rows_def list_all2_conv_all_nth)
  qed
  ultimately show ?thesis by blast
qed

lemma first_index_Some: "first_index h hs = Some i \<Longrightarrow> i < length hs \<and> hs ! i = h"
  by (induction hs arbitrary: i) (auto split: if_splits)

lemma fold_percent_column:
  assumes "\<forall>kr \<in> set krs. fst kr < n \<and> snd (snd (snd kr)) \<noteq> hd headers"
    and "\<forall>ks \<in> set keys. length ks = n \<and> (\<forall>k \<in> set ks. key_ok k)"
    and "length keys = length rows" and "\<forall>row \<in> set rows. length row = length headers"
  shows "\<exists>rows'. fold (percent_column headers keys) krs (Some rows) = Some rows' \<and> same_rows rows rows'"
  using assms
proof (induction krs arbitrary: rows)
  case (Cons kr krs)
  obtain k rank i header where kr: "kr = (k, rank, i, header)" by (metis prod_cases4)
  have "\<exists>rows'. percent_column headers keys kr (Some rows) = Some rows' \<and> same_rows rows rows'"
  proof (cases "first_index header headers")
    case (Some col)
    note col = first_index_Some [OF Some]
    have "0 < col" using col Cons.prems(1) kr by (cases headers; cases col) auto
    moreover have "\<forall>v \<in> set (map (\<lambda>ks. ks ! k) keys). key_ok v" using Cons.prems kr by auto
    moreover have "\<forall>row \<in> set rows. col < length row" using Cons.prems(4) col by simp
    ultimately have "\<exists>rows'. withPercent rows col (map (\<lambda>ks. ks ! k) keys) = Some rows' \<and> same_rows rows rows'"
      using Cons.prems(3) by (intro withPercent_rows) simp_all
    moreover have "\<not> list_ex (\<lambda>ks. length ks \<le> k) keys"
      using Cons.prems(1,2) kr by (auto simp: list_ex_iff)
    ultimately show ?thesis by (simp add: percent_column_def kr Some)
  qed (simp add: percent_column_def kr same_rows_refl)
  then obtain rows' where r: "percent_column headers keys kr (Some rows) = Some rows'" "same_rows rows rows'" by blast
  have "length keys = length rows'" "\<forall>row \<in> set rows'. length row = length headers"
    using same_rowsD [OF r(2) Cons.prems(4)] Cons.prems(3) by simp_all
  then show ?case using Cons.IH [of rows'] Cons.prems r by (auto intro: same_rows_trans)
qed (simp add: same_rows_refl)

lemma length_mark_title [simp]: "length (mark_title r t) = length t"
  by (simp add: mark_title_def split: prod.splits option.splits)

lemma length_fold_mark_title [simp]: "length (fold mark_title rs t) = length t"
  by (induction rs arbitrary: t) auto

lemma ranks_ok:
  "\<forall>kr \<in> set (enumerate 0 (rankFields (report_struct r))).
     fst kr < length (RankKeys r) \<and> snd (snd (snd kr)) \<noteq> hd (Init_headers tpn (report_struct r))"
  by (cases r) (auto simp: rankFields_eval RankKeys_eval Init_headers_eval)

lemma Init_headers_Type: "Type r = Type q \<Longrightarrow> Init_headers tpn (report_struct r) = Init_headers tpn (report_struct q)"
  by (cases r; cases q) (simp_all add: Init_headers_eval BenchMultiplexName_def)

text \<open>The rows with the percentages in, before any filter, of reports in the order they are shown in.\<close>

lemma percent_rows:
  assumes "rs \<noteq> []" and "\<forall>r \<in> set rs. Type r = Type (hd rs)" and "\<forall>r \<in> set rs. \<forall>k \<in> set (RankKeys r). key_ok k"
  shows "\<exists>rows. fold (percent_column (Init_headers tpn (report_struct (hd rs))) (map RankKeys rs))
      (enumerate 0 (rankFields (report_struct (hd rs)))) (Some (map (\<lambda>r. ObjFieldValues P (report_struct r) tpn) rs)) = Some rows
    \<and> map hd rows = map report_Framework rs
    \<and> (\<forall>row \<in> set rows. length row = length (Init_headers tpn (report_struct (hd rs))))"
proof -
  define hs where "hs = Init_headers tpn (report_struct (hd rs))"
  have len: "\<forall>row \<in> set (map (\<lambda>r. ObjFieldValues P (report_struct r) tpn) rs). length row = length hs"
  proof
    fix row
    assume "row \<in> set (map (\<lambda>r. ObjFieldValues P (report_struct r) tpn) rs)"
    then obtain r where "r \<in> set rs" "row = ObjFieldValues P (report_struct r) tpn" by auto
    with assms(2) show "length row = length hs"
      using Init_headers_Type [of r "hd rs" tpn] by (simp add: hs_def length_ObjFieldValues)
  qed
  have "\<exists>rows. fold (percent_column hs (map RankKeys rs)) (enumerate 0 (rankFields (report_struct (hd rs))))
      (Some (map (\<lambda>r. ObjFieldValues P (report_struct r) tpn) rs)) = Some rows
      \<and> same_rows (map (\<lambda>r. ObjFieldValues P (report_struct r) tpn) rs) rows"
  proof (rule fold_percent_column [OF _ _ _ len])
    show "\<forall>kr \<in> set (enumerate 0 (rankFields (report_struct (hd rs)))).
        fst kr < length (RankKeys (hd rs)) \<and> snd (snd (snd kr)) \<noteq> hd hs"
      using ranks_ok [of "hd rs" tpn] by (simp only: hs_def)
    show "\<forall>ks \<in> set (map RankKeys rs). length ks = length (RankKeys (hd rs)) \<and> (\<forall>k \<in> set ks. key_ok k)"
    proof
      fix ks
      assume "ks \<in> set (map RankKeys rs)"
      then obtain r where "r \<in> set rs" "ks = RankKeys r" by auto
      with assms(2,3) show "length ks = length (RankKeys (hd rs)) \<and> (\<forall>k \<in> set ks. key_ok k)"
        using length_RankKeys [of r "hd rs"] by simp
    qed
  qed simp
  then obtain rows where rows:
    "fold (percent_column hs (map RankKeys rs)) (enumerate 0 (rankFields (report_struct (hd rs))))
      (Some (map (\<lambda>r. ObjFieldValues P (report_struct r) tpn) rs)) = Some rows"
    "same_rows (map (\<lambda>r. ObjFieldValues P (report_struct r) tpn) rs) rows" by blast
  have "hd (ObjFieldValues P (report_struct r) tpn) = report_Framework r" for r
    using ObjFieldValues_hd [of P r tpn] by auto
  then show ?thesis using rows(1) same_rowsD [OF rows(2) len] by (auto simp: comp_def hs_def)
qed

lemma shown_reports:
  assumes "reports \<noteq> []" and "\<forall>r \<in> set reports. Type r = t \<and> (\<forall>k \<in> set (RankKeys r). key_ok k)"
  shows "SortReports reports order \<noteq> []" and "\<forall>r \<in> set (SortReports reports order). Type r = Type (hd (SortReports reports order))"
    and "\<forall>r \<in> set (SortReports reports order). \<forall>k \<in> set (RankKeys r). key_ok k"
    and "Init_headers tpn (report_struct (hd (SortReports reports order))) = Init_headers tpn (report_struct (hd reports))"
proof -
  have set: "set (SortReports reports order) = set reports" using mset_SortReports by (rule mset_eq_setD)
  with assms(1) show ne: "SortReports reports order \<noteq> []" by (metis set_empty)
  then have "hd (SortReports reports order) \<in> set reports" using set by (metis list.set_sel(1))
  moreover have "hd reports \<in> set reports" using assms(1) by simp
  ultimately show "Init_headers tpn (report_struct (hd (SortReports reports order))) = Init_headers tpn (report_struct (hd reports))"
    "\<forall>r \<in> set (SortReports reports order). Type r = Type (hd (SortReports reports order))"
    using assms(2) set Init_headers_Type by auto
  show "\<forall>r \<in> set (SortReports reports order). \<forall>k \<in> set (RankKeys r). key_ok k" using assms(2) set by simp
qed

text \<open>The table of any filter, from the rows of the whole one: a cell is kept by its own text, a title by the header.\<close>

lemma markdown_rows_filter:
  assumes "reports \<noteq> []" and "\<forall>r \<in> set reports. Type r = t \<and> (\<forall>k \<in> set (RankKeys r). key_ok k)"
  shows "\<exists>rows. (\<forall>flt. markdown_rows (Init tpn) P reports tpn order flt =
      (let p = (case flt of None \<Rightarrow> (\<lambda>_. True) | Some p \<Rightarrow> p); hs = Init_headers tpn (report_struct (hd reports))
       in Some (fold mark_title (rankFields (report_struct (hd (SortReports reports order)))) (filter p hs), map (filter p) rows,
            set_Headers (Init tpn) (hd (SortReports reports order)) (filter p hs @ drop (length (filter p hs)) hs))))
    \<and> map hd rows = map report_Framework (SortReports reports order)
    \<and> (\<forall>row \<in> set rows. length row = length (Init_headers tpn (report_struct (hd reports))))"
proof -
  note shown = shown_reports [OF assms, where order = order]
  obtain rows where rows: "fold (percent_column (Init_headers tpn (report_struct (hd reports))) (map RankKeys (SortReports reports order)))
      (enumerate 0 (rankFields (report_struct (hd (SortReports reports order)))))
      (Some (map (\<lambda>r. ObjFieldValues P (report_struct r) tpn) (SortReports reports order))) = Some rows"
    "map hd rows = map report_Framework (SortReports reports order)"
    "\<forall>row \<in> set rows. length row = length (Init_headers tpn (report_struct (hd reports)))"
    using percent_rows [OF shown(1-3)] unfolding shown(4) by blast
  then show ?thesis
    by (intro exI [of _ rows])
      (simp add: markdown_rows_def Let_def report_Headers_Init shown(4) Headers_def filtHeaders_def filtFieldsByHeaders_def filt_in_place_def)
qed

lemma set_Headers_Init: "set_Headers (Init tpn) r (Init_headers tpn (report_struct r)) = Init tpn"
  by (cases r) (simp_all add: Init_def Init_headers_eval)

lemma Markdown_table:
  assumes "reports \<noteq> []" and "\<forall>r \<in> set reports. Type r = t \<and> (\<forall>k \<in> set (RankKeys r). key_ok k)"
  shows "\<exists>title rows. Markdown (Init tpn) P reports tpn order None = Some (markdownTable title rows, Init tpn)
    \<and> map hd rows = map report_Framework (SortReports reports order)
    \<and> (\<forall>row \<in> set rows. length row = length title)"
proof -
  obtain rows where rows: "\<And>flt. markdown_rows (Init tpn) P reports tpn order flt =
      (let p = (case flt of None \<Rightarrow> (\<lambda>_. True) | Some p \<Rightarrow> p); hs = Init_headers tpn (report_struct (hd reports))
       in Some (fold mark_title (rankFields (report_struct (hd (SortReports reports order)))) (filter p hs), map (filter p) rows,
            set_Headers (Init tpn) (hd (SortReports reports order)) (filter p hs @ drop (length (filter p hs)) hs)))"
    and r: "map hd rows = map report_Framework (SortReports reports order)"
      "\<forall>row \<in> set rows. length row = length (Init_headers tpn (report_struct (hd reports)))"
    using markdown_rows_filter [OF assms, of tpn P order] by blast
  have "set_Headers (Init tpn) (hd (SortReports reports order)) (Init_headers tpn (report_struct (hd reports))) = Init tpn"
    using set_Headers_Init [of tpn "hd (SortReports reports order)"] by (simp only: shown_reports(4) [OF assms])
  moreover have "map (filter (\<lambda>_. True)) rows = rows" by (simp add: map_idI)
  ultimately have "Markdown (Init tpn) P reports tpn order None = Some (markdownTable
      (fold mark_title (rankFields (report_struct (hd (SortReports reports order)))) (Init_headers tpn (report_struct (hd reports)))) rows, Init tpn)"
    using assms(1) by (simp add: Markdown_def rows)
  with r show ?thesis by fastforce
qed

text \<open>
  C32. A table of reports of one benchmark whose results are in a measurement's range is always made, in either order,
  and has a row for each report,
  starting with its framework in that order and with a cell for each title; the shared headers are left as they were.
\<close>

theorem Markdown_rows:
  assumes "reports \<noteq> []" and "\<forall>r \<in> set reports. Type r = t \<and> (\<forall>k \<in> set (RankKeys r). key_ok k)"
  shows "\<exists>title rows. Markdown (Init tpn) P reports tpn order None = Some (markdownTable title rows, Init tpn)
    \<and> map hd rows = map report_Framework (SortReports reports order)
    \<and> (\<forall>row \<in> set rows. length row = length title)"
  using Markdown_table [OF assms] .

definition plain_fmt :: perf_fmt where
  "plain_fmt = \<lparr>I2MemString = itoa_nat, I2TimeString = itoa\<rparr>"

theorem Markdown_rows_witness:
  "\<exists>title rows. Markdown (Init True) plain_fmt sample_reports True ''result'' None = Some (markdownTable title rows, Init True)
    \<and> map hd rows = map report_Framework (SortReports sample_reports ''result'')
    \<and> (\<forall>row \<in> set rows. length row = length title)"
  by (rule Markdown_rows [where t = "''BenchEcho''"])
    (simp_all add: sample_reports_def RankKeys_eval create_BenchEcho_def f_of_int_def round64_def key_ok_def)

text \<open>
  C33. With a filter the rows no longer match the titles: a title is kept by its column's header, but a cell by its own
  text, so that a filter that drops a column and lets every text through leaves every row with more cells than there are
  titles; and the headers every later table of the type is made from are overwritten with those kept, from the left.
\<close>

theorem Markdown_filter_mismatch:
  assumes "reports \<noteq> []" and "\<forall>r \<in> set reports. Type r = t \<and> (\<forall>k \<in> set (RankKeys r). key_ok k)"
    and "hs = Init_headers tpn (report_struct (hd reports))"
  shows "\<exists>whole rows title' H'. markdown_rows (Init tpn) P reports tpn order None = Some (whole, rows, Init tpn)
    \<and> length whole = length hs \<and> (\<forall>row \<in> set rows. length row = length hs)
    \<and> markdown_rows (Init tpn) P reports tpn order (Some p) = Some (title', map (filter p) rows, H')
    \<and> length title' = length (filter p hs)
    \<and> ((\<forall>row \<in> set rows. list_all p row) \<and> \<not> list_all p hs \<longrightarrow> (\<forall>row \<in> set (map (filter p) rows). length title' < length row))
    \<and> report_Headers H' (hd (SortReports reports order)) = filter p hs @ drop (length (filter p hs)) hs"
proof -
  obtain rows where rows: "\<And>flt. markdown_rows (Init tpn) P reports tpn order flt =
      (let p = (case flt of None \<Rightarrow> (\<lambda>_. True) | Some p \<Rightarrow> p); hs = Init_headers tpn (report_struct (hd reports))
       in Some (fold mark_title (rankFields (report_struct (hd (SortReports reports order)))) (filter p hs), map (filter p) rows,
            set_Headers (Init tpn) (hd (SortReports reports order)) (filter p hs @ drop (length (filter p hs)) hs)))"
    and r: "\<forall>row \<in> set rows. length row = length hs"
    using markdown_rows_filter [OF assms(1,2), of tpn P order] unfolding assms(3) by blast
  have none: "set_Headers (Init tpn) (hd (SortReports reports order)) hs = Init tpn"
    using set_Headers_Init [of tpn "hd (SortReports reports order)"] by (simp only: shown_reports(4) [OF assms(1,2)] assms(3))
  have heads: "report_Headers (set_Headers H q xs) q = xs" for H q xs by (cases q) simp_all
  have "length (filter p hs) < length (filter p row)" if "row \<in> set rows" "list_all p row" "\<not> list_all p hs" for row
  proof -
    have "filter p row = row" using that(2) by (simp add: filter_id_conv list_all_iff)
    moreover have "length (filter p hs) < length hs" using that(3) length_filter_less [of _ hs p] by (auto simp: list_all_iff)
    ultimately show ?thesis using r that(1) by simp
  qed
  moreover have "map (filter (\<lambda>_. True)) rows = rows" by (simp add: map_idI)
  ultimately show ?thesis using r none by (simp add: rows assms(3) [symmetric] heads)
qed

theorem Markdown_filter_mismatch_witness:
  "\<exists>title rows H'. markdown_rows (Init True) plain_fmt sample_reports True ''result'' (Some (\<lambda>h. h \<noteq> ''Lang'')) = Some (title, rows, H')
     \<and> length title = length (filter (\<lambda>h. h \<noteq> ''Lang'') (Init_headers True (report_struct (hd sample_reports))))"
proof -
  have "\<forall>r \<in> set sample_reports. Type r = ''BenchEcho'' \<and> (\<forall>k \<in> set (RankKeys r). key_ok k)" "sample_reports \<noteq> []"
    by (simp_all add: sample_reports_def RankKeys_eval create_BenchEcho_def f_of_int_def round64_def key_ok_def)
  from Markdown_filter_mismatch [OF this(2,1) refl, of True plain_fmt "''result''" "\<lambda>h. h \<noteq> ''Lang''"] show ?thesis by blast
qed

end
