(* ===== verification/ReportSummary.thy ===== *)
theory ReportSummary
  imports ReportTable
begin

text \<open>
  The Summary table (\<^verbatim>\<open>summary.go\<close>): the parameters of a run, collected from the summary-tagged fields
  of every report. The map from a parameter's name to its values is an association list in the order
  the names were found, which is what the source keeps beside it in \<^verbatim>\<open>names\<close>.
\<close>

definition ProjectName :: string where "ProjectName = ''GO-HTTP2-BENCHMARK''"
definition projectParameter :: string where "projectParameter = ''Project''"

definition SummaryParameters :: "(string \<times> string) list" where
  "SummaryParameters =
     [(projectParameter, ''The benchmark project these reports are from''),
      (''Client'', ''The benchmark client the load came from''),
      (''Conns'', ''HTTP/2 connections dialed (-c) and used by every benchmark''),
      (''Payload'', ''Request body size in bytes (-b), which the server echoes back''),
      (''Max Streams'', ''Streams the server lets one connection have open at once (servers'' @ [CHR 0x27] @ '' -maxstreams)''),
      (''Dial Concurrency'', ''Connections dialed at once in Connections (-dc)''),
      (''Echo Concurrency'', ''Requests in flight at once in BenchEcho, over all connections (-ec)''),
      (''Echo Streams'', ''Requests in flight at once on one connection in BenchEcho (-es)''),
      (''Echo Total'', ''Request/response round trips BenchEcho makes in all (-en)''),
      (''Echo Pprof'', ''Whether the client asks each Go server for pprof - the CPU for -epd seconds, and the heap - in BenchEcho (-ep)''),
      (''Rate Concurrency'', ''Writers sending BenchMultiplex'' @ [CHR 0x27] @ ''s batches, over all connections (-rc)''),
      (''Rate Duration'', ''How long BenchMultiplex sends for (-rd)''),
      (''Rate SendRate'', ''Requests sent to each connection per second in BenchMultiplex (-rr)''),
      (''Rate Batch'', ''Requests, a stream each, sent to a connection at once in BenchMultiplex (-rpl)''),
      (''Rate Pprof'', ''Whether the client asks each Go server for pprof - the CPU for -rpd seconds, and the heap - in BenchMultiplex (-rp)'')]"

record summaryValue =
  sv_value :: string
  sv_frameworks :: "string list"

definition summaryDescription :: "string \<Rightarrow> string" where
  "summaryDescription name = (case map_of SummaryParameters name of None \<Rightarrow> '''' | Some d \<Rightarrow> d)"

fun addSummaryValue :: "summaryValue list \<Rightarrow> string \<Rightarrow> string \<Rightarrow> summaryValue list" where
  "addSummaryValue [] v framework = [\<lparr>sv_value = v, sv_frameworks = [framework]\<rparr>]"
| "addSummaryValue (x # xs) v framework =
     (if sv_value x = v
      then (if framework \<in> set (sv_frameworks x) then x # xs
            else x\<lparr>sv_frameworks := sv_frameworks x @ [framework]\<rparr> # xs)
      else x # addSummaryValue xs v framework)"

definition summaryString :: "summaryValue list \<Rightarrow> string" where
  "summaryString vs =
     (if length vs = 1 then sv_value (hd vs)
      else Join (map (\<lambda>v. sv_value v @ '' ('' @ Join (sv_frameworks v) '', '' @ '')'') vs) ''; '')"

definition summaryOrder :: "string list \<Rightarrow> string list" where
  "summaryOrder names =
     (let listed = filter (\<lambda>n. n \<in> set names) (remdups (map fst SummaryParameters))
      in listed @ filter (\<lambda>n. n \<notin> set listed) names)"

type_synonym summary_map = "(string \<times> summaryValue list) list"

fun summary_put :: "summary_map \<Rightarrow> string \<Rightarrow> string \<Rightarrow> string \<Rightarrow> summary_map" where
  "summary_put [] name cell framework = [(name, addSummaryValue [] cell framework)]"
| "summary_put ((n, vs) # m) name cell framework =
     (if n = name then (n, addSummaryValue vs cell framework) # m
      else (n, vs) # summary_put m name cell framework)"

text \<open>The cells a report has a say with: its framework, then each parameter and its value.\<close>

definition summary_cells :: "perf_fmt \<Rightarrow> Report \<Rightarrow> (string \<times> string) list" where
  "summary_cells P r =
     filter (\<lambda>(name, cell). cell \<noteq> '''')
       (map (\<lambda>(f, v). (fd_summary f, cellString P f v)) (filter (\<lambda>(f, v). fd_summary f \<noteq> '''') (report_struct r)))"

definition summary_report :: "perf_fmt \<Rightarrow> Report \<Rightarrow> summary_map \<Rightarrow> summary_map" where
  "summary_report P r m = fold (\<lambda>(name, cell) m. summary_put m name cell (report_Framework r)) (summary_cells P r) m"

definition summary_values :: "perf_fmt \<Rightarrow> Report list list \<Rightarrow> summary_map" where
  "summary_values P tables = fold (fold (summary_report P)) tables []"

definition summary_rows :: "summary_map \<Rightarrow> string list list" where
  "summary_rows m =
     [projectParameter, ProjectName, summaryDescription projectParameter]
     # map (\<lambda>name. [name, summaryString (the (map_of m name)), summaryDescription name]) (summaryOrder (map fst m))"

definition Summary :: "perf_fmt \<Rightarrow> Report list list \<Rightarrow> string" where
  "Summary P tables =
     (let m = summary_values P tables
      in if m = [] then ''''
         else markdownTableAligned [''Parameter'', ''Value'', ''Description''] (summary_rows m) True)"


section \<open>What the Summary says\<close>

text \<open>The abstract content: who said which parameter has which value.\<close>

definition said :: "summary_map \<Rightarrow> (string \<times> string \<times> string) set" where
  "said m = {(n, v, f). \<exists>(n', vs) \<in> set m. n' = n \<and> (\<exists>x \<in> set vs. sv_value x = v \<and> f \<in> set (sv_frameworks x))}"

definition values_ok :: "summaryValue list \<Rightarrow> bool" where
  "values_ok vs \<longleftrightarrow> vs \<noteq> [] \<and> distinct (map sv_value vs)
     \<and> (\<forall>x \<in> set vs. sv_frameworks x \<noteq> [] \<and> distinct (sv_frameworks x))"

definition summary_ok :: "summary_map \<Rightarrow> bool" where
  "summary_ok m \<longleftrightarrow> distinct (map fst m) \<and> (\<forall>(n, vs) \<in> set m. values_ok vs)"

definition value_said :: "summaryValue list \<Rightarrow> (string \<times> string) set" where
  "value_said vs = {(v, f). \<exists>x \<in> set vs. sv_value x = v \<and> f \<in> set (sv_frameworks x)}"

lemma said_Nil [simp]: "said [] = {}"
  by (simp add: said_def)

lemma said_Cons: "said ((n, vs) # m) = (\<lambda>(v, f). (n, v, f)) ` value_said vs \<union> said m"
  by (auto simp: said_def value_said_def)

lemma set_addSummaryValue: "sv_value ` set (addSummaryValue vs v f) = insert v (sv_value ` set vs)"
  by (induction vs) auto

lemma value_said_add: "value_said (addSummaryValue vs v f) = insert (v, f) (value_said vs)"
  by (induction vs) (auto simp: value_said_def)

lemma values_ok_add:
  assumes "vs = [] \<or> values_ok vs"
  shows "values_ok (addSummaryValue vs v f)"
  using assms
proof (induction vs)
  case (Cons x vs)
  have "v \<notin> sv_value ` set vs \<or> sv_value x \<noteq> v" using Cons.prems by (auto simp: values_ok_def)
  moreover have "vs = [] \<or> values_ok vs" using Cons.prems by (auto simp: values_ok_def)
  ultimately show ?case using Cons set_addSummaryValue [of vs v f]
    by (auto simp: values_ok_def)
qed (simp add: values_ok_def)

lemma said_put: "said (summary_put m n v f) = insert (n, v, f) (said m)"
proof (induction m)
  case Nil
  then show ?case by (simp add: said_Cons value_said_def)
next
  case (Cons a m)
  obtain n' vs where "a = (n', vs)" by fastforce
  with Cons show ?case by (auto simp: said_Cons value_said_add)
qed

lemma set_summary_put: "fst ` set (summary_put m n v f) = insert n (fst ` set m)"
proof (induction m)
  case (Cons a m)
  obtain n' vs where "a = (n', vs)" by fastforce
  with Cons show ?case by (cases "n' = n") (simp_all add: insert_commute)
qed simp

lemma summary_ok_put: "summary_ok m \<Longrightarrow> summary_ok (summary_put m n v f)"
proof (induction m)
  case (Cons a m)
  obtain n' vs where a: "a = (n', vs)" by fastforce
  then show ?case using Cons set_summary_put [of m n v f] values_ok_add [of vs v f]
    by (auto simp: summary_ok_def)
qed (simp add: summary_ok_def values_ok_def)

definition says :: "perf_fmt \<Rightarrow> Report \<Rightarrow> (string \<times> string \<times> string) set" where
  "says P r = {(n, c, report_Framework r) | n c. (n, c) \<in> set (summary_cells P r)}"

text \<open>An invariant of the loops, and the content they have added so far.\<close>

lemma fold_summary_put:
  "summary_ok m \<Longrightarrow> summary_ok (fold (\<lambda>(n, c) m. summary_put m n c f) cs m)
     \<and> said (fold (\<lambda>(n, c) m. summary_put m n c f) cs m) = said m \<union> {(n, c, f) | n c. (n, c) \<in> set cs}"
  by (induction cs arbitrary: m) (auto simp: summary_ok_put said_put split: prod.splits)

lemma fold_summary_report:
  "summary_ok m \<Longrightarrow> summary_ok (fold (summary_report P) rs m)
     \<and> said (fold (summary_report P) rs m) = said m \<union> (\<Union>r \<in> set rs. says P r)"
  by (induction rs arbitrary: m) (auto simp: summary_report_def fold_summary_put says_def)

lemma fold_summary_tables:
  "summary_ok m \<Longrightarrow> summary_ok (fold (fold (summary_report P)) ts m)
     \<and> said (fold (fold (summary_report P)) ts m) = said m \<union> (\<Union>r \<in> set (concat ts). says P r)"
  by (induction ts arbitrary: m) (auto simp: fold_summary_report)

lemma summary_values_said:
  "summary_ok (summary_values P tables)"
  "said (summary_values P tables) = (\<Union>r \<in> set (concat tables). says P r)"
  using fold_summary_tables [of "[]" P tables] by (auto simp: summary_values_def summary_ok_def)

lemma filter_one: "distinct xs \<Longrightarrow> x \<in> set xs \<Longrightarrow> filter (\<lambda>y. y = x) xs = [x]"
proof (induction xs)
  case (Cons a xs)
  have "a \<notin> set xs \<Longrightarrow> filter (\<lambda>y. y = a) xs = []" by (auto simp: filter_empty_conv)
  with Cons show ?case by auto
qed simp

lemma summaryOrder_set: "set (summaryOrder names) = set names"
  by (auto simp: summaryOrder_def Let_def)

lemma summaryOrder_distinct: "distinct names \<Longrightarrow> distinct (summaryOrder names)"
  by (auto simp: summaryOrder_def Let_def)

lemma summaryString_agreed:
  assumes "values_ok vs" and "\<forall>x \<in> set vs. sv_value x = c"
  shows "summaryString vs = c"
proof -
  obtain x xs where vs: "vs = x # xs" using assms(1) by (cases vs) (auto simp: values_ok_def)
  have "xs = []"
  proof (cases xs)
    case (Cons y ys)
    with vs assms(2) have "sv_value x = sv_value y" by simp
    with Cons vs assms(1) show ?thesis by (auto simp: values_ok_def)
  qed
  with vs assms(2) show ?thesis by (simp add: summaryString_def)
qed

text \<open>
  C30. The Summary collects from the rows of the tables exactly what they say of each parameter: a value with
  a framework is kept when some row of that framework has that value, once, and nothing else is.
\<close>

theorem summary_values_refine:
  "said (summary_values P tables)
     = {(name, cell, report_Framework r) | name cell r.
          r \<in> set (concat tables) \<and> (name, cell) \<in> set (summary_cells P r)}
   \<and> summary_ok (summary_values P tables)"
  unfolding summary_values_said(2) says_def using summary_values_said(1) by blast

text \<open>
  A parameter that every row with a say agrees on is shown as that value alone, with its
  description, in a row of its own.
\<close>

theorem summary_agreed:
  assumes "\<exists>r \<in> set (concat tables). (name, c) \<in> set (summary_cells P r)"
    and "\<forall>r \<in> set (concat tables). \<forall>c'. (name, c') \<in> set (summary_cells P r) \<longrightarrow> c' = c"
  shows "filter (\<lambda>row. hd row = name) (tl (summary_rows (summary_values P tables)))
           = [[name, c, summaryDescription name]]"
proof -
  define m where "m = summary_values P tables"
  have ok: "summary_ok m" and sd: "said m = (\<Union>r \<in> set (concat tables). says P r)"
    unfolding m_def by (fact summary_values_said)+
  have "\<exists>f. (name, c, f) \<in> said m" using assms(1) unfolding sd says_def by blast
  then obtain vs where vs: "(name, vs) \<in> set m" by (auto simp: said_def)
  with ok have mo: "map_of m name = Some vs" "values_ok vs" by (auto simp: summary_ok_def)
  have "sv_value x = c" if "x \<in> set vs" for x
  proof -
    have "sv_frameworks x \<noteq> []" using mo(2) that by (simp add: values_ok_def)
    then obtain f where "f \<in> set (sv_frameworks x)" by (meson last_in_set)
    with vs that have "(name, sv_value x, f) \<in> said m" by (auto simp: said_def)
    with assms(2) show ?thesis unfolding sd says_def by blast
  qed
  then have str: "summaryString vs = c" using summaryString_agreed mo(2) by blast
  have names: "name \<in> set (summaryOrder (map fst m))" "distinct (summaryOrder (map fst m))"
    using vs ok by (force simp: summaryOrder_set, simp add: summaryOrder_distinct summary_ok_def)
  have "filter (\<lambda>n. n = name) (summaryOrder (map fst m)) = [name]"
    using names by (simp add: filter_one)
  then show ?thesis
    by (simp add: summary_rows_def filter_map comp_def m_def [symmetric] mo str)
qed

theorem summary_agreed_witness:
  "filter (\<lambda>row. hd row = ''Echo Streams'')
     (tl (summary_rows (summary_values plain_fmt [[EchoR (create_BenchEcho ''fib''), EchoR (create_BenchEcho ''gin'')]])))
   = [[''Echo Streams'', ''0'', summaryDescription ''Echo Streams'']]"
proof (rule summary_agreed)
  have cells: "(''Echo Streams'', c) \<in> set (summary_cells plain_fmt (EchoR (create_BenchEcho f))) \<longleftrightarrow> c = ''0''" for c f
    by (auto simp: summary_cells_def be_struct_def field_tags create_BenchEcho_def cellString_def plain_string_def
        itoa_def itoa_nat.simps)
  show "\<exists>r \<in> set (concat [[EchoR (create_BenchEcho ''fib''), EchoR (create_BenchEcho ''gin'')]]).
      (''Echo Streams'', ''0'') \<in> set (summary_cells plain_fmt r)"
    by (simp add: cells)
  show "\<forall>r \<in> set (concat [[EchoR (create_BenchEcho ''fib''), EchoR (create_BenchEcho ''gin'')]]).
      \<forall>c'. (''Echo Streams'', c') \<in> set (summary_cells plain_fmt r) \<longrightarrow> c' = ''0''"
    by (simp add: cells)
qed

end
