(* ===== verification/ReportFiles.thy ===== *)
theory ReportFiles
  imports ReportSummary
begin

text \<open>
  Report files: \<^verbatim>\<open>ToFile\<close>, \<^verbatim>\<open>ReadReports\<close> and what is generated from them (\<^verbatim>\<open>reporter.go\<close>).

  A file is its bytes, or the JSON object \<^verbatim>\<open>encoding/json\<close> writes for a report: its keys with their
  literals, in the order of the fields. A number literal is kept as what it is read back as:
  the integer it spells, when it is one, and the nearest \<^verbatim>\<open>float64\<close>. The file system says of
  each path whether it can be written.
\<close>

datatype json_lit = JStr string | JNum "int option" float64

datatype content = Raw bytes | Text string | Json "(string \<times> json_lit) list"

record fs =
  writable :: "string \<Rightarrow> bool"
  files :: "string \<Rightarrow> content option"

definition os_WriteFile :: "string \<Rightarrow> content \<Rightarrow> fs \<Rightarrow> bool \<times> fs" where
  "os_WriteFile name c F =
     (if writable F name then (True, F\<lparr>files := (files F)(name \<mapsto> c)\<rparr>) else (False, F))"

section \<open>JSON\<close>

definition j_str :: "string \<Rightarrow> string \<Rightarrow> (string \<times> json_lit) option" where
  "j_str key s = Some (key, JStr s)"

definition j_int :: "string \<Rightarrow> int \<Rightarrow> (string \<times> json_lit) option" where
  "j_int key n = Some (key, JNum (Some n) (f_of_int n))"

text \<open>An infinity or a NaN is refused; a whole number under \<open>10 ^ 21\<close> is written without a point.\<close>

fun j_float :: "string \<Rightarrow> float64 \<Rightarrow> (string \<times> json_lit) option" where
  "j_float key (Fin x) =
     Some (key, JNum (if x \<in> \<int> \<and> \<bar>x\<bar> < 10 ^ 21 then Some \<lfloor>x\<rfloor> else None) (Fin x))"
| "j_float key x = None"

definition cn_fields :: "ConnectionsReport \<Rightarrow> (string \<times> json_lit) option list" where
  "cn_fields r =
     [j_str ''Framework'' (cn_Framework r), j_str ''BenchClient'' (cn_BenchClient r), j_int ''TPS'' (cn_TPS r),
      j_int ''Min'' (cn_Min r), j_int ''Avg'' (cn_Avg r), j_int ''Max'' (cn_Max r), j_int ''TP50'' (cn_TP50 r),
      j_int ''TP75'' (cn_TP75 r), j_int ''TP90'' (cn_TP90 r), j_int ''TP95'' (cn_TP95 r), j_int ''TP99'' (cn_TP99 r),
      j_int ''Used'' (cn_Used r), j_int ''Total'' (cn_Total r), j_int ''Success'' (cn_Success r),
      j_int ''Failed'' (cn_Failed r), j_int ''Concurrency'' (cn_Concurrency r), j_int ''MaxStreams'' (cn_MaxStreams r)]"

definition be_fields :: "BenchEchoReport \<Rightarrow> (string \<times> json_lit) option list" where
  "be_fields r =
     [j_str ''Framework'' (be_Framework r), j_str ''BenchClient'' (be_BenchClient r), j_int ''TPS'' (be_TPS r),
      j_float ''EER'' (be_EER r), j_float ''MEMEER'' (be_MEMEER r),
      j_int ''Min'' (be_Min r), j_int ''Avg'' (be_Avg r), j_int ''Max'' (be_Max r), j_int ''TP50'' (be_TP50 r),
      j_int ''TP75'' (be_TP75 r), j_int ''TP90'' (be_TP90 r), j_int ''TP95'' (be_TP95 r), j_int ''TP99'' (be_TP99 r),
      j_int ''Used'' (be_Used r), j_int ''Total'' (be_Total r), j_int ''Success'' (be_Success r),
      j_int ''Failed'' (be_Failed r), j_int ''Conns'' (be_Connections r), j_int ''Concurrency'' (be_Concurrency r),
      j_int ''Streams'' (be_Streams r), j_int ''Payload'' (be_Payload r)]
     @ (if be_Pprof r = '''' then [] else [j_str ''Pprof'' (be_Pprof r)])
     @ [j_float ''CPUMin'' (be_CPUMin r), j_float ''CPUAvg'' (be_CPUAvg r), j_float ''CPUMax'' (be_CPUMax r),
        j_int ''MEMMin'' (int (be_MEMRSSMin r)), j_int ''MEMAvg'' (int (be_MEMRSSAvg r)),
        j_int ''MEMMax'' (int (be_MEMRSSMax r))]"

definition br_fields :: "BenchRateReport \<Rightarrow> (string \<times> json_lit) option list" where
  "br_fields r =
     [j_str ''Framework'' (br_Framework r), j_str ''BenchClient'' (br_BenchClient r),
      j_int ''Duration'' (br_Duration r), j_int ''TPS'' (br_TPS r),
      j_float ''EchoEER'' (br_EchoEER r), j_float ''MEMEER'' (br_MEMEER r),
      j_int ''SendTimes'' (br_SendTimes r), j_int ''SendBytes'' (br_SendBytes r),
      j_int ''RecvTimes'' (br_RecvTimes r), j_int ''RecvBytes'' (br_RecvBytes r),
      j_int ''Conns'' (br_Connections r), j_int ''Concurrency'' (br_Concurrency r),
      j_int ''SendRate'' (br_SendRate r), j_int ''Batch'' (br_Batch r), j_int ''Payload'' (br_Payload r)]
     @ (if br_Pprof r = '''' then [] else [j_str ''Pprof'' (br_Pprof r)])
     @ [j_float ''CPUMin'' (br_CPUMin r), j_float ''CPUAvg'' (br_CPUAvg r), j_float ''CPUMax'' (br_CPUMax r),
        j_int ''MEMMin'' (int (br_MEMRSSMin r)), j_int ''MEMAvg'' (int (br_MEMRSSAvg r)),
        j_int ''MEMMax'' (int (br_MEMRSSMax r))]"

fun Marshal :: "Report \<Rightarrow> (string \<times> json_lit) list option" where
  "Marshal (ConnR r) = those (cn_fields r)"
| "Marshal (EchoR r) = those (be_fields r)"
| "Marshal (RateR r) = those (br_fields r)"

text \<open>
  Reading a key into a field: a missing key leaves the field as it is, a literal of another type, or a
  number that does not fit, is an error.
\<close>

definition int64 :: "int \<Rightarrow> bool" where "int64 n \<longleftrightarrow> - (2 ^ 63) \<le> n \<and> n < 2 ^ 63"

definition uint64_range :: "int \<Rightarrow> bool" where "uint64_range n \<longleftrightarrow> 0 \<le> n \<and> n < 2 ^ 64"

definition u_str :: "(string \<times> json_lit) list \<Rightarrow> string \<Rightarrow> (string \<Rightarrow> 'r \<Rightarrow> 'r) \<Rightarrow> 'r option \<Rightarrow> 'r option" where
  "u_str j key upd r =
     (case map_of j key of None \<Rightarrow> r | Some (JStr s) \<Rightarrow> map_option (upd s) r | Some _ \<Rightarrow> None)"

definition u_num :: "(int \<Rightarrow> bool) \<Rightarrow> (string \<times> json_lit) list \<Rightarrow> string \<Rightarrow> (int \<Rightarrow> 'r \<Rightarrow> 'r) \<Rightarrow> 'r option \<Rightarrow> 'r option" where
  "u_num ok j key upd r =
     (case map_of j key of None \<Rightarrow> r
      | Some (JNum (Some n) _) \<Rightarrow> if ok n then map_option (upd n) r else None
      | Some _ \<Rightarrow> None)"

abbreviation u_int :: "(string \<times> json_lit) list \<Rightarrow> string \<Rightarrow> (int \<Rightarrow> 'r \<Rightarrow> 'r) \<Rightarrow> 'r option \<Rightarrow> 'r option" where
  "u_int \<equiv> u_num int64"

definition u_uint :: "(string \<times> json_lit) list \<Rightarrow> string \<Rightarrow> (nat \<Rightarrow> 'r \<Rightarrow> 'r) \<Rightarrow> 'r option \<Rightarrow> 'r option" where
  "u_uint j key upd r = u_num uint64_range j key (\<lambda>n. upd (nat n)) r"

definition u_float :: "(string \<times> json_lit) list \<Rightarrow> string \<Rightarrow> (float64 \<Rightarrow> 'r \<Rightarrow> 'r) \<Rightarrow> 'r option \<Rightarrow> 'r option" where
  "u_float j key upd r =
     (case map_of j key of None \<Rightarrow> r
      | Some (JNum _ (Fin x)) \<Rightarrow> map_option (upd (Fin x)) r
      | Some _ \<Rightarrow> None)"

definition cn_Unmarshal :: "(string \<times> json_lit) list \<Rightarrow> ConnectionsReport \<Rightarrow> ConnectionsReport option" where
  "cn_Unmarshal j r =
     fold (\<lambda>f. f)
       [u_str j ''Framework'' (\<lambda>s. cn_Framework_update (\<lambda>_. s)), u_str j ''BenchClient'' (\<lambda>s. cn_BenchClient_update (\<lambda>_. s)),
        u_int j ''TPS'' (\<lambda>n. cn_TPS_update (\<lambda>_. n)), u_int j ''Min'' (\<lambda>n. cn_Min_update (\<lambda>_. n)),
        u_int j ''Avg'' (\<lambda>n. cn_Avg_update (\<lambda>_. n)), u_int j ''Max'' (\<lambda>n. cn_Max_update (\<lambda>_. n)),
        u_int j ''TP50'' (\<lambda>n. cn_TP50_update (\<lambda>_. n)), u_int j ''TP75'' (\<lambda>n. cn_TP75_update (\<lambda>_. n)),
        u_int j ''TP90'' (\<lambda>n. cn_TP90_update (\<lambda>_. n)), u_int j ''TP95'' (\<lambda>n. cn_TP95_update (\<lambda>_. n)),
        u_int j ''TP99'' (\<lambda>n. cn_TP99_update (\<lambda>_. n)), u_int j ''Used'' (\<lambda>n. cn_Used_update (\<lambda>_. n)),
        u_int j ''Total'' (\<lambda>n. cn_Total_update (\<lambda>_. n)), u_int j ''Success'' (\<lambda>n. cn_Success_update (\<lambda>_. n)),
        u_int j ''Failed'' (\<lambda>n. cn_Failed_update (\<lambda>_. n)), u_int j ''Concurrency'' (\<lambda>n. cn_Concurrency_update (\<lambda>_. n)),
        u_int j ''MaxStreams'' (\<lambda>n. cn_MaxStreams_update (\<lambda>_. n))] (Some r)"

definition be_Unmarshal :: "(string \<times> json_lit) list \<Rightarrow> BenchEchoReport \<Rightarrow> BenchEchoReport option" where
  "be_Unmarshal j r =
     fold (\<lambda>f. f)
       [u_str j ''Framework'' (\<lambda>s. be_Framework_update (\<lambda>_. s)), u_str j ''BenchClient'' (\<lambda>s. be_BenchClient_update (\<lambda>_. s)),
        u_int j ''TPS'' (\<lambda>n. be_TPS_update (\<lambda>_. n)), u_float j ''EER'' (\<lambda>x. be_EER_update (\<lambda>_. x)),
        u_float j ''MEMEER'' (\<lambda>x. be_MEMEER_update (\<lambda>_. x)), u_int j ''Min'' (\<lambda>n. be_Min_update (\<lambda>_. n)),
        u_int j ''Avg'' (\<lambda>n. be_Avg_update (\<lambda>_. n)), u_int j ''Max'' (\<lambda>n. be_Max_update (\<lambda>_. n)),
        u_int j ''TP50'' (\<lambda>n. be_TP50_update (\<lambda>_. n)), u_int j ''TP75'' (\<lambda>n. be_TP75_update (\<lambda>_. n)),
        u_int j ''TP90'' (\<lambda>n. be_TP90_update (\<lambda>_. n)), u_int j ''TP95'' (\<lambda>n. be_TP95_update (\<lambda>_. n)),
        u_int j ''TP99'' (\<lambda>n. be_TP99_update (\<lambda>_. n)), u_int j ''Used'' (\<lambda>n. be_Used_update (\<lambda>_. n)),
        u_int j ''Total'' (\<lambda>n. be_Total_update (\<lambda>_. n)), u_int j ''Success'' (\<lambda>n. be_Success_update (\<lambda>_. n)),
        u_int j ''Failed'' (\<lambda>n. be_Failed_update (\<lambda>_. n)), u_int j ''Conns'' (\<lambda>n. be_Connections_update (\<lambda>_. n)),
        u_int j ''Concurrency'' (\<lambda>n. be_Concurrency_update (\<lambda>_. n)), u_int j ''Streams'' (\<lambda>n. be_Streams_update (\<lambda>_. n)),
        u_int j ''Payload'' (\<lambda>n. be_Payload_update (\<lambda>_. n)), u_str j ''Pprof'' (\<lambda>s. be_Pprof_update (\<lambda>_. s)),
        u_float j ''CPUMin'' (\<lambda>x. be_CPUMin_update (\<lambda>_. x)), u_float j ''CPUAvg'' (\<lambda>x. be_CPUAvg_update (\<lambda>_. x)),
        u_float j ''CPUMax'' (\<lambda>x. be_CPUMax_update (\<lambda>_. x)), u_uint j ''MEMMin'' (\<lambda>n. be_MEMRSSMin_update (\<lambda>_. n)),
        u_uint j ''MEMAvg'' (\<lambda>n. be_MEMRSSAvg_update (\<lambda>_. n)), u_uint j ''MEMMax'' (\<lambda>n. be_MEMRSSMax_update (\<lambda>_. n))] (Some r)"

definition br_Unmarshal :: "(string \<times> json_lit) list \<Rightarrow> BenchRateReport \<Rightarrow> BenchRateReport option" where
  "br_Unmarshal j r =
     fold (\<lambda>f. f)
       [u_str j ''Framework'' (\<lambda>s. br_Framework_update (\<lambda>_. s)), u_str j ''BenchClient'' (\<lambda>s. br_BenchClient_update (\<lambda>_. s)),
        u_int j ''Duration'' (\<lambda>n. br_Duration_update (\<lambda>_. n)), u_int j ''TPS'' (\<lambda>n. br_TPS_update (\<lambda>_. n)),
        u_float j ''EchoEER'' (\<lambda>x. br_EchoEER_update (\<lambda>_. x)), u_float j ''MEMEER'' (\<lambda>x. br_MEMEER_update (\<lambda>_. x)),
        u_int j ''SendTimes'' (\<lambda>n. br_SendTimes_update (\<lambda>_. n)), u_int j ''SendBytes'' (\<lambda>n. br_SendBytes_update (\<lambda>_. n)),
        u_int j ''RecvTimes'' (\<lambda>n. br_RecvTimes_update (\<lambda>_. n)), u_int j ''RecvBytes'' (\<lambda>n. br_RecvBytes_update (\<lambda>_. n)),
        u_int j ''Conns'' (\<lambda>n. br_Connections_update (\<lambda>_. n)), u_int j ''Concurrency'' (\<lambda>n. br_Concurrency_update (\<lambda>_. n)),
        u_int j ''SendRate'' (\<lambda>n. br_SendRate_update (\<lambda>_. n)), u_int j ''Batch'' (\<lambda>n. br_Batch_update (\<lambda>_. n)),
        u_int j ''Payload'' (\<lambda>n. br_Payload_update (\<lambda>_. n)), u_str j ''Pprof'' (\<lambda>s. br_Pprof_update (\<lambda>_. s)),
        u_float j ''CPUMin'' (\<lambda>x. br_CPUMin_update (\<lambda>_. x)), u_float j ''CPUAvg'' (\<lambda>x. br_CPUAvg_update (\<lambda>_. x)),
        u_float j ''CPUMax'' (\<lambda>x. br_CPUMax_update (\<lambda>_. x)), u_uint j ''MEMMin'' (\<lambda>n. br_MEMRSSMin_update (\<lambda>_. n)),
        u_uint j ''MEMAvg'' (\<lambda>n. br_MEMRSSAvg_update (\<lambda>_. n)), u_uint j ''MEMMax'' (\<lambda>n. br_MEMRSSMax_update (\<lambda>_. n))] (Some r)"

fun Unmarshal :: "content \<Rightarrow> Report \<Rightarrow> Report option" where
  "Unmarshal (Json j) (ConnR r) = map_option ConnR (cn_Unmarshal j r)"
| "Unmarshal (Json j) (EchoR r) = map_option EchoR (be_Unmarshal j r)"
| "Unmarshal (Json j) (RateR r) = map_option RateR (br_Unmarshal j r)"
| "Unmarshal c r = None"

section \<open>Files\<close>

definition Filename :: "string \<Rightarrow> string \<Rightarrow> string \<Rightarrow> string" where
  "Filename base preffix suffix = ''./output/report/'' @ preffix @ base @ suffix"

definition WriteFile :: "string \<Rightarrow> string \<Rightarrow> fs \<Rightarrow> bool \<times> fs" where
  "WriteFile filename data F = os_WriteFile filename (Text data) F"

definition write_pprof :: "bytes option \<Rightarrow> string \<Rightarrow> fs \<Rightarrow> bool \<times> fs" where
  "write_pprof data name F = (case data of None \<Rightarrow> (True, F) | Some bs \<Rightarrow> os_WriteFile name (Raw bs) F)"

text \<open>\<^verbatim>\<open>ToFile\<close>, with whether it succeeded.\<close>

definition ToFile :: "Report \<Rightarrow> string \<Rightarrow> string \<Rightarrow> fs \<Rightarrow> bool \<times> fs" where
  "ToFile r preffix suffix F =
     (let (ok, F) = write_pprof (PprofCPU r) (Filename (Name r) preffix (suffix @ ''.pprof.cpu'')) F
      in if \<not> ok then (False, F)
         else let (ok, F) = write_pprof (PprofMEM r) (Filename (Name r) preffix (suffix @ ''.pprof.mem'')) F
              in if \<not> ok then (False, F)
                 else case Marshal r of None \<Rightarrow> (False, F)
                      | Some j \<Rightarrow> os_WriteFile (Filename (Name r) preffix (suffix @ ''.json'')) (Json j) F)"

text \<open>The report of one framework, if its file is there and can be read.\<close>

definition read_report :: "string \<Rightarrow> string \<Rightarrow> (string \<Rightarrow> Report) \<Rightarrow> fs \<Rightarrow> string \<Rightarrow> Report option" where
  "read_report preffix suffix create F v =
     (let reportItem = create v
      in case files F (Filename (Name reportItem) preffix (suffix @ ''.json'')) of
           None \<Rightarrow> None | Some b \<Rightarrow> Unmarshal b reportItem)"

definition ReadReports :: "string \<Rightarrow> string \<Rightarrow> (string \<Rightarrow> Report) \<Rightarrow> fs \<Rightarrow> Report list" where
  "ReadReports preffix suffix create F = List.map_filter (read_report preffix suffix create F) FrameworkList"

definition ReadConnectionsReports :: "string \<Rightarrow> string \<Rightarrow> fs \<Rightarrow> Report list" where
  "ReadConnectionsReports preffix suffix F = ReadReports preffix suffix (\<lambda>f. ConnR (create_Connections f)) F"

fun fill_echo :: "Report \<Rightarrow> Report" where
  "fill_echo (EchoR r) = EchoR (fillMEMEER r)"
| "fill_echo r = r" \<comment> \<open>not reached: a report read is of the kind created\<close>

fun fill_rate :: "Report \<Rightarrow> Report" where
  "fill_rate (RateR r) = RateR (fillTPS r)"
| "fill_rate r = r" \<comment> \<open>not reached\<close>

definition ReadBenchEchoReports :: "string \<Rightarrow> string \<Rightarrow> fs \<Rightarrow> Report list" where
  "ReadBenchEchoReports preffix suffix F =
     map fill_echo (ReadReports preffix suffix (\<lambda>f. EchoR (create_BenchEcho f)) F)"

definition ReadBenchRateReports :: "string \<Rightarrow> string \<Rightarrow> fs \<Rightarrow> Report list" where
  "ReadBenchRateReports preffix suffix F =
     map fill_rate (ReadReports preffix suffix (\<lambda>f. RateR (create_BenchRate f)) F)"

definition GenerateReports ::
  "md_headers \<Rightarrow> perf_fmt \<Rightarrow> string \<Rightarrow> string \<Rightarrow> bool \<Rightarrow> string \<Rightarrow> (string \<Rightarrow> Report) \<Rightarrow> (string \<Rightarrow> bool) option \<Rightarrow> fs
     \<Rightarrow> (string \<times> md_headers) option" where
  "GenerateReports H P preffix suffix enableTPN order create flt F =
     Markdown H P (ReadReports preffix suffix create F) enableTPN order flt"

definition GenerateConnectionsReports ::
  "md_headers \<Rightarrow> perf_fmt \<Rightarrow> string \<Rightarrow> string \<Rightarrow> bool \<Rightarrow> string \<Rightarrow> (string \<Rightarrow> bool) option \<Rightarrow> fs \<Rightarrow> (string \<times> md_headers) option" where
  "GenerateConnectionsReports H P preffix suffix enableTPN order flt F =
     GenerateReports H P preffix suffix enableTPN order (\<lambda>f. ConnR (create_Connections f)) flt F"

definition GenerateBenchEchoReports ::
  "md_headers \<Rightarrow> perf_fmt \<Rightarrow> string \<Rightarrow> string \<Rightarrow> bool \<Rightarrow> string \<Rightarrow> (string \<Rightarrow> bool) option \<Rightarrow> fs \<Rightarrow> (string \<times> md_headers) option" where
  "GenerateBenchEchoReports H P preffix suffix enableTPN order flt F =
     Markdown H P (ReadBenchEchoReports preffix suffix F) enableTPN order flt"

definition GenerateBenchRateReports ::
  "md_headers \<Rightarrow> perf_fmt \<Rightarrow> string \<Rightarrow> string \<Rightarrow> bool \<Rightarrow> string \<Rightarrow> (string \<Rightarrow> bool) option \<Rightarrow> fs \<Rightarrow> (string \<times> md_headers) option" where
  "GenerateBenchRateReports H P preffix suffix enableTPN order flt F =
     Markdown H P (ReadBenchRateReports preffix suffix F) enableTPN order flt"

definition GenerateSummary :: "perf_fmt \<Rightarrow> string \<Rightarrow> string \<Rightarrow> fs \<Rightarrow> string" where
  "GenerateSummary P preffix suffix F =
     Summary P [ReadConnectionsReports preffix suffix F, ReadBenchEchoReports preffix suffix F,
       ReadBenchRateReports preffix suffix F]"


section \<open>Reading back what was written\<close>

fun create_like :: "Report \<Rightarrow> string \<Rightarrow> Report" where
  "create_like (ConnR r) f = ConnR (create_Connections f)"
| "create_like (EchoR r) f = EchoR (create_BenchEcho f)"
| "create_like (RateR r) f = RateR (create_BenchRate f)"

text \<open>A report without its profiles, which go to files of their own.\<close>

fun unprofiled :: "Report \<Rightarrow> Report" where
  "unprofiled (ConnR r) = ConnR r"
| "unprofiled (EchoR r) = EchoR (be_SetPprofData None None r)"
| "unprofiled (RateR r) = RateR (br_SetPprofData None None r)"

definition is_fin :: "float64 \<Rightarrow> bool" where
  "is_fin x \<longleftrightarrow> (case x of Fin q \<Rightarrow> True | _ \<Rightarrow> False)"

text \<open>The types of the fields, finite numbers, and the language the framework has.\<close>

fun fits :: "Report \<Rightarrow> bool" where
  "fits (ConnR r) \<longleftrightarrow> cn_Lang r = FrameworkLang (cn_Framework r)
     \<and> list_all int64 [cn_TPS r, cn_Min r, cn_Avg r, cn_Max r, cn_TP50 r, cn_TP75 r, cn_TP90 r, cn_TP95 r, cn_TP99 r,
         cn_Used r, cn_Total r, cn_Success r, cn_Failed r, cn_Concurrency r, cn_MaxStreams r]"
| "fits (EchoR r) \<longleftrightarrow> be_Lang r = FrameworkLang (be_Framework r)
     \<and> list_all int64 [be_TPS r, be_Min r, be_Avg r, be_Max r, be_TP50 r, be_TP75 r, be_TP90 r, be_TP95 r, be_TP99 r,
         be_Used r, be_Total r, be_Success r, be_Failed r, be_Connections r, be_Concurrency r, be_Streams r, be_Payload r]
     \<and> list_all uint64_range [int (be_MEMRSSMin r), int (be_MEMRSSAvg r), int (be_MEMRSSMax r)]
     \<and> list_all is_fin [be_EER r, be_MEMEER r, be_CPUMin r, be_CPUAvg r, be_CPUMax r]"
| "fits (RateR r) \<longleftrightarrow> br_Lang r = FrameworkLang (br_Framework r)
     \<and> list_all int64 [br_Duration r, br_TPS r, br_SendTimes r, br_SendBytes r, br_RecvTimes r, br_RecvBytes r,
         br_Connections r, br_Concurrency r, br_SendRate r, br_Batch r, br_Payload r]
     \<and> list_all uint64_range [int (br_MEMRSSMin r), int (br_MEMRSSAvg r), int (br_MEMRSSMax r)]
     \<and> list_all is_fin [br_EchoEER r, br_MEMEER r, br_CPUMin r, br_CPUAvg r, br_CPUMax r]"

lemma is_finE: "is_fin x \<Longrightarrow> (\<And>q. x = Fin q \<Longrightarrow> thesis) \<Longrightarrow> thesis"
  by (cases x) (auto simp: is_fin_def)

lemmas json_simps = j_str_def j_int_def u_str_def u_num_def u_uint_def u_float_def

lemma Unmarshal_cn:
  assumes "fits (ConnR r)"
  shows "Marshal (ConnR r) = Some (map the (cn_fields r))"
    and "cn_Unmarshal (map the (cn_fields r)) (create_Connections (cn_Framework r)) = Some r"
  using assms
  by (simp add: cn_fields_def json_simps,
      cases r) (simp add: cn_fields_def cn_Unmarshal_def json_simps create_Connections_def)

lemma Unmarshal_be:
  assumes "fits (EchoR r)"
  shows "Marshal (EchoR r) = Some (map the (be_fields r))"
    and "be_Unmarshal (map the (be_fields r)) (create_BenchEcho (be_Framework r)) = Some (be_SetPprofData None None r)"
proof -
  from assms have "is_fin (be_EER r)" "is_fin (be_MEMEER r)" "is_fin (be_CPUMin r)" "is_fin (be_CPUAvg r)"
    "is_fin (be_CPUMax r)" by simp_all
  then obtain a b c d e where f: "be_EER r = Fin a" "be_MEMEER r = Fin b" "be_CPUMin r = Fin c" "be_CPUAvg r = Fin d"
    "be_CPUMax r = Fin e" by (metis is_finE)
  then show "Marshal (EchoR r) = Some (map the (be_fields r))" by (simp add: be_fields_def json_simps)
  from f assms
  show "be_Unmarshal (map the (be_fields r)) (create_BenchEcho (be_Framework r)) = Some (be_SetPprofData None None r)"
    by (cases r) (simp add: be_fields_def be_Unmarshal_def json_simps create_BenchEcho_def be_SetPprofData_def)
qed

lemma Unmarshal_br:
  assumes "fits (RateR r)"
  shows "Marshal (RateR r) = Some (map the (br_fields r))"
    and "br_Unmarshal (map the (br_fields r)) (create_BenchRate (br_Framework r)) = Some (br_SetPprofData None None r)"
proof -
  from assms have "is_fin (br_EchoEER r)" "is_fin (br_MEMEER r)" "is_fin (br_CPUMin r)" "is_fin (br_CPUAvg r)"
    "is_fin (br_CPUMax r)" by simp_all
  then obtain a b c d e where f: "br_EchoEER r = Fin a" "br_MEMEER r = Fin b" "br_CPUMin r = Fin c" "br_CPUAvg r = Fin d"
    "br_CPUMax r = Fin e" by (metis is_finE)
  then show "Marshal (RateR r) = Some (map the (br_fields r))" by (simp add: br_fields_def json_simps)
  from f assms
  show "br_Unmarshal (map the (br_fields r)) (create_BenchRate (br_Framework r)) = Some (br_SetPprofData None None r)"
    by (cases r) (simp add: br_fields_def br_Unmarshal_def json_simps create_BenchRate_def br_SetPprofData_def)
qed

text \<open>
  What the files rely on of a kind of report, one of the structs behind the source's interface \<^verbatim>\<open>Report\<close>: how it is wrapped, made
  for a framework, written and read, and that one that fits is read as it was written, profiles aside.
\<close>

locale report_kind =
  fixes wrap :: "'r \<Rightarrow> Report" and create :: "string \<Rightarrow> 'r" and framework :: "'r \<Rightarrow> string"
    and fields :: "'r \<Rightarrow> (string \<times> json_lit) option list" and unmarshal :: "(string \<times> json_lit) list \<Rightarrow> 'r \<Rightarrow> 'r option"
    and strip :: "'r \<Rightarrow> 'r"
  assumes wrap_create: "create_like (wrap r) f = wrap (create f)"
    and wrap_framework: "report_Framework (wrap r) = framework r"
    and wrap_strip: "unprofiled (wrap r) = wrap (strip r)"
    and wrap_unmarshal: "Unmarshal (Json j) (wrap r) = map_option wrap (unmarshal j r)"
    and writes: "fits (wrap r) \<Longrightarrow> Marshal (wrap r) = Some (map the (fields r))"
    and reads: "fits (wrap r) \<Longrightarrow> unmarshal (map the (fields r)) (create (framework r)) = Some (strip r)"
begin

lemma read_back:
  "fits (wrap r) \<Longrightarrow>
     \<exists>j. Marshal (wrap r) = Some j \<and> Unmarshal (Json j) (create_like (wrap r) (report_Framework (wrap r))) = Some (unprofiled (wrap r))"
  by (simp add: writes reads wrap_create wrap_framework wrap_strip wrap_unmarshal)

end

interpretation connections: report_kind ConnR create_Connections cn_Framework cn_fields cn_Unmarshal "\<lambda>r. r"
proof (unfold_locales, goal_cases)
  case (5 r)
  then show ?case by (rule Unmarshal_cn(1))
next
  case (6 r)
  then show ?case by (rule Unmarshal_cn(2))
qed simp_all

interpretation bench_echo: report_kind EchoR create_BenchEcho be_Framework be_fields be_Unmarshal "be_SetPprofData None None"
proof (unfold_locales, goal_cases)
  case (5 r)
  then show ?case by (rule Unmarshal_be(1))
next
  case (6 r)
  then show ?case by (rule Unmarshal_be(2))
qed simp_all

interpretation bench_rate: report_kind RateR create_BenchRate br_Framework br_fields br_Unmarshal "br_SetPprofData None None"
proof (unfold_locales, goal_cases)
  case (5 r)
  then show ?case by (rule Unmarshal_br(1))
next
  case (6 r)
  then show ?case by (rule Unmarshal_br(2))
qed simp_all

lemma Unmarshal_Marshal:
  assumes "fits r"
  shows "\<exists>j. Marshal r = Some j \<and> Unmarshal (Json j) (create_like r (report_Framework r)) = Some (unprofiled r)"
  using assms connections.read_back bench_echo.read_back bench_rate.read_back by (cases r) blast+

lemma Name_eq: "Name r = report_Framework r @ ''-'' @ Type r"
  by (cases r) simp_all

lemma create_like_simps [simp]:
  "report_Framework (create_like r f) = f" "Type (create_like r f) = Type r"
  by (cases r; simp add: create_Connections_def create_BenchEcho_def create_BenchRate_def)+

lemma write_pprof_other:
  assumes "\<forall>n. writable F n" and "name \<noteq> n"
  shows "fst (write_pprof data name F)" "files (snd (write_pprof data name F)) n = files F n"
    "\<forall>m. writable (snd (write_pprof data name F)) m"
  using assms by (simp_all add: write_pprof_def os_WriteFile_def split: option.split)

lemma last_Filename: "t \<noteq> [] \<Longrightarrow> last (Filename b p (s @ t)) = last t"
  by (simp add: Filename_def last_append)

lemma ToFile_files:
  assumes "\<forall>n. writable F n" and "Marshal r = Some j"
  obtains F' where "ToFile r preffix suffix F = (True, F')"
    and "\<And>f. files F' (Filename (Name (create_like r f)) preffix (suffix @ ''.json''))
           = (if f = report_Framework r then Some (Json j)
              else files F (Filename (Name (create_like r f)) preffix (suffix @ ''.json'')))"
proof -
  let ?json = "\<lambda>f. Filename (Name (create_like r f)) preffix (suffix @ ''.json'')"
  let ?cpu = "Filename (Name r) preffix (suffix @ ''.pprof.cpu'')"
  let ?mem = "Filename (Name r) preffix (suffix @ ''.pprof.mem'')"
  have "last ?cpu \<noteq> last (?json f)" "last ?mem \<noteq> last (?json f)" for f
    by (simp_all add: last_Filename)
  then have ne: "?cpu \<noteq> ?json f" "?mem \<noteq> ?json f" for f by metis+
  have own: "?json f = Filename (Name r) preffix (suffix @ ''.json'') \<longleftrightarrow> f = report_Framework r" for f
    by (auto simp: Filename_def Name_eq)
  define F1 where "F1 = snd (write_pprof (PprofCPU r) ?cpu F)"
  define F2 where "F2 = snd (write_pprof (PprofMEM r) ?mem F1)"
  note cpu = write_pprof_other [OF assms(1) ne(1), of "PprofCPU r", folded F1_def]
  note mem = write_pprof_other [OF cpu(3) ne(2), of "PprofMEM r", folded F2_def]
  have F1: "write_pprof (PprofCPU r) ?cpu F = (True, F1)" using cpu(1) by (simp add: F1_def prod_eq_iff)
  have F2: "write_pprof (PprofMEM r) ?mem F1 = (True, F2)" using mem(1) by (simp add: F2_def prod_eq_iff)
  show ?thesis
  proof
    show "ToFile r preffix suffix F
        = (True, F2\<lparr>files := (files F2)(Filename (Name r) preffix (suffix @ ''.json'') \<mapsto> Json j)\<rparr>)"
      using F1 F2 mem(3) assms(2) by (simp add: ToFile_def os_WriteFile_def)
  qed (simp add: own cpu(2) mem(2))
qed

text \<open>
  C29. A report written to its file is read back as it was, profiles aside, in its framework's place of the
  framework order; the reports of the other frameworks are read as they were before.
\<close>

theorem ToFile_ReadReports:
  assumes "fits r" and "\<forall>n. writable F n"
  shows "\<exists>F'. ToFile r preffix suffix F = (True, F')
    \<and> ReadReports preffix suffix (create_like r) F'
      = List.map_filter (\<lambda>f. if f = report_Framework r then Some (unprofiled r)
          else read_report preffix suffix (create_like r) F f) FrameworkList"
proof -
  obtain j where j: "Marshal r = Some j" "Unmarshal (Json j) (create_like r (report_Framework r)) = Some (unprofiled r)"
    using Unmarshal_Marshal [OF assms(1)] by blast
  obtain F' where F': "ToFile r preffix suffix F = (True, F')"
    "\<And>f. files F' (Filename (Name (create_like r f)) preffix (suffix @ ''.json''))
           = (if f = report_Framework r then Some (Json j)
              else files F (Filename (Name (create_like r f)) preffix (suffix @ ''.json'')))"
    using ToFile_files [OF assms(2) j(1)] by metis
  have "read_report preffix suffix (create_like r) F' = (\<lambda>f. if f = report_Framework r then Some (unprofiled r)
          else read_report preffix suffix (create_like r) F f)"
    by (rule ext) (simp add: read_report_def F'(2) j(2))
  with F'(1) show ?thesis by (simp add: ReadReports_def)
qed

theorem ToFile_ReadReports_witness:
  "\<exists>F'. ToFile (EchoR (create_BenchEcho ''fib'')) ''a-'' ''-b'' \<lparr>writable = \<lambda>_. True, files = \<lambda>_. None\<rparr> = (True, F')
     \<and> ReadReports ''a-'' ''-b'' (create_like (EchoR (create_BenchEcho ''fib''))) F' = [EchoR (create_BenchEcho ''fib'')]"
proof -
  have fits: "fits (EchoR (create_BenchEcho ''fib''))"
    by (simp add: create_BenchEcho_def int64_def uint64_range_def is_fin_def)
  show ?thesis
    using ToFile_ReadReports [OF fits, of "\<lparr>writable = \<lambda>_. True, files = \<lambda>_. None\<rparr>" "''a-''" "''-b''"]
    by (simp add: FrameworkList_def map_filter_simps read_report_def create_BenchEcho_def be_SetPprofData_def)
qed

end
