(* ===== verification/PsSource.thy ===== *)
theory PsSource
  imports Config "HOL-Library.AList" "HOL-Library.Sublist"
begin

text \<open>
  Where a report's CPU and memory numbers come from: \<^verbatim>\<open>config/pssource.go\<close> and
  \<^verbatim>\<open>config/localps.go\<close>.

  The machine the client runs on is a record of what the operating system answers: the entries of
  \<^verbatim>\<open>/proc\<close>, the command lines in it, what \<^verbatim>\<open>ps\<close> prints, how a host resolves and which
  processes can be sampled. The samples of \<^verbatim>\<open>gopsutil\<close> and the counter of \<^verbatim>\<open>perf\<close> are
  parameters.
\<close>

section \<open>Modes\<close>

definition PSModeAuto :: string where "PSModeAuto = ''auto''"
definition PSModeLocal :: string where "PSModeLocal = ''local''"
definition PSModeRemote :: string where "PSModeRemote = ''remote''"

text \<open>\<^verbatim>\<open>ValidatePSMode\<close>: the value that is not supported, if it is not.\<close>

definition ValidatePSMode :: "string \<Rightarrow> string option" where
  "ValidatePSMode mode = (if mode \<in> {PSModeAuto, PSModeLocal, PSModeRemote} then None else Some mode)"

section \<open>The machine\<close>

record ip =
  ip_loopback :: bool
  ip_unspecified :: bool
  ip_text :: string

record machine =
  stat_proc :: bool \<comment> \<open>\<^verbatim>\<open>os.Stat("/proc")\<close> succeeds\<close>
  read_proc :: "string list option" \<comment> \<open>\<^verbatim>\<open>os.ReadDir("/proc")\<close>\<close>
  cmdline :: "int \<Rightarrow> string option" \<comment> \<open>\<^verbatim>\<open>/proc/<pid>/cmdline\<close>\<close>
  ps_output :: "string \<Rightarrow> string option" \<comment> \<open>\<^verbatim>\<open>ps -o pid=,comm=\<close> for a pid, or for all of them\<close>
  NewProcess :: "32 word \<Rightarrow> bool" \<comment> \<open>\<^verbatim>\<open>process.NewProcess\<close> succeeds\<close>
  MemoryInfo :: "32 word \<Rightarrow> bool" \<comment> \<open>and its \<^verbatim>\<open>MemoryInfo\<close> does\<close>
  ParseIP :: "string \<Rightarrow> ip option"
  LookupIP :: "string \<Rightarrow> ip list option"
  InterfaceAddrs :: "ip list option"

definition localAddrs :: "machine \<Rightarrow> string set" where
  "localAddrs M = (case InterfaceAddrs M of None \<Rightarrow> {} | Some addrs \<Rightarrow> ip_text ` set addrs)"

definition IsLocalHost :: "machine \<Rightarrow> string \<Rightarrow> bool" where
  "IsLocalHost M host =
     (let host = Trim host ''[]''
      in if host = '''' then False
         else case (case ParseIP M host of Some ip \<Rightarrow> Some [ip] | None \<Rightarrow> LookupIP M host) of
                None \<Rightarrow> False
              | Some ips \<Rightarrow> list_ex (\<lambda>ip. ip_loopback ip \<or> ip_unspecified ip \<or> ip_text ip \<in> localAddrs M) ips)"

section \<open>Finding the server's process\<close>

datatype ps_error =
    NoProcFS
  | NoProcess string
  | ManyProcesses string "int list"
  | WrongProcess int string string
  | CannotRead string
  | BadPid int
  | Control config_error

definition ServerProcessName :: "string \<Rightarrow> string" where
  "ServerProcessName framework = framework @ ''.server''"

definition procFSPids :: "machine \<Rightarrow> ps_error + int list" where
  "procFSPids M =
     (case read_proc M of
        None \<Rightarrow> Inl NoProcFS
      | Some entries \<Rightarrow>
          let pids = List.map_filter atoi entries in if pids = [] then Inl NoProcFS else Inr pids)"

definition ps_line :: "string \<Rightarrow> (int \<times> string) list \<Rightarrow> (int \<times> string) list" where
  "ps_line line names =
     (let fields = Fields line
      in if length fields < 2 then names
         else case atoi (hd fields) of None \<Rightarrow> names
              | Some procPid \<Rightarrow> AList.update procPid (Base (Join (tl fields) '' '')) names)"

definition psNames :: "machine \<Rightarrow> string \<Rightarrow> ps_error + (int \<times> string) list" where
  "psNames M pid =
     (case ps_output M pid of
        None \<Rightarrow> Inl (CannotRead ''ps'')
      | Some out \<Rightarrow> Inr (fold ps_line (Split out (CHR 0x0A)) []))"

definition processName :: "machine \<Rightarrow> int \<Rightarrow> ps_error + string" where
  "processName M pid =
     (if stat_proc M then
        case cmdline M pid of
          None \<Rightarrow> Inl (CannotRead ''cmdline'')
        | Some data \<Rightarrow>
            let argv0 = takeWhile (\<lambda>c. c \<noteq> CHR 0x00) data
            in if argv0 = [] then Inl (CannotRead ''empty command line'') else Inr (Base argv0)
      else case psNames M (itoa pid) of
             Inl e \<Rightarrow> Inl e
           | Inr names \<Rightarrow> (case map_of names pid of None \<Rightarrow> Inl (NoProcess (itoa pid)) | Some name \<Rightarrow> Inr name))"

definition psPidsByName :: "machine \<Rightarrow> string \<Rightarrow> ps_error + int list" where
  "psPidsByName M name =
     (case psNames M '''' of
        Inl e \<Rightarrow> Inl e
      | Inr names \<Rightarrow> Inr (map fst (filter (\<lambda>(pid, procName). procName = name) names)))"

definition findProcessesByName :: "machine \<Rightarrow> string \<Rightarrow> ps_error + int list" where
  "findProcessesByName M name =
     (case procFSPids M of
        Inr pids \<Rightarrow> Inr (filter (\<lambda>pid. processName M pid = Inr name) pids)
      | Inl _ \<Rightarrow> psPidsByName M name)"

definition FindServerProcess :: "machine \<Rightarrow> string \<Rightarrow> ps_error + int" where
  "FindServerProcess M framework =
     (let name = ServerProcessName framework
      in case findProcessesByName M name of
           Inl e \<Rightarrow> Inl e
         | Inr pids \<Rightarrow>
             (case pids of [] \<Rightarrow> Inl (NoProcess name)
              | [pid] \<Rightarrow> Inr pid
              | _ \<Rightarrow> Inl (ManyProcesses name pids)))"

definition VerifyServerProcess :: "machine \<Rightarrow> int \<Rightarrow> string \<Rightarrow> ps_error option" where
  "VerifyServerProcess M pid framework =
     (case processName M pid of
        Inl e \<Rightarrow> Some e
      | Inr name \<Rightarrow>
          let want = ServerProcessName framework in if name \<noteq> want then Some (WrongProcess pid name want) else None)"

section \<open>Sources of samples\<close>

datatype 'm PSSource =
    RemotePSSource (ps_Framework: string) (ps_IP: string)
  | LocalPSSampler (lp_pid: int) (lp_interval: int) (lp_running: bool) (lp_cpu: "float64 list") (lp_mem: "'m list")
      (lp_fallback: "'m PSSource option")

record 'm PSSetup =
  Source :: "'m PSSource"
  ServerPid :: int
  PprofAddr :: string

definition second :: int where "second = 10 ^ 9"

definition consecutiveSampleErrors :: nat where "consecutiveSampleErrors = 5"

definition StartLocalPSSampler :: "machine \<Rightarrow> int \<Rightarrow> int \<Rightarrow> 'm PSSource option \<Rightarrow> ps_error + 'm PSSource" where
  "StartLocalPSSampler M pid interval fallback =
     (if pid \<le> 0 then Inl (BadPid pid)
      else let interval = (if interval \<le> 0 then second else interval);
               proc = word_of_int pid
           in if \<not> NewProcess M proc then Inl (BadPid pid)
              else if \<not> MemoryInfo M proc then Inl (BadPid pid)
              else Inr (LocalPSSampler pid interval True [] [] fallback))"

text \<open>
  \<^verbatim>\<open>run\<close>: what each round of the loop reads, the CPU used over an interval and the memory, until the context
  is done, which is where the list ends. The flag says whether the sampler gave up before that.
\<close>

datatype 'm sample = SampleError | Sample float64 "'m option"

fun sampler_run :: "'m sample list \<Rightarrow> nat \<Rightarrow> float64 list \<Rightarrow> 'm list \<Rightarrow> float64 list \<times> 'm list \<times> bool" where
  "sampler_run [] errCount cpu mem = (cpu, mem, False)"
| "sampler_run (SampleError # ss) errCount cpu mem =
     (let errCount = errCount + 1
      in if errCount \<ge> consecutiveSampleErrors then (cpu, mem, True) else sampler_run ss errCount cpu mem)"
| "sampler_run (Sample percent m # ss) errCount cpu mem =
     sampler_run ss 0 (cpu @ [percent]) (case m of None \<Rightarrow> mem | Some x \<Rightarrow> mem @ [x])"

text \<open>
  A source after its goroutine, if it has one that still runs, has gone through those rounds; one that gave up has returned.
\<close>

fun sampled :: "'m sample list \<Rightarrow> 'm PSSource \<Rightarrow> 'm PSSource" where
  "sampled ss (LocalPSSampler pid interval running cpu mem fallback) =
     (if running
      then let (cpu, mem, gaveUp) = sampler_run ss 0 cpu mem in LocalPSSampler pid interval (\<not> gaveUp) cpu mem fallback
      else LocalPSSampler pid interval running cpu mem fallback)"
| "sampled ss s = s"

fun sampleCount :: "'m PSSource \<Rightarrow> nat" where
  "sampleCount (LocalPSSampler pid interval running cpu mem fallback) = length cpu"
| "sampleCount s = 0"

text \<open>\<^verbatim>\<open>Stop\<close> ends the goroutine and waits for it, then stops the fallback.\<close>

fun PSSource_Stop :: "'m PSSource \<Rightarrow> 'm PSSource" where
  "PSSource_Stop (RemotePSSource framework ip) = RemotePSSource framework ip"
| "PSSource_Stop (LocalPSSampler pid interval running cpu mem fallback) =
     LocalPSSampler pid interval False cpu mem (map_option PSSource_Stop fallback)"

text \<open>
  The counter read, and the error: either, or both. A sampler with no sample of its own hands on what its fallback reads, if it has one.
\<close>

definition local_PsInfo ::
  "(float64 list \<Rightarrow> 'm list \<Rightarrow> 'c) \<Rightarrow> int \<Rightarrow> float64 list \<Rightarrow> 'm list \<Rightarrow> ('c option \<times> ps_error option) option
     \<Rightarrow> 'c option \<times> ps_error option" where
  "local_PsInfo counter pid cpu mem fallback =
     (if length cpu > 0 then (Some (counter cpu mem), None)
      else case fallback of
             Some read \<Rightarrow> read
           | None \<Rightarrow> (Some (counter cpu mem), Some (Control (NoSamples (itoa pid)))))"

fun PsInfo ::
  "(bytes \<Rightarrow> 'c option) \<Rightarrow> ('c \<Rightarrow> float64) \<Rightarrow> (float64 list \<Rightarrow> 'm list \<Rightarrow> 'c) \<Rightarrow> (string \<Rightarrow> int \<Rightarrow> http_outcome) \<Rightarrow> 'm PSSource
     \<Rightarrow> 'c option \<times> ps_error option" where
  "PsInfo unmarshal cpuAvg counter net (RemotePSSource framework ip) =
     (let (c, e) = GetFrameworkPsInfo unmarshal cpuAvg net framework ip in (c, map_option Control e))"
| "PsInfo unmarshal cpuAvg counter net (LocalPSSampler pid interval running cpu mem fallback) =
     local_PsInfo counter pid cpu mem (map_option (PsInfo unmarshal cpuAvg counter net) fallback)"

definition SetupPS ::
  "machine \<Rightarrow> (string \<Rightarrow> int \<Rightarrow> http_outcome) \<Rightarrow> string \<Rightarrow> string \<Rightarrow> string \<Rightarrow> int \<Rightarrow> 'm PSSetup \<times> ps_error option" where
  "SetupPS M net framework ip mode interval =
     (let remote = RemotePSSource framework ip;
          setup = \<lparr>Source = remote, ServerPid = - 1, PprofAddr = ''''\<rparr>
      in case FrameworkControlAddr framework ip of
           Inl err \<Rightarrow> (setup, Some (Control err))
         | Inr pprofAddr \<Rightarrow>
             let setup = setup\<lparr>PprofAddr := pprofAddr\<rparr>;
                 wantLocal = (mode = PSModeLocal \<or> (mode = PSModeAuto \<and> IsLocalHost M ip));
                 found = (if wantLocal then FindServerProcess M framework else Inl (NoProcess ''''));
                 started = (case found of Inl e \<Rightarrow> Inl e | Inr pid \<Rightarrow> StartLocalPSSampler M pid interval None)
             in case (found, started) of
                  (Inr pid, Inr sampler) \<Rightarrow> (setup\<lparr>Source := sampler, ServerPid := pid\<rparr>, None)
                | _ \<Rightarrow>
                    (case InitAndGetFrameworkPid net framework ip of
                       (pid, _, Some initErr) \<Rightarrow> (setup, Some (Control initErr))
                     | (pid, _, None) \<Rightarrow>
                         let setup = setup\<lparr>ServerPid := pid\<rparr>
                         in if wantLocal \<and> VerifyServerProcess M pid framework = None
                            then (case StartLocalPSSampler M pid interval (Some remote) of
                                    Inl _ \<Rightarrow> (setup, None)
                                  | Inr sampler \<Rightarrow> (setup\<lparr>Source := sampler\<rparr>, None))
                            else (setup, None)))"

fun PSSource_String :: "'m PSSource \<Rightarrow> string" where
  "PSSource_String (RemotePSSource framework ip) = ''sampled by the server, read from '' @ ip @ '' over /ps''"
| "PSSource_String (LocalPSSampler pid interval running cpu mem fallback) = ''sampled here, from pid '' @ itoa pid"


section \<open>Which process is sampled\<close>

lemma StartLocalPSSampler_Inr:
  "StartLocalPSSampler M pid interval fallback = Inr s \<longleftrightarrow>
     s = LocalPSSampler pid (if interval \<le> 0 then second else interval) True [] [] fallback
     \<and> 0 < pid \<and> NewProcess M (word_of_int pid) \<and> MemoryInfo M (word_of_int pid)"
  by (auto simp: StartLocalPSSampler_def Let_def)

lemma StartLocalPSSampler_Inl:
  "StartLocalPSSampler M pid interval fallback = Inl e \<longleftrightarrow>
     e = BadPid pid \<and> \<not> (0 < pid \<and> NewProcess M (word_of_int pid) \<and> MemoryInfo M (word_of_int pid))"
  by (auto simp: StartLocalPSSampler_def Let_def)

lemma FindServerProcess_Inr:
  "FindServerProcess M framework = Inr pid \<longleftrightarrow> findProcessesByName M (ServerProcessName framework) = Inr [pid]"
  by (auto simp: FindServerProcess_def Let_def split: sum.splits list.splits)

lemma FindServerProcess_Inl:
  "FindServerProcess M framework = Inl e \<Longrightarrow> findProcessesByName M (ServerProcessName framework) \<noteq> Inr [pid]"
  using FindServerProcess_Inr [of M framework pid] by auto

lemma VerifyServerProcess_None:
  "VerifyServerProcess M pid framework = None \<longleftrightarrow> processName M pid = Inr (ServerProcessName framework)"
  by (simp add: VerifyServerProcess_def Let_def split: sum.splits)

text \<open>
  The processes this machine lists, with the names it has for them: those of \<^verbatim>\<open>/proc\<close> whose command line can be read, or, without one, those
  of \<^verbatim>\<open>ps\<close>.
\<close>

definition processes :: "machine \<Rightarrow> (int \<times> string) list" where
  "processes M =
     (case procFSPids M of
        Inr pids \<Rightarrow> List.map_filter (\<lambda>pid. case processName M pid of Inl _ \<Rightarrow> None | Inr name \<Rightarrow> Some (pid, name)) pids
      | Inl _ \<Rightarrow> (case psNames M '''' of Inl _ \<Rightarrow> [] | Inr names \<Rightarrow> names))"

lemma one_named:
  "map fst (filter (\<lambda>x. snd x = n) xs) = [p] \<longleftrightarrow> count_list (map snd xs) n = 1 \<and> (p, n) \<in> set xs"
proof (induction xs)
  case (Cons x xs)
  have "count_list (map snd xs) n = 0 \<longleftrightarrow> filter (\<lambda>x. snd x = n) xs = []"
    by (auto simp: filter_empty_conv count_list_0_iff)
  with Cons show ?case by (cases x) (force simp: count_list_0_iff)
qed simp

lemma findProcessesByName_one:
  "findProcessesByName M n = Inr [pid] \<longleftrightarrow> count_list (map snd (processes M)) n = 1 \<and> (pid, n) \<in> set (processes M)"
proof (cases "procFSPids M")
  case (Inr pids)
  have "filter (\<lambda>pid. processName M pid = Inr n) ps = map fst (filter (\<lambda>x. snd x = n)
      (List.map_filter (\<lambda>pid. case processName M pid of Inl _ \<Rightarrow> None | Inr name \<Rightarrow> Some (pid, name)) ps))" for ps
    by (induction ps) (auto simp: map_filter_simps split: sum.split)
  with Inr show ?thesis by (simp add: findProcessesByName_def processes_def one_named)
next
  case (Inl e)
  have "filter (\<lambda>(pid, procName). procName = n) names = filter (\<lambda>x. snd x = n) names" for names :: "(int \<times> string) list"
    by (rule filter_cong) auto
  with Inl one_named show ?thesis
    by (cases "psNames M ''''") (simp_all add: findProcessesByName_def psPidsByName_def processes_def)
qed

text \<open>
  The framework's server can be sampled here: the mode allows it, and of the processes this machine lists exactly one is called
  \<^verbatim>\<open><framework>.server\<close>, which can be read.
\<close>

definition samplable :: "machine \<Rightarrow> string \<Rightarrow> string \<Rightarrow> string \<Rightarrow> int \<Rightarrow> bool" where
  "samplable M framework ip mode pid \<longleftrightarrow>
     (\<exists>a. FrameworkControlAddr framework ip = Inr a)
   \<and> (mode = PSModeLocal \<or> mode = PSModeAuto \<and> IsLocalHost M ip)
   \<and> count_list (map snd (processes M)) (framework @ ''.server'') = 1 \<and> (pid, framework @ ''.server'') \<in> set (processes M)
   \<and> 0 < pid \<and> NewProcess M (word_of_int pid) \<and> MemoryInfo M (word_of_int pid)"

lemma samplable_found:
  "samplable M framework ip mode pid \<longleftrightarrow>
     (\<exists>a. FrameworkControlAddr framework ip = Inr a)
   \<and> (mode = PSModeLocal \<or> mode = PSModeAuto \<and> IsLocalHost M ip)
   \<and> findProcessesByName M (framework @ ''.server'') = Inr [pid]
   \<and> 0 < pid \<and> NewProcess M (word_of_int pid) \<and> MemoryInfo M (word_of_int pid)"
  by (auto simp: samplable_def findProcessesByName_one)


section \<open>What a sampler keeps\<close>

fun cpu_of :: "'m sample \<Rightarrow> float64 option" where
  "cpu_of SampleError = None"
| "cpu_of (Sample p m) = Some p"

fun mem_of :: "'m sample \<Rightarrow> 'm option" where
  "mem_of SampleError = None"
| "mem_of (Sample p m) = m"

definition five_errors :: "'m sample list" where
  "five_errors = replicate consecutiveSampleErrors SampleError"

lemma no_five_errors:
  fixes ss :: "'m sample list"
  assumes "\<not> sublist five_errors (replicate n SampleError @ ss)"
  shows "n < consecutiveSampleErrors" and "\<not> sublist five_errors ss"
proof -
  have "sublist five_errors (replicate n SampleError @ ss)" if "consecutiveSampleErrors \<le> n"
  proof -
    have "replicate n (SampleError :: 'm sample) = five_errors @ replicate (n - consecutiveSampleErrors) SampleError"
      using that by (simp add: five_errors_def flip: replicate_add)
    then show ?thesis by simp
  qed
  with assms show "n < consecutiveSampleErrors" by fastforce
  show "\<not> sublist five_errors ss"
    using assms sublist_order.order_trans [of five_errors ss] by blast
qed

lemma replicate_snoc_Cons: "replicate n x @ x # xs = replicate (n + 1) x @ xs"
  by (induction n) auto

lemma sampler_run_keeps:
  "\<not> sublist five_errors (replicate n SampleError @ ss) \<Longrightarrow>
   sampler_run ss n cpu mem = (cpu @ List.map_filter cpu_of ss, mem @ List.map_filter mem_of ss, False)"
proof (induction ss arbitrary: n cpu mem)
  case (Cons s ss)
  show ?case
  proof (cases s)
    case SampleError
    with Cons.prems have "\<not> sublist five_errors (replicate (n + 1) SampleError @ ss)"
      by (simp only: replicate_snoc_Cons) simp
    with SampleError show ?thesis
      using Cons.IH [of "n + 1"] no_five_errors(1) by (fastforce simp: map_filter_simps)
  next
    case (Sample p m)
    with no_five_errors(2) [OF Cons.prems] have "\<not> sublist five_errors (replicate 0 SampleError @ ss)"
      by (auto simp: sublist_Cons_right)
    from Cons.IH [OF this] Sample show ?thesis by (cases m) (simp_all add: map_filter_simps)
  qed
qed (simp add: map_filter_simps)

lemma sampler_run_stops:
  fixes ss :: "'m sample list"
  shows "\<not> sublist five_errors (replicate n SampleError @ ss @ replicate (consecutiveSampleErrors - 1) SampleError) \<Longrightarrow>
   sampler_run (ss @ five_errors @ rest) n cpu mem
     = (cpu @ List.map_filter cpu_of ss, mem @ List.map_filter mem_of ss, True)"
proof (induction ss arbitrary: n cpu mem)
  case Nil
  then have "\<not> sublist five_errors (replicate (n + (consecutiveSampleErrors - 1)) (SampleError :: 'm sample) @ [])"
    by (simp add: replicate_add)
  from no_five_errors(1) [OF this] have "n = 0" by (simp add: consecutiveSampleErrors_def)
  then show ?case by (simp add: five_errors_def consecutiveSampleErrors_def numeral_eq_Suc map_filter_simps)
next
  case (Cons s ss)
  show ?case
  proof (cases s)
    case SampleError
    with Cons.prems have *: "\<not> sublist five_errors (replicate (n + 1) SampleError @ ss
        @ replicate (consecutiveSampleErrors - 1) SampleError)"
      by (simp only: replicate_snoc_Cons append_Cons) simp
    from Cons.IH [OF this] no_five_errors(1) [OF *] SampleError show ?thesis by (simp add: map_filter_simps)
  next
    case (Sample p m)
    with no_five_errors(2) [OF Cons.prems]
    have "\<not> sublist five_errors (replicate 0 SampleError @ ss @ replicate (consecutiveSampleErrors - 1) SampleError)"
      by (auto simp: sublist_Cons_right)
    from Cons.IH [OF this] Sample show ?thesis by (cases m) (simp_all add: map_filter_simps)
  qed
qed

text \<open>Once stopped a source takes no more samples, and what is read from it is what was read before.\<close>

lemma sampled_Stop: "sampled ss (PSSource_Stop s) = PSSource_Stop s"
  by (cases s) simp_all

lemma PsInfo_Stop: "PsInfo unmarshal cpuAvg counter net (PSSource_Stop s) = PsInfo unmarshal cpuAvg counter net s"
  by (induction s) (auto simp: local_PsInfo_def split: option.splits)

lemma sampleCount_Stop [simp]: "sampleCount (PSSource_Stop s) = sampleCount s"
  by (cases s) simp_all

text \<open>
  C35. A sampler keeps every sample it read, whatever errors came between them, until the first five errors in
  a row, where it gives up. With one sample or more a report is built from them without the server being asked anything, and
  once the sampler is stopped, whatever rounds would have followed, from the same ones.
\<close>

theorem sampler_keeps_samples:
  assumes "ss = taken \<or> ss = taken @ five_errors @ rest"
    and "\<not> sublist five_errors (taken @ replicate (consecutiveSampleErrors - 1) SampleError)"
    and "List.map_filter cpu_of taken \<noteq> []"
  shows "sampled ss (LocalPSSampler pid interval True [] [] fallback)
       = LocalPSSampler pid interval (ss = taken) (List.map_filter cpu_of taken) (List.map_filter mem_of taken) fallback
     \<and> PsInfo unmarshal cpuAvg counter net (sampled ss (LocalPSSampler pid interval True [] [] fallback))
       = (Some (counter (List.map_filter cpu_of taken) (List.map_filter mem_of taken)), None)
     \<and> PsInfo unmarshal cpuAvg counter net
         (sampled later (PSSource_Stop (sampled ss (LocalPSSampler pid interval True [] [] fallback))))
       = (Some (counter (List.map_filter cpu_of taken) (List.map_filter mem_of taken)), None)"
proof -
  have "\<not> sublist five_errors taken"
    using assms(2) sublist_order.order_trans [of five_errors taken] by blast
  with assms(1,2) have run: "sampler_run ss 0 [] [] = (List.map_filter cpu_of taken, List.map_filter mem_of taken, ss \<noteq> taken)"
    using sampler_run_keeps [of 0 taken "[]" "[]"] sampler_run_stops [of 0 taken rest "[]" "[]"]
    by (auto simp: five_errors_def consecutiveSampleErrors_def)
  have s: "sampled ss (LocalPSSampler pid interval True [] [] fallback)
      = LocalPSSampler pid interval (ss = taken) (List.map_filter cpu_of taken) (List.map_filter mem_of taken) fallback"
    by (simp add: run)
  show ?thesis unfolding sampled_Stop PsInfo_Stop s using assms(3) by (simp add: local_PsInfo_def)
qed

theorem sampler_keeps_samples_witness:
  "PsInfo (\<lambda>_. None) (\<lambda>_. NaN) (\<lambda>cpu mem. (cpu, mem)) (\<lambda>_ _. NoReply ''down'')
     (sampled ([Sample (Fin 1) (Some 7), SampleError, Sample (Fin 2) None] @ five_errors @ [Sample (Fin 3) None])
       (LocalPSSampler 42 second True [] [] None))
   = (Some ([Fin 1, Fin 2], [7 :: nat]), None)"
proof -
  have "\<not> sublist five_errors ([Sample (Fin 1) (Some 7 :: nat option), SampleError, Sample (Fin 2) None]
      @ replicate (consecutiveSampleErrors - 1) SampleError)"
    by (simp add: five_errors_def consecutiveSampleErrors_def numeral_eq_Suc sublist_Cons_right)
  from sampler_keeps_samples [OF disjI2 [OF refl] this, where rest = "[Sample (Fin 3) None]"
      and unmarshal = "\<lambda>_. None" and cpuAvg = "\<lambda>_. NaN" and counter = "\<lambda>cpu mem. (cpu, mem)"
      and net = "\<lambda>_ _. NoReply ''down''" and pid = 42 and interval = second and fallback = None]
  show ?thesis by (simp add: map_filter_simps local_PsInfo_def del: sampled.simps)
qed

end
