(* ===== verification/Dialing.thy ===== *)
theory Dialing
  imports ReportFiles PsSource ClientConn Reach
begin

text \<open>
  \<^verbatim>\<open>benchcli-go/connections/connection.go\<close>: dialing the connections every benchmark shares.

  A client connection is a reference, so that \<^verbatim>\<open>Redial\<close> compares pointers as the source does. How one
  dial goes is a record of what the network answered at each of its steps; \<^verbatim>\<open>perf.Calculator\<close>, which
  calls \<^verbatim>\<open>doOnce\<close> from its workers and keeps the statistics, is outside the repository: its
  numbers are the record \<open>calculator\<close>, and its workers' steps are interleaved in every order by \<open>dials\<close>.
\<close>

type_synonym ccref = nat

record calculator =
  calc_TPS :: int
  calc_Min :: int
  calc_Avg :: int
  calc_Max :: int
  calc_Used :: int
  calc_Success :: int
  calc_Failed :: int
  calc_TPN :: "int \<Rightarrow> int"

record Conn =
  c_Addr :: string
  c_cc :: ccref

record Connections =
  cs_Framework :: string
  cs_Ip :: string
  cs_Concurrency :: int
  cs_NumConnections :: int
  cs_DialTimeout :: int
  cs_RetryInterval :: int
  cs_RetryTimes :: int
  cs_EnalbeTPN :: bool
  cs_Percents :: "int list"
  cs_ReadBufferSize :: int
  cs_MaxStreams :: int
  cs_MinMaxStreams :: int
  cs_conns :: "Conn list"
  cs_serverIdx :: uint32
  cs_serverAddrs :: "string list"
  cs_request :: "Request option"

definition Connections_New :: "string \<Rightarrow> string \<Rightarrow> int \<Rightarrow> Connections" where
  "Connections_New framework ip numConns =
     \<lparr>cs_Framework = framework, cs_Ip = ip, cs_Concurrency = 0, cs_NumConnections = numConns, cs_DialTimeout = 0,
      cs_RetryInterval = 0, cs_RetryTimes = 0, cs_EnalbeTPN = False, cs_Percents = [], cs_ReadBufferSize = 0,
      cs_MaxStreams = 0, cs_MinMaxStreams = 0, cs_conns = [], cs_serverIdx = 0, cs_serverAddrs = [],
      cs_request = None\<rparr>"

definition Host :: "string \<Rightarrow> string" where
  "Host ip = (if CHR '':'' \<in> set ip \<and> \<not> HasPrefix ip ''['' then ''['' @ ip @ '']'' else ip)"

text \<open>\<^verbatim>\<open>init\<close>, on a machine with \<open>ncpu\<close> processors: what was not set, then the addresses. An error ends the program.\<close>

definition Connections_load :: "int \<Rightarrow> Connections \<Rightarrow> Connections" where
  "Connections_load ncpu cs =
     (let cs = (if cs_NumConnections cs \<le> 0 then cs\<lparr>cs_NumConnections := 1000\<rparr> else cs);
          cs = (if cs_Concurrency cs \<le> 0 then cs\<lparr>cs_Concurrency := ncpu * 1000\<rparr> else cs)
      in if cs_Concurrency cs > cs_NumConnections cs then cs\<lparr>cs_Concurrency := cs_NumConnections cs\<rparr> else cs)"

definition Connections_settings :: "Connections \<Rightarrow> Connections" where
  "Connections_settings cs =
     cs\<lparr>cs_DialTimeout := (if cs_DialTimeout cs \<le> 0 then second * 1 else cs_DialTimeout cs),
        cs_RetryInterval := (if cs_RetryInterval cs \<le> 0 then second div 10 else cs_RetryInterval cs),
        cs_RetryTimes := (if cs_RetryTimes cs \<le> 0 then 3 else cs_RetryTimes cs),
        cs_ReadBufferSize := (if cs_ReadBufferSize cs \<le> 0 then 4096 else cs_ReadBufferSize cs),
        cs_Percents := (if cs_EnalbeTPN cs then [50, 75, 90, 95, 99] else cs_Percents cs)\<rparr>"

definition Connections_init :: "int \<Rightarrow> Connections \<Rightarrow> config_error + Connections" where
  "Connections_init ncpu cs =
     (let cs = Connections_settings (Connections_load ncpu cs)
      in case GetFrameworkBenchmarkAddrs (cs_Framework cs) (cs_Ip cs) of
           Inl e \<Rightarrow> Inl e
         | Inr addrs \<Rightarrow> Inr (cs\<lparr>cs_serverAddrs := addrs,
             cs_request := Some (NewRequest ''GET'' (Host (cs_Ip cs)) EchoPath None), cs_conns := []\<rparr>))"

definition Connections_clean :: "Connections \<Rightarrow> Connections" where
  "Connections_clean cs = cs\<lparr>cs_serverAddrs := []\<rparr>"

text \<open>\<^verbatim>\<open>Stop\<close>, on the client connections there are: each connection's current one is closed.\<close>

definition Connections_Stop :: "Connections \<Rightarrow> (ccref \<Rightarrow> 'd ClientConn) \<Rightarrow> ccref \<Rightarrow> 'd ClientConn" where
  "Connections_Stop cs client = foldl (\<lambda>client c. client(c_cc c := conn_Close (client (c_cc c)))) client (cs_conns cs)"

section \<open>Dialing\<close>

record dialing =
  tcp_err :: "string option"
  new_err :: "err option" \<comment> \<open>of \<^verbatim>\<open>NewClientConn\<close>\<close>
  get_result :: Result \<comment> \<open>what \<^verbatim>\<open>Do\<close> returned for the first GET\<close>
  err_after_settings :: "err option" \<comment> \<open>\<^verbatim>\<open>cc.Err()\<close> once the server's SETTINGS were seen, or the reader failed\<close>
  dialed :: ccref

datatype conn_error = TcpError string | ProtocolError err | BadStatus int

text \<open>\<^verbatim>\<open>dial\<close>: the connection or the error, and whether a connection it opened is closed again.\<close>

definition dial :: "dialing \<Rightarrow> (conn_error + ccref) \<times> bool" where
  "dial d =
     (case tcp_err d of
        Some e \<Rightarrow> (Inl (TcpError e), False)
      | None \<Rightarrow>
          (case new_err d of
             Some e \<Rightarrow> (Inl (ProtocolError e), True)
           | None \<Rightarrow>
               let res = get_result d;
                   e = (case res_Err res of Some x \<Rightarrow> Some (ProtocolError x)
                        | None \<Rightarrow> if res_Status res \<noteq> 200 then Some (BadStatus (res_Status res))
                                  else map_option ProtocolError (err_after_settings d))
               in case e of Some x \<Rightarrow> (Inl x, True) | None \<Rightarrow> (Inr (dialed d), False)))"

text \<open>
  \<^verbatim>\<open>Redial\<close>, on the connection as it is when the lock is taken: the error, the connection after it, and
  whether the broken one was closed.
\<close>

definition Redial :: "Conn \<Rightarrow> ccref \<Rightarrow> dialing \<Rightarrow> conn_error option \<times> Conn \<times> bool" where
  "Redial c broken d =
     (if c_cc c \<noteq> broken then (None, c, False)
      else case fst (dial d) of Inl e \<Rightarrow> (Some e, c, True) | Inr cc \<Rightarrow> (None, c\<lparr>c_cc := cc\<rparr>, True))"

text \<open>
  A call of \<^verbatim>\<open>doOnce\<close>: the attempts it has made, the address it is dialing, its last error, and what it returned,
  if it has.
\<close>

record dialer =
  d_i :: int
  d_addr :: "string option"
  d_err :: "conn_error option"
  d_ret :: "conn_error option option"

definition new_dialer :: dialer where
  "new_dialer = \<lparr>d_i = 0, d_addr = None, d_err = None, d_ret = None\<rparr>"

text \<open>
  The address an attempt takes: the next one round, by an index that is incremented before it is used.
  \<open>None\<close> is the division by zero of a list of no addresses.
\<close>

definition next_addr :: "Connections \<Rightarrow> (string \<times> Connections) option" where
  "next_addr cs =
     (let idx = cs_serverIdx cs + 1; n = (of_nat (length (cs_serverAddrs cs)) :: uint32)
      in if n = 0 then None
         else Some (cs_serverAddrs cs ! unat (idx mod n), cs\<lparr>cs_serverIdx := idx\<rparr>))"

text \<open>The head of its loop: an attempt takes its address, or the call returns after the last one.\<close>

definition doOnce_next :: "dialer \<Rightarrow> Connections \<Rightarrow> (dialer \<times> Connections \<times> string list) option" where
  "doOnce_next w cs =
     (if d_i w < cs_RetryTimes cs then
        map_option (\<lambda>(addr, cs). (w\<lparr>d_addr := Some addr\<rparr>, cs, [addr])) (next_addr cs)
      else Some (w\<lparr>d_ret := Some (d_err w)\<rparr>, cs, []))"

text \<open>The rest of it, once \<^verbatim>\<open>dial\<close> has returned.\<close>

definition doOnce_dialed :: "conn_error + ccref \<Rightarrow> string \<Rightarrow> dialer \<Rightarrow> Connections \<Rightarrow> dialer \<times> Connections" where
  "doOnce_dialed res addr w cs =
     (let w = w\<lparr>d_i := d_i w + 1, d_addr := None\<rparr>
      in case res of
           Inr cc \<Rightarrow> (w\<lparr>d_err := None, d_ret := Some None\<rparr>, cs\<lparr>cs_conns := cs_conns cs @ [\<lparr>c_Addr = addr, c_cc = cc\<rparr>]\<rparr>)
         | Inl e \<Rightarrow> (w\<lparr>d_err := Some e\<rparr>, cs))"

text \<open>A call's next move, the network answering its dial with \<open>d\<close>, and the address it takes, if it takes one.\<close>

definition doOnce_turn :: "dialing \<Rightarrow> dialer \<Rightarrow> Connections \<Rightarrow> (dialer \<times> Connections \<times> string list) option" where
  "doOnce_turn d w cs =
     (case d_addr w of
        None \<Rightarrow> doOnce_next w cs
      | Some addr \<Rightarrow> let (w, cs) = doOnce_dialed (fst (dial d)) addr w cs in Some (w, cs, []))"

text \<open>
  \<^verbatim>\<open>perf.Calculator\<close> makes the calls from its workers: the calls, the shared state, and the addresses
  dialed so far. Any call that has not returned may move.
\<close>

record dial_state =
  ds_calls :: "dialer list"
  ds_cs :: Connections
  ds_trail :: "string list"

inductive dial_move :: "dial_state \<Rightarrow> dial_state \<Rightarrow> bool" where
  dial_moveI: "k < length (ds_calls s) \<Longrightarrow> d_ret (ds_calls s ! k) = None \<Longrightarrow>
    doOnce_turn d (ds_calls s ! k) (ds_cs s) = Some (w, cs, addrs) \<Longrightarrow>
    dial_move s (s\<lparr>ds_calls := (ds_calls s)[k := w], ds_cs := cs, ds_trail := ds_trail s @ addrs\<rparr>)"

inductive_cases dial_moveE: "dial_move s t"

definition dial_start :: "Connections \<Rightarrow> dial_state" where
  "dial_start cs = \<lparr>ds_calls = replicate (nat (cs_NumConnections cs)) new_dialer, ds_cs = cs, ds_trail = []\<rparr>"

abbreviation dials :: "Connections \<Rightarrow> dial_state \<Rightarrow> bool" where
  "dials cs \<equiv> reach (\<lambda>s. s = dial_start cs) dial_move"

section \<open>A run\<close>

text \<open>The stream limits \<^verbatim>\<open>Run\<close> reads off the connections at its end.\<close>

definition Run_limits :: "(ccref \<Rightarrow> 'd ClientConn) \<Rightarrow> Connections \<Rightarrow> Connections" where
  "Run_limits client cs =
     foldl (\<lambda>cs c. let n = MaxStreams (client (c_cc c));
                       cs = cs\<lparr>cs_MaxStreams := max (cs_MaxStreams cs) n\<rparr>
                   in if cs_MinMaxStreams cs = 0 \<or> n < cs_MinMaxStreams cs then cs\<lparr>cs_MinMaxStreams := n\<rparr> else cs)
       cs (cs_conns cs)"

text \<open>
  \<^verbatim>\<open>Run\<close>, where \<open>bench\<close> is \<^verbatim>\<open>Calculator.Benchmark\<close>: the state it leaves the connections in, and its numbers.
\<close>

definition Connections_Run ::
  "(Connections \<Rightarrow> Connections \<times> calculator) \<Rightarrow> (ccref \<Rightarrow> 'd ClientConn) \<Rightarrow> int \<Rightarrow> Connections
     \<Rightarrow> config_error + Connections \<times> calculator" where
  "Connections_Run bench client ncpu cs =
     (case Connections_init ncpu cs of
        Inl e \<Rightarrow> Inl e
      | Inr cs \<Rightarrow> let (cs, calc) = bench cs in Inr (Connections_clean (Run_limits client cs), calc))"

text \<open>
  What is relied on of \<^verbatim>\<open>Calculator.Benchmark\<close>: it calls \<^verbatim>\<open>doOnce\<close> once for every connection wanted, in
  whatever order and overlap, and returns when every call has.
\<close>

definition dial_bench :: "(Connections \<Rightarrow> Connections \<times> calculator) \<Rightarrow> Connections \<Rightarrow> bool" where
  "dial_bench bench cs \<longleftrightarrow>
     (\<exists>s. dials cs s \<and> list_all (\<lambda>w. d_ret w \<noteq> None) (ds_calls s) \<and> fst (bench cs) = ds_cs s)"

definition Connections_Report :: "calculator \<Rightarrow> Connections \<Rightarrow> ConnectionsReport" where
  "Connections_Report calc cs =
     (let r = (create_Connections (cs_Framework cs))\<lparr>cn_BenchClient := ''benchcli-go'', cn_TPS := calc_TPS calc,
                cn_Min := calc_Min calc, cn_Avg := calc_Avg calc, cn_Max := calc_Max calc, cn_Used := calc_Used calc,
                cn_Total := cs_NumConnections cs, cn_Success := calc_Success calc, cn_Failed := calc_Failed calc,
                cn_Concurrency := cs_Concurrency cs, cn_MaxStreams := cs_MinMaxStreams cs\<rparr>
      in if cs_EnalbeTPN cs
         then r\<lparr>cn_TP50 := calc_TPN calc 50, cn_TP75 := calc_TPN calc 75, cn_TP90 := calc_TPN calc 90,
                cn_TP95 := calc_TPN calc 95, cn_TP99 := calc_TPN calc 99\<rparr>
         else r)"

section \<open>Every interleaving of the calls\<close>

text \<open>The address of the attempt number \<open>k\<close>, from 0, of a list of \<open>m\<close> addresses.\<close>

definition slot :: "nat \<Rightarrow> nat \<Rightarrow> nat" where
  "slot m k = unat ((of_nat (k + 1) :: uint32) mod of_nat m)"

lemma slot_eq: "0 < m \<Longrightarrow> m < 2 ^ 32 \<Longrightarrow> k + 1 < 2 ^ 32 \<Longrightarrow> slot m k = (k + 1) mod m"
  by (simp add: slot_def unat_mod unat_of_nat take_bit_nat_eq_self del: of_nat_add of_nat_Suc)

text \<open>What \<^verbatim>\<open>init\<close> makes sure of.\<close>

definition dialable :: "Connections \<Rightarrow> bool" where
  "dialable cs \<longleftrightarrow> cs_serverIdx cs = 0 \<and> cs_conns cs = [] \<and> 0 < cs_RetryTimes cs \<and> 0 < cs_NumConnections cs
     \<and> 0 < length (cs_serverAddrs cs) \<and> length (cs_serverAddrs cs) < 2 ^ 32"

lemma Connections_load_simps [simp]:
  "cs_Framework (Connections_load ncpu cs) = cs_Framework cs" "cs_Ip (Connections_load ncpu cs) = cs_Ip cs"
  "cs_serverIdx (Connections_load ncpu cs) = cs_serverIdx cs" "cs_EnalbeTPN (Connections_load ncpu cs) = cs_EnalbeTPN cs"
  "cs_MaxStreams (Connections_load ncpu cs) = cs_MaxStreams cs"
  "cs_MinMaxStreams (Connections_load ncpu cs) = cs_MinMaxStreams cs"
  "cs_RetryTimes (Connections_load ncpu cs) = cs_RetryTimes cs"
  "cs_NumConnections (Connections_load ncpu cs) = (if cs_NumConnections cs \<le> 0 then 1000 else cs_NumConnections cs)"
  by (simp_all add: Connections_load_def Let_def)

lemma Connections_init_Inr:
  assumes "Connections_init ncpu cs = Inr cs'"
  shows "GetFrameworkBenchmarkAddrs (cs_Framework cs) (cs_Ip cs) = Inr (cs_serverAddrs cs')"
    and "cs_Framework cs' = cs_Framework cs" "cs_serverIdx cs' = cs_serverIdx cs" "cs_conns cs' = []"
    and "0 < cs_RetryTimes cs'" "0 < cs_NumConnections cs'"
    and "cs_MaxStreams cs' = cs_MaxStreams cs" "cs_MinMaxStreams cs' = cs_MinMaxStreams cs"
    and "cs_EnalbeTPN cs' = cs_EnalbeTPN cs"
  using assms by (auto simp: Connections_init_def Connections_settings_def Let_def split: sum.splits)

lemma GetFrameworkBenchmarkAddrs_length:
  assumes "GetFrameworkBenchmarkAddrs fw ip = Inr addrs"
  shows "length addrs = 50"
proof -
  have "fw \<in> set FrameworkList" using assms unknown_framework [of fw]
    by (auto simp: GetFrameworkBenchmarkAddrs_def split: sum.splits)
  then show ?thesis using assms framework_ports [of fw] by (auto simp: GetFrameworkBenchmarkAddrs_def)
qed

lemma Connections_init_dialable:
  "Connections_init ncpu cs = Inr cs' \<Longrightarrow> cs_serverIdx cs = 0 \<Longrightarrow> dialable cs' \<and> length (cs_serverAddrs cs') = 50"
  using Connections_init_Inr [of ncpu cs cs'] GetFrameworkBenchmarkAddrs_length [of "cs_Framework cs" "cs_Ip cs"]
  by (auto simp: dialable_def)

text \<open>What is true of one call, with \<open>R\<close> the attempts it may make and \<open>trail\<close> the addresses dialed.\<close>

definition dialer_ok :: "int \<Rightarrow> string list \<Rightarrow> dialer \<Rightarrow> bool" where
  "dialer_ok R trail w \<longleftrightarrow> 0 \<le> d_i w \<and> d_i w \<le> R
     \<and> (\<forall>a. d_addr w = Some a \<longrightarrow> a \<in> set trail \<and> d_i w < R \<and> d_ret w = None)
     \<and> (d_err w = None \<longrightarrow> d_i w = 0 \<or> d_ret w = Some None)
     \<and> (\<forall>e. d_ret w = Some (Some e) \<longrightarrow> d_i w = R \<and> d_err w = Some e)
     \<and> (d_ret w = Some None \<longrightarrow> 0 < d_i w)"

lemma dialer_ok_mono: "dialer_ok R trail w \<Longrightarrow> dialer_ok R (trail @ addrs) w"
  by (auto simp: dialer_ok_def)

text \<open>The attempts a call has begun, and the moves it has left.\<close>

definition begun :: "dialer \<Rightarrow> int" where
  "begun w = d_i w + (if d_addr w = None then 0 else 1)"

definition turns_left :: "int \<Rightarrow> dialer \<Rightarrow> nat" where
  "turns_left R w = (if d_ret w \<noteq> None then 0 else 2 * nat (R - d_i w) + (if d_addr w = None then 1 else 0))"

definition dials_inv :: "Connections \<Rightarrow> dial_state \<Rightarrow> bool" where
  "dials_inv cs0 s \<longleftrightarrow> dialable cs0
   \<and> (ds_cs s)\<lparr>cs_serverIdx := 0, cs_conns := []\<rparr> = cs0
   \<and> cs_serverIdx (ds_cs s) = of_nat (length (ds_trail s))
   \<and> (\<forall>k < length (ds_trail s). ds_trail s ! k = cs_serverAddrs cs0 ! slot (length (cs_serverAddrs cs0)) k)
   \<and> length (ds_calls s) = nat (cs_NumConnections cs0)
   \<and> int (length (ds_trail s)) = sum_list (map begun (ds_calls s))
   \<and> length (cs_conns (ds_cs s)) = length (filter (\<lambda>w. d_ret w = Some None) (ds_calls s))
   \<and> set (map c_Addr (cs_conns (ds_cs s))) \<subseteq> set (ds_trail s)
   \<and> list_all (dialer_ok (cs_RetryTimes cs0) (ds_trail s)) (ds_calls s)"

lemma next_addr_Some:
  "next_addr cs = Some (addr, cs') \<Longrightarrow> cs_serverIdx cs = of_nat k \<Longrightarrow>
     addr = cs_serverAddrs cs ! slot (length (cs_serverAddrs cs)) k \<and> cs' = cs\<lparr>cs_serverIdx := of_nat (k + 1)\<rparr>"
  by (auto simp: next_addr_def Let_def slot_def algebra_simps split: if_splits)

lemma sum_list_update_int:
  fixes f :: "'a \<Rightarrow> int"
  shows "i < length xs \<Longrightarrow> sum_list (map f (xs[i := x])) = sum_list (map f xs) - f (xs ! i) + f x"
  by (induction xs arbitrary: i) (auto split: nat.splits)

lemma length_filter_update:
  "i < length xs \<Longrightarrow> \<not> P (xs ! i) \<Longrightarrow> length (filter P (xs[i := x])) = length (filter P xs) + (if P x then 1 else 0)"
  by (induction xs arbitrary: i) (auto split: nat.splits)

text \<open>The four ways a move goes.\<close>

lemma doOnce_turn_cases:
  assumes "doOnce_turn d w cs = Some (w', cs', addrs)"
  obtains (attempt) addr where "d_addr w = None" "d_i w < cs_RetryTimes cs" "next_addr cs = Some (addr, cs')" "addrs = [addr]"
      "w' = w\<lparr>d_addr := Some addr\<rparr>"
  | (connected) addr cc where "d_addr w = Some addr" "addrs = []"
      "w' = w\<lparr>d_i := d_i w + 1, d_addr := None, d_err := None, d_ret := Some None\<rparr>"
      "cs' = cs\<lparr>cs_conns := cs_conns cs @ [\<lparr>c_Addr = addr, c_cc = cc\<rparr>]\<rparr>"
  | (failed) addr e where "d_addr w = Some addr" "addrs = []"
      "w' = w\<lparr>d_i := d_i w + 1, d_addr := None, d_err := Some e\<rparr>" "cs' = cs"
  | (returned) "d_addr w = None" "cs_RetryTimes cs \<le> d_i w" "w' = w\<lparr>d_ret := Some (d_err w)\<rparr>" "cs' = cs" "addrs = []"
proof (cases "d_addr w")
  case None
  then have turn: "doOnce_next w cs = Some (w', cs', addrs)" using assms by (simp add: doOnce_turn_def)
  show ?thesis
  proof (cases "d_i w < cs_RetryTimes cs")
    case True
    with turn obtain addr where "next_addr cs = Some (addr, cs')" "addrs = [addr]" "w' = w\<lparr>d_addr := Some addr\<rparr>"
      by (auto simp: doOnce_next_def)
    with None True show ?thesis by (rule attempt)
  next
    case False
    with turn have "w' = w\<lparr>d_ret := Some (d_err w)\<rparr>" "cs' = cs" "addrs = []" by (auto simp: doOnce_next_def)
    with None False show ?thesis by (intro returned) auto
  qed
next
  case (Some addr)
  then have turn: "(w', cs') = doOnce_dialed (fst (dial d)) addr w cs" and addrs: "addrs = []"
    using assms by (auto simp: doOnce_turn_def split: prod.splits)
  show ?thesis
  proof (cases "fst (dial d)")
    case (Inl e)
    with turn have "w' = w\<lparr>d_i := d_i w + 1, d_addr := None, d_err := Some e\<rparr>" "cs' = cs"
      by (auto simp: doOnce_dialed_def)
    with Some addrs show ?thesis by (rule failed)
  next
    case (Inr cc)
    with turn have "w' = w\<lparr>d_i := d_i w + 1, d_addr := None, d_err := None, d_ret := Some None\<rparr>"
      "cs' = cs\<lparr>cs_conns := cs_conns cs @ [\<lparr>c_Addr = addr, c_cc = cc\<rparr>]\<rparr>" by (auto simp: doOnce_dialed_def)
    with Some addrs show ?thesis by (rule connected)
  qed
qed

lemma dials_inv_start: "dialable cs \<Longrightarrow> dials_inv cs (dial_start cs)"
  by (auto simp: dials_inv_def dial_start_def new_dialer_def dialer_ok_def dialable_def begun_def sum_list_replicate
      list_all_iff)

lemma dials_inv_same:
  "dials_inv cs0 s \<Longrightarrow> cs_RetryTimes (ds_cs s) = cs_RetryTimes cs0 \<and> cs_serverAddrs (ds_cs s) = cs_serverAddrs cs0
     \<and> dialable cs0 \<and> 0 < cs_RetryTimes cs0"
  by (auto simp: dials_inv_def dialable_def)

lemma dials_inv_turn:
  assumes inv: "dials_inv cs0 s" and k: "k < length (ds_calls s)" and run: "d_ret (ds_calls s ! k) = None"
    and turn: "doOnce_turn d (ds_calls s ! k) (ds_cs s) = Some (w, cs, addrs)"
  shows "dials_inv cs0 (s\<lparr>ds_calls := (ds_calls s)[k := w], ds_cs := cs, ds_trail := ds_trail s @ addrs\<rparr>)"
proof -
  let ?R = "cs_RetryTimes cs0"
  have R: "cs_RetryTimes (ds_cs s) = ?R" "cs_serverAddrs (ds_cs s) = cs_serverAddrs cs0" "0 < ?R"
    using dials_inv_same [OF inv] by auto
  have all: "\<forall>v \<in> set (ds_calls s). dialer_ok ?R (ds_trail s) v" using inv by (simp add: dials_inv_def list_all_iff)
  then have ok: "dialer_ok ?R (ds_trail s) (ds_calls s ! k)" using k by simp
  have set: "list_all (dialer_ok ?R (ds_trail s @ addrs)) ((ds_calls s)[k := w])"
    if "dialer_ok ?R (ds_trail s @ addrs) w"
    using all that set_update_subset_insert [of "ds_calls s" k w] by (auto simp: list_all_iff dialer_ok_mono)
  note upd = sum_list_update_int [OF k] length_filter_update [OF k, of "\<lambda>w. d_ret w = Some None"]
  from turn show ?thesis
  proof (cases rule: doOnce_turn_cases)
    case (attempt addr)
    with inv next_addr_Some [of "ds_cs s" addr cs "length (ds_trail s)"]
    have "addr = cs_serverAddrs cs0 ! slot (length (cs_serverAddrs cs0)) (length (ds_trail s))"
      "cs = (ds_cs s)\<lparr>cs_serverIdx := of_nat (length (ds_trail s) + 1)\<rparr>" by (auto simp: dials_inv_def)
    moreover have "dialer_ok ?R (ds_trail s @ addrs) w" using ok attempt R run by (auto simp: dialer_ok_def)
    ultimately show ?thesis using inv set attempt run upd by (auto simp: dials_inv_def begun_def nth_append less_Suc_eq)
  next
    case (connected addr cc)
    have "dialer_ok ?R (ds_trail s @ addrs) w" "addr \<in> set (ds_trail s)" using ok connected by (auto simp: dialer_ok_def)
    with inv set connected run upd show ?thesis by (auto simp: dials_inv_def begun_def)
  next
    case (failed addr e)
    have "dialer_ok ?R (ds_trail s @ addrs) w" using ok failed run by (auto simp: dialer_ok_def)
    with inv set failed run upd show ?thesis by (auto simp: dials_inv_def begun_def)
  next
    case returned
    have "dialer_ok ?R (ds_trail s @ addrs) w" and "d_ret w \<noteq> Some None"
      using ok returned R run by (auto simp: dialer_ok_def)
    with inv set returned run upd show ?thesis by (auto simp: dials_inv_def begun_def)
  qed
qed

lemma sum_list_update_less:
  fixes f :: "'a \<Rightarrow> nat"
  shows "i < length xs \<Longrightarrow> f x < f (xs ! i) \<Longrightarrow> sum_list (map f (xs[i := x])) < sum_list (map f xs)"
proof (induction xs arbitrary: i)
  case (Cons a xs)
  then show ?case by (cases i) auto
qed simp

lemma turn_lowers:
  assumes "doOnce_turn d w cs = Some (w', cs', addrs)" and "d_ret w = None" and "cs_RetryTimes cs = R"
    and "dialer_ok R trail w"
  shows "turns_left R w' < turns_left R w"
  using assms(1) by (cases rule: doOnce_turn_cases) (use assms(2-4) in \<open>auto simp: turns_left_def dialer_ok_def\<close>)

lemma can_turn:
  assumes "dials_inv cs0 s" and "w \<in> set (ds_calls s)" and "d_ret w = None"
  shows "\<exists>w' cs' addrs. doOnce_turn d w (ds_cs s) = Some (w', cs', addrs)"
proof (cases "d_addr w")
  case None
  have m: "0 < length (cs_serverAddrs cs0)" "length (cs_serverAddrs cs0) < 2 ^ 32"
    "cs_serverAddrs (ds_cs s) = cs_serverAddrs cs0"
    using dials_inv_same [OF assms(1)] by (auto simp: dialable_def)
  then have "unat (of_nat (length (cs_serverAddrs cs0)) :: uint32) = length (cs_serverAddrs cs0)"
    by (simp add: unat_of_nat take_bit_nat_eq_self)
  with m have "(of_nat (length (cs_serverAddrs cs0)) :: uint32) \<noteq> 0" by force
  with None m(3) show ?thesis by (simp add: doOnce_turn_def doOnce_next_def next_addr_def Let_def)
next
  case (Some addr)
  then show ?thesis by (auto simp: doOnce_turn_def split: prod.split)
qed

interpretation dialing: winding_down "\<lambda>s. dialable cs0 \<and> s = dial_start cs0" dial_move "dials_inv cs0"
  "\<lambda>s. sum_list (map (turns_left (cs_RetryTimes cs0)) (ds_calls s))" "\<lambda>s. list_all (\<lambda>w. d_ret w \<noteq> None) (ds_calls s)"
  for cs0
proof (unfold_locales, goal_cases)
  case (1 s)
  then show ?case using dials_inv_start by simp
next
  case (2 s t)
  then show ?case using dials_inv_turn by (auto elim: dial_moveE)
next
  case (3 s t)
  from 3(2) obtain k d w cs addrs where k: "k < length (ds_calls s)" "d_ret (ds_calls s ! k) = None"
    and turn: "doOnce_turn d (ds_calls s ! k) (ds_cs s) = Some (w, cs, addrs)"
    and t: "ds_calls t = (ds_calls s)[k := w]"
    by (elim dial_moveE) auto
  have "dialer_ok (cs_RetryTimes cs0) (ds_trail s) (ds_calls s ! k)" using 3(1) k by (auto simp: dials_inv_def list_all_iff)
  with turn_lowers [OF turn k(2)] dials_inv_same [OF 3(1)] sum_list_update_less [OF k(1)] t show ?case by simp
next
  case (4 s)
  then obtain k where k: "k < length (ds_calls s)" "d_ret (ds_calls s ! k) = None"
    by (auto simp: list_all_length)
  with can_turn [OF 4(1), of "ds_calls s ! k"] obtain d w cs addrs where
    "doOnce_turn d (ds_calls s ! k) (ds_cs s) = Some (w, cs, addrs)" by fastforce
  from dial_moveI [OF k this] show ?case by blast
qed

lemma dials_reach_inv: "dials cs0 s \<Longrightarrow> dialable cs0 \<Longrightarrow> dials_inv cs0 s"
  using dialing.inv_reach [of cs0 s] by simp

text \<open>
  C27. Under every interleaving of the calls that dial, after \<^verbatim>\<open>init\<close>, the attempts go to the framework's fifty addresses in turn, one
  after the other and round again, whichever call makes them; there is one connection for each call
  that returned success, to an address that was dialed, and a call that returned an error had made all its attempts.
\<close>

theorem dials_rotate:
  assumes "Connections_init ncpu cs = Inr cs0" and "cs_serverIdx cs = 0" and "dials cs0 s" and "length (ds_trail s) < 2 ^ 32"
  shows "ds_trail s = map (\<lambda>k. cs_serverAddrs cs0 ! ((k + 1) mod 50)) [0..<length (ds_trail s)]
    \<and> GetFrameworkBenchmarkAddrs (cs_Framework cs) (cs_Ip cs) = Inr (cs_serverAddrs cs0)
    \<and> length (cs_conns (ds_cs s)) = length (filter (\<lambda>w. d_ret w = Some None) (ds_calls s))
    \<and> set (map c_Addr (cs_conns (ds_cs s))) \<subseteq> set (ds_trail s)
    \<and> (\<forall>w \<in> set (ds_calls s). \<forall>e. d_ret w = Some (Some e) \<longrightarrow> d_i w = cs_RetryTimes cs0)"
proof -
  have init: "dialable cs0" "length (cs_serverAddrs cs0) = 50" using Connections_init_dialable assms(1,2) by auto
  have inv: "dials_inv cs0 s" using dials_reach_inv assms(3) init(1) .
  then have "\<forall>k < length (ds_trail s). ds_trail s ! k = cs_serverAddrs cs0 ! ((k + 1) mod 50)"
    using assms(4) by (auto simp: dials_inv_def init(2) slot_eq)
  then have "ds_trail s = map (\<lambda>k. cs_serverAddrs cs0 ! ((k + 1) mod 50)) [0..<length (ds_trail s)]"
    by (intro nth_equalityI) auto
  then show ?thesis
    using inv Connections_init_Inr(1) [OF assms(1)] by (auto simp: dials_inv_def dialer_ok_def list_all_iff)
qed

text \<open>
  C28. Every run of \<^verbatim>\<open>doOnce\<close> ends, whatever the network answers and in whatever order the calls move: after \<^verbatim>\<open>init\<close> a schedule takes at
  most two moves for each attempt of each call and one more for its return, and one that can go no further has every
  call returned.
\<close>

theorem doOnce_terminates:
  assumes "Connections_init ncpu cs = Inr cs0" and "cs_serverIdx cs = 0" and "schedule dial_move (dial_start cs0) ts"
  shows "length ts \<le> nat (cs_NumConnections cs0) * (2 * nat (cs_RetryTimes cs0) + 1)
    \<and> ((\<nexists>t. dial_move (last (dial_start cs0 # ts)) t) \<longrightarrow>
        list_all (\<lambda>w. d_ret w \<noteq> None) (ds_calls (last (dial_start cs0 # ts))))"
proof -
  have inv: "dials_inv cs0 (dial_start cs0)" using dials_inv_start Connections_init_dialable assms(1,2) by blast
  have "sum_list (map (turns_left (cs_RetryTimes cs0)) (ds_calls (dial_start cs0)))
      = nat (cs_NumConnections cs0) * (2 * nat (cs_RetryTimes cs0) + 1)"
    by (simp add: dial_start_def new_dialer_def turns_left_def sum_list_replicate)
  then show ?thesis
    using dialing.schedule_length [OF inv assms(3)] dialing.schedule_ends [OF inv assms(3)] by simp
qed

section \<open>Runs, and the limits\<close>

text \<open>A single connection to the framework: the first address refuses, the second connects.\<close>

definition sample_cs :: Connections where
  "sample_cs = Connections_New ''fib'' ''127.0.0.1'' 1"

definition sample_dial :: "bool \<Rightarrow> dialing" where
  "sample_dial ok =
     \<lparr>tcp_err = (if ok then None else Some ''refused''), new_err = None,
      get_result = \<lparr>res_Status = 200, res_Body = [], res_N = 0, res_Err = None\<rparr>, err_after_settings = None, dialed = 7\<rparr>"


definition sample_cs0 :: Connections where
  "sample_cs0 = (Connections_settings (Connections_load 4 sample_cs))\<lparr>
     cs_serverAddrs := map (\<lambda>port. JoinHostPort ''127.0.0.1'' (itoa port)) [2554..2603],
     cs_request := Some (NewRequest ''GET'' ''127.0.0.1'' EchoPath None), cs_conns := []\<rparr>"

lemma sample_init: "Connections_init 4 sample_cs = Inr sample_cs0"
  using framework_ports [of "''fib''"]
  by (simp add: Connections_init_def sample_cs0_def sample_cs_def Connections_New_def Connections_settings_def
      Connections_load_def Let_def GetFrameworkBenchmarkAddrs_def FrameworkList_def first_port_def upt_rec Trim_def Host_def
      HasPrefix_def del: upto_rec_numeral)

lemma sample_cs0_simps [simp]:
  "cs_RetryTimes sample_cs0 = 3" "cs_NumConnections sample_cs0 = 1" "cs_serverIdx sample_cs0 = 0" "cs_conns sample_cs0 = []"
  "cs_serverIdx sample_cs = 0"
  by (simp_all add: sample_cs0_def sample_cs_def Connections_settings_def Connections_New_def)

lemma sample_addrs: "length (cs_serverAddrs sample_cs0) = 50"
  "k < 50 \<Longrightarrow> cs_serverAddrs sample_cs0 ! k = JoinHostPort ''127.0.0.1'' (itoa (2554 + int k))"
  by (simp_all add: sample_cs0_def del: upto_rec_numeral)

text \<open>A call refused at the first address, and connected at the second.\<close>

definition sample_calls :: "dial_state list" where
  "sample_calls =
     (let a = JoinHostPort ''127.0.0.1'' (itoa 2555); b = JoinHostPort ''127.0.0.1'' (itoa 2556);
          refused = Some (TcpError ''refused'')
      in [\<lparr>ds_calls = [\<lparr>d_i = 0, d_addr = Some a, d_err = None, d_ret = None\<rparr>],
            ds_cs = sample_cs0\<lparr>cs_serverIdx := 1\<rparr>, ds_trail = [a]\<rparr>,
          \<lparr>ds_calls = [\<lparr>d_i = 1, d_addr = None, d_err = refused, d_ret = None\<rparr>],
            ds_cs = sample_cs0\<lparr>cs_serverIdx := 1\<rparr>, ds_trail = [a]\<rparr>,
          \<lparr>ds_calls = [\<lparr>d_i = 1, d_addr = Some b, d_err = refused, d_ret = None\<rparr>],
            ds_cs = sample_cs0\<lparr>cs_serverIdx := 2\<rparr>, ds_trail = [a, b]\<rparr>,
          \<lparr>ds_calls = [\<lparr>d_i = 2, d_addr = None, d_err = None, d_ret = Some None\<rparr>],
            ds_cs = sample_cs0\<lparr>cs_serverIdx := 2, cs_conns := [\<lparr>c_Addr = b, c_cc = 7\<rparr>]\<rparr>, ds_trail = [a, b]\<rparr>])"

lemma dial_move_eq:
  "k < length (ds_calls s) \<Longrightarrow> d_ret (ds_calls s ! k) = None \<Longrightarrow>
   doOnce_turn d (ds_calls s ! k) (ds_cs s) = Some (w, cs, addrs) \<Longrightarrow>
   t = s\<lparr>ds_calls := (ds_calls s)[k := w], ds_cs := cs, ds_trail := ds_trail s @ addrs\<rparr> \<Longrightarrow> dial_move s t"
  by (simp add: dial_moveI)

lemmas dial_run_simps = doOnce_turn_def doOnce_next_def doOnce_dialed_def next_addr_def dial_def Let_def sample_addrs

lemma sample_schedule: "schedule dial_move (dial_start sample_cs0) sample_calls"
  unfolding sample_calls_def Let_def schedule.simps
  by (intro conjI TrueI; rule dial_move_eq [of 0, where d = "sample_dial False"] dial_move_eq [of 0, where d = "sample_dial True"])
   (simp_all add: dial_run_simps dial_start_def new_dialer_def sample_dial_def)

lemma sample_dials: "dials sample_cs0 (last sample_calls)"
  using reach_schedule [OF reach_start [of "\<lambda>s. s = dial_start sample_cs0"] sample_schedule]
  by (simp add: sample_calls_def Let_def)

theorem dials_rotate_witness:
  "map (\<lambda>port. JoinHostPort ''127.0.0.1'' (itoa port)) [2555, 2556]
     = map (\<lambda>k. cs_serverAddrs sample_cs0 ! ((k + 1) mod 50)) [0..<2]"
  using dials_rotate [OF sample_init sample_cs0_simps(5) sample_dials] by (simp add: sample_calls_def Let_def upt_rec)

theorem doOnce_terminates_witness: "length sample_calls \<le> 1 * (2 * 3 + 1)"
  using doOnce_terminates [OF sample_init sample_cs0_simps(5) sample_schedule] by simp

section \<open>The limits, redialing and stopping\<close>

lemma Run_limits_foldl:
  fixes client :: "ccref \<Rightarrow> 'd ClientConn"
  defines "f \<equiv> \<lambda>cs c. let n = MaxStreams (client (c_cc c)); cs = cs\<lparr>cs_MaxStreams := max (cs_MaxStreams cs) n\<rparr>
                   in if cs_MinMaxStreams cs = 0 \<or> n < cs_MinMaxStreams cs then cs\<lparr>cs_MinMaxStreams := n\<rparr> else cs"
  assumes "\<forall>c \<in> set conns. 0 < MaxStreams (client (c_cc c))" and "0 < cs_MinMaxStreams cs"
  shows "cs_MaxStreams (foldl f cs conns) = Max (insert (cs_MaxStreams cs) ((\<lambda>c. MaxStreams (client (c_cc c))) ` set conns))
    \<and> cs_MinMaxStreams (foldl f cs conns) = Min (insert (cs_MinMaxStreams cs) ((\<lambda>c. MaxStreams (client (c_cc c))) ` set conns))"
  using assms(2,3)
proof (induction conns arbitrary: cs)
  case (Cons c conns)
  let ?n = "MaxStreams (client (c_cc c))"
  have "cs_MaxStreams (f cs c) = max (cs_MaxStreams cs) ?n" "cs_MinMaxStreams (f cs c) = min (cs_MinMaxStreams cs) ?n"
    using Cons.prems by (auto simp: f_def Let_def)
  moreover have "0 < min (cs_MinMaxStreams cs) ?n" using Cons.prems by simp
  ultimately show ?case using Cons.IH [of "f cs c"] Cons.prems
    by (cases "conns = []") (auto simp: max.assoc min.assoc max.commute min.commute max.left_commute min.left_commute)
qed simp

lemma Run_limits_exact:
  assumes "cs_conns cs \<noteq> []" and "\<forall>c \<in> set (cs_conns cs). 0 < MaxStreams (client (c_cc c))"
    and "cs_MaxStreams cs = 0" and "cs_MinMaxStreams cs = 0"
  shows "cs_MaxStreams (Run_limits client cs) = Max ((\<lambda>c. MaxStreams (client (c_cc c))) ` set (cs_conns cs))
    \<and> cs_MinMaxStreams (Run_limits client cs) = Min ((\<lambda>c. MaxStreams (client (c_cc c))) ` set (cs_conns cs))"
proof -
  obtain c conns where c: "cs_conns cs = c # conns" using assms(1) by (cases "cs_conns cs") auto
  let ?cs = "cs\<lparr>cs_MaxStreams := MaxStreams (client (c_cc c)), cs_MinMaxStreams := MaxStreams (client (c_cc c))\<rparr>"
  have "0 < cs_MinMaxStreams ?cs" using assms(2) c by simp
  moreover have "max 0 (MaxStreams (client (c_cc c))) = MaxStreams (client (c_cc c))" using assms(2) c by simp
  ultimately show ?thesis
    using Run_limits_foldl [of conns client ?cs] assms c by (simp add: Run_limits_def Let_def)
qed

text \<open>A limit of no streams reads as one not seen yet, and the next connection's takes its place.\<close>

lemma Run_limits_zero:
  assumes "MaxStreams (client 1) = 0" and "MaxStreams (client 2) = 100"
  shows "cs_MinMaxStreams (Run_limits client
    ((Connections_New ''fib'' ''127.0.0.1'' 2)\<lparr>cs_conns := [\<lparr>c_Addr = ''a'', c_cc = 1\<rparr>, \<lparr>c_Addr = ''b'', c_cc = 2\<rparr>]\<rparr>)) = 100"
  using assms by (simp add: Run_limits_def Connections_New_def Let_def)

lemma Run_limits_same [simp]:
  "cs_conns (Run_limits client cs) = cs_conns cs" "cs_NumConnections (Run_limits client cs) = cs_NumConnections cs"
  "cs_Framework (Run_limits client cs) = cs_Framework cs" "cs_Concurrency (Run_limits client cs) = cs_Concurrency cs"
  "cs_EnalbeTPN (Run_limits client cs) = cs_EnalbeTPN cs"
proof -
  define f where "f = (\<lambda>(cs :: Connections) (c :: Conn). let n = MaxStreams (client (c_cc c)); cs = cs\<lparr>cs_MaxStreams := max (cs_MaxStreams cs) n\<rparr>
          in if cs_MinMaxStreams cs = 0 \<or> n < cs_MinMaxStreams cs then cs\<lparr>cs_MinMaxStreams := n\<rparr> else cs)"
  have "cs_conns (foldl f cs conns) = cs_conns cs \<and> cs_NumConnections (foldl f cs conns) = cs_NumConnections cs
      \<and> cs_Framework (foldl f cs conns) = cs_Framework cs \<and> cs_Concurrency (foldl f cs conns) = cs_Concurrency cs
      \<and> cs_EnalbeTPN (foldl f cs conns) = cs_EnalbeTPN cs" for conns
    by (induction conns arbitrary: cs) (auto simp: f_def Let_def)
  then show "cs_conns (Run_limits client cs) = cs_conns cs" "cs_NumConnections (Run_limits client cs) = cs_NumConnections cs"
    "cs_Framework (Run_limits client cs) = cs_Framework cs" "cs_Concurrency (Run_limits client cs) = cs_Concurrency cs"
    "cs_EnalbeTPN (Run_limits client cs) = cs_EnalbeTPN cs"
    by (simp_all add: Run_limits_def f_def)
qed

text \<open>
  A whole run: it fails only for a framework there is none of; otherwise every connection it leaves is to one of the
  framework's addresses, there are no more than were asked for, and the limits it reports are the least and the greatest of
  the connections'.
\<close>

lemma Connections_Run_ok:
  assumes init: "Connections_init ncpu cs = Inr cs0" and "cs_serverIdx cs = 0" "cs_MaxStreams cs = 0" "cs_MinMaxStreams cs = 0"
    and bench: "dial_bench bench cs0"
  obtains cs' calc addrs where "Connections_Run bench client ncpu cs = Inr (cs', calc)" "calc = snd (bench cs0)"
    "GetFrameworkBenchmarkAddrs (cs_Framework cs) (cs_Ip cs) = Inr addrs" "set (map c_Addr (cs_conns cs')) \<subseteq> set addrs"
    "int (length (cs_conns cs')) \<le> cs_NumConnections cs0" "cs_NumConnections cs' = cs_NumConnections cs0"
    "cs_conns cs' \<noteq> [] \<Longrightarrow> \<forall>c \<in> set (cs_conns cs'). 0 < MaxStreams (client (c_cc c)) \<Longrightarrow>
       cs_MinMaxStreams cs' = Min ((\<lambda>c. MaxStreams (client (c_cc c))) ` set (cs_conns cs'))
       \<and> cs_MaxStreams cs' = Max ((\<lambda>c. MaxStreams (client (c_cc c))) ` set (cs_conns cs'))"
proof -
  obtain s where s: "dials cs0 s" "fst (bench cs0) = ds_cs s" using bench by (auto simp: dial_bench_def)
  let ?cs = "Run_limits client (ds_cs s)"
  have ok: "dialable cs0" using Connections_init_dialable [OF init] assms(2) by simp
  have inv: "dials_inv cs0 s" using dials_reach_inv [OF s(1) ok] .
  have limits: "cs_MaxStreams (ds_cs s) = 0" "cs_MinMaxStreams (ds_cs s) = 0" "cs_NumConnections (ds_cs s) = cs_NumConnections cs0"
    using inv Connections_init_Inr(7,8) [OF init] assms(3,4) by (auto simp: dials_inv_def)
  have trail: "set (ds_trail s) \<subseteq> set (cs_serverAddrs cs0)"
  proof -
    have "slot (length (cs_serverAddrs cs0)) k < length (cs_serverAddrs cs0)" for k
      using ok by (simp add: slot_def dialable_def unat_mod unat_of_nat take_bit_nat_eq_self)
    with inv show ?thesis by (force simp: dials_inv_def in_set_conv_nth)
  qed
  have "length (cs_conns (ds_cs s)) \<le> nat (cs_NumConnections cs0)"
    using inv length_filter_le [of "\<lambda>w. d_ret w = Some None" "ds_calls s"] by (simp add: dials_inv_def)
  moreover have "Connections_Run bench client ncpu cs = Inr (Connections_clean ?cs, snd (bench cs0))"
    using init s(2) by (simp add: Connections_Run_def case_prod_beta)
  moreover have "set (map c_Addr (cs_conns (ds_cs s))) \<subseteq> set (cs_serverAddrs cs0)"
    using inv trail unfolding dials_inv_def by blast
  moreover have "cs_conns ?cs \<noteq> [] \<Longrightarrow> \<forall>c \<in> set (cs_conns ?cs). 0 < MaxStreams (client (c_cc c)) \<Longrightarrow>
      cs_MinMaxStreams ?cs = Min ((\<lambda>c. MaxStreams (client (c_cc c))) ` set (cs_conns ?cs))
      \<and> cs_MaxStreams ?cs = Max ((\<lambda>c. MaxStreams (client (c_cc c))) ` set (cs_conns ?cs))"
    using Run_limits_exact [of "ds_cs s" client] limits by simp
  ultimately show ?thesis
    using limits Connections_init_Inr(1,6) [OF init]
    by (intro that [of "Connections_clean ?cs" "snd (bench cs0)" "cs_serverAddrs cs0"]) (simp_all add: Connections_clean_def)
qed

text \<open>
  Several workers that find one connection broken: the first to redial replaces it, and the others leave
  the new one alone.
\<close>

lemma Redial_once:
  assumes "Redial c broken d = (None, c', shut)" and "c_cc c = broken" and "dialed d \<noteq> broken"
  shows "c_Addr c' = c_Addr c" and "c_cc c' = dialed d" and "shut" and "Redial c' broken d' = (None, c', False)"
  using assms by (auto simp: Redial_def dial_def Let_def split: option.splits if_splits sum.splits)

lemma Connections_Stop_closes:
  assumes "c \<in> set (cs_conns cs)"
  shows "cc_closed (Connections_Stop cs client (c_cc c))"
proof -
  let ?f = "\<lambda>client c. client(c_cc c := conn_Close (client (c_cc c)))"
  have keep: "cc_closed (foldl ?f client conns r)" if "cc_closed (client r)" for r and conns :: "Conn list" and client
    using that by (induction conns arbitrary: client) (auto simp: conn_Close_def)
  have "c \<in> set conns \<Longrightarrow> cc_closed (foldl ?f client conns (c_cc c))" for conns :: "Conn list"
  proof (induction conns arbitrary: client)
    case (Cons a conns)
    have "cc_closed (foldl ?f (?f client a) conns (c_cc a))" by (rule keep) (simp add: conn_Close_def)
    with Cons show ?case by (auto simp del: fun_upd_apply)
  qed simp
  with assms show ?thesis by (simp add: Connections_Stop_def)
qed

end
