(* ===== verification/EchoBench.thy ===== *)
theory EchoBench
  imports Dialing
begin

text \<open>
  \<^verbatim>\<open>benchcli-go/benchecho/benchecho.go\<close>: requests in flight, each answered before its worker sends
  the next.

  A connection is named by its index among the run's connections. The channel the workers take
  connections from is a list, and the workers of \<^verbatim>\<open>perf.Calculator\<close> take from it and give back to it in every
  order (\<open>echo_steps\<close>). What happens to one request between the two is \<open>doOnce_result\<close>. \<^verbatim>\<open>Run\<close> is a
  function of the calculator's \<^verbatim>\<open>Warmup\<close> and \<^verbatim>\<open>Benchmark\<close>, of which it relies on \<open>echo_bench\<close>. The
  numbers of a \<^verbatim>\<open>perf.PSCounter\<close> are the record \<open>PSCounter\<close>.
\<close>

record PSCounter =
  pc_CPUMin :: float64
  pc_CPUAvg :: float64
  pc_CPUMax :: float64
  pc_MEMRSSMin :: nat
  pc_MEMRSSAvg :: nat
  pc_MEMRSSMax :: nat

record 'm BenchEcho =
  eb_Framework :: string
  eb_Ip :: string
  eb_WarmupTimes :: int
  eb_Total :: int
  eb_Concurrency :: int
  eb_Streams :: int
  eb_Payload :: int
  eb_Limit :: int
  eb_EnalbeTPN :: bool
  eb_Percents :: "int list"
  eb_PsInterval :: int
  eb_ServerPid :: int
  eb_PsSource :: "'m PSSource option"
  eb_Conns :: "nat list"
  eb_pbuffers :: "bytes list"
  eb_requests :: "Request list"
  eb_chConns :: "nat list"
  eb_limited :: bool \<comment> \<open>\<^verbatim>\<open>limitFn\<close> waits for a limiter\<close>
  eb_checkValid :: bool
  eb_pprofDataCPU :: "bytes option"
  eb_pprofDataMEM :: "bytes option"

definition BenchEcho_New :: "string \<Rightarrow> int \<Rightarrow> int \<Rightarrow> string \<Rightarrow> nat list \<Rightarrow> bool \<Rightarrow> 'm BenchEcho" where
  "BenchEcho_New framework serverPid benchmarkTimes ip conns checkValid =
     \<lparr>eb_Framework = framework, eb_Ip = ip, eb_WarmupTimes = 0, eb_Total = benchmarkTimes, eb_Concurrency = 0,
      eb_Streams = 0, eb_Payload = 0, eb_Limit = 0, eb_EnalbeTPN = False, eb_Percents = [], eb_PsInterval = 0,
      eb_ServerPid = serverPid, eb_PsSource = None, eb_Conns = conns, eb_pbuffers = [], eb_requests = [],
      eb_chConns = [], eb_limited = False, eb_checkValid = checkValid, eb_pprofDataCPU = None, eb_pprofDataMEM = None\<rparr>"

definition eb_SetPprofData :: "bytes option \<Rightarrow> bytes option \<Rightarrow> 'm BenchEcho \<Rightarrow> 'm BenchEcho" where
  "eb_SetPprofData cpu mem be = be\<lparr>eb_pprofDataCPU := cpu, eb_pprofDataMEM := mem\<rparr>"

text \<open>
  \<^verbatim>\<open>init\<close>, with \<open>rnd i\<close> the bytes \<^verbatim>\<open>rand.Read\<close> fills the payload number \<open>i\<close> with; \<open>None\<close> where it ends the
  program for want of connections.
\<close>

definition echo_channel :: "nat list \<Rightarrow> int \<Rightarrow> nat list" where
  "echo_channel conns streams = concat (replicate (nat streams) conns)"

definition echo_load :: "int \<Rightarrow> 'm BenchEcho \<Rightarrow> 'm BenchEcho" where
  "echo_load ncpu be =
     (let n = int (length (eb_Conns be));
          be = (if eb_WarmupTimes be \<le> 0 then be\<lparr>eb_WarmupTimes := min (n * 5) 2000000\<rparr> else be);
          be = (if eb_Concurrency be \<le> 0 then be\<lparr>eb_Concurrency := ncpu * 1000\<rparr> else be);
          be = (if eb_Streams be \<le> 0 then be\<lparr>eb_Streams := 1\<rparr> else be)
      in if eb_Concurrency be > n * eb_Streams be then be\<lparr>eb_Concurrency := n * eb_Streams be\<rparr> else be)"

definition echo_settings :: "'m BenchEcho \<Rightarrow> 'm BenchEcho" where
  "echo_settings be =
     (let be = (if eb_Payload be \<le> 0 then be\<lparr>eb_Payload := 1024\<rparr> else be);
          be = (if eb_PsInterval be \<le> 0 then be\<lparr>eb_PsInterval := second\<rparr> else be);
          be = (if eb_EnalbeTPN be then be\<lparr>eb_Percents := [50, 75, 90, 95, 99]\<rparr> else be)
      in if eb_Limit be > 0 then be\<lparr>eb_limited := True\<rparr> else be)"

definition BenchEcho_init :: "int \<Rightarrow> (nat \<Rightarrow> nat \<Rightarrow> bytes) \<Rightarrow> 'm BenchEcho \<Rightarrow> 'm BenchEcho option" where
  "BenchEcho_init ncpu rnd be =
     (let be = echo_load ncpu be
      in if eb_Concurrency be \<le> 0 then None
         else let be = echo_settings be;
                  payloads = map (\<lambda>i. rnd i (nat (eb_Payload be))) [0..<1024]
              in Some (be\<lparr>eb_pbuffers := payloads,
                   eb_requests := map (\<lambda>b. NewRequest ''POST'' (Host (eb_Ip be)) EchoPath (Some b)) payloads,
                   eb_chConns := echo_channel (eb_Conns be) (eb_Streams be)\<rparr>))"

definition BenchEcho_clean :: "'m BenchEcho \<Rightarrow> 'm BenchEcho" where
  "BenchEcho_clean be = be\<lparr>eb_chConns := [], eb_requests := [], eb_limited := False\<rparr>"

definition getBuffers :: "'m BenchEcho \<Rightarrow> nat \<Rightarrow> bytes \<times> Request" where
  "getBuffers be idx = (eb_pbuffers be ! idx, eb_requests be ! idx)"

section \<open>One request\<close>

datatype echo_error =
    RedialError conn_error
  | RequestError err
  | StatusError int
  | BodyDiffers
  | BodyLength int nat

text \<open>
  \<^verbatim>\<open>doOnce\<close> between taking its connection and giving it back. Another worker may redial the connection at the same
  time, so that it is \<open>c'\<close> when \<^verbatim>\<open>Redial\<close> takes the lock and \<open>later\<close> of what that leaves when its client is read again;
  \<open>Err\<close> and \<open>Do\<close> are those of a client connection, and \<open>idx\<close> is what \<^verbatim>\<open>Intn\<close> drew.
\<close>

definition doOnce_result ::
  "'m BenchEcho \<Rightarrow> Conn \<Rightarrow> Conn \<Rightarrow> (Conn \<Rightarrow> Conn) \<Rightarrow> (ccref \<Rightarrow> err option) \<Rightarrow> dialing \<Rightarrow> nat
     \<Rightarrow> (ccref \<Rightarrow> Request \<Rightarrow> bool \<Rightarrow> Result) \<Rightarrow> echo_error option" where
  "doOnce_result be conn c' later Err d idx Do =
     (let cc = c_cc conn;
          redial = (if Err cc \<noteq> None then Redial c' cc d else (None, conn, False))
      in case fst redial of
           Some e \<Rightarrow> Some (RedialError e)
         | None \<Rightarrow>
             let cc = (if Err cc \<noteq> None then c_cc (later (fst (snd redial))) else cc);
                 (pbuffer, request) = getBuffers be idx;
                 res = Do cc request (eb_checkValid be)
             in case res_Err res of
                  Some e \<Rightarrow> Some (RequestError e)
                | None \<Rightarrow>
                    if res_Status res \<noteq> 200 then Some (StatusError (res_Status res))
                    else if eb_checkValid be \<and> pbuffer \<noteq> res_Body res then Some BodyDiffers
                    else if res_N res \<noteq> int (length pbuffer) then Some (BodyLength (res_N res) (length pbuffer))
                    else None)"

section \<open>The workers\<close>

text \<open>
  The channel, what each worker holds, the connections taken from the channel so far in order, the calls the calculator has
  still to make, and what the calls returned.
\<close>

record echo_state =
  es_chan :: "nat list"
  es_held :: "nat option list"
  es_taken :: "nat list"
  es_todo :: nat
  es_results :: "echo_error option list"

text \<open>
  The ends of a call: a worker takes a connection from the channel, and gives it back when, and if, \<^verbatim>\<open>Do\<close> has returned. Whether it
  returns is the connection's matter.
\<close>

inductive echo_move :: "echo_state \<Rightarrow> echo_state \<Rightarrow> bool" where
  echo_take: "w < length (es_held s) \<Longrightarrow> es_held s ! w = None \<Longrightarrow> es_todo s = Suc n \<Longrightarrow> es_chan s = c # cs \<Longrightarrow>
     echo_move s (s\<lparr>es_chan := cs, es_held := (es_held s)[w := Some c], es_taken := es_taken s @ [c], es_todo := n\<rparr>)"
| echo_give: "w < length (es_held s) \<Longrightarrow> es_held s ! w = Some c \<Longrightarrow>
     echo_move s (s\<lparr>es_chan := es_chan s @ [c], es_held := (es_held s)[w := None], es_results := es_results s @ [r]\<rparr>)"

text \<open>\<open>calls\<close> calls from \<open>workers\<close> goroutines, on a channel as it is.\<close>

definition echo_start :: "nat list \<Rightarrow> nat \<Rightarrow> nat \<Rightarrow> echo_state" where
  "echo_start chan workers calls =
     \<lparr>es_chan = chan, es_held = replicate workers None, es_taken = [], es_todo = calls, es_results = []\<rparr>"

abbreviation echo_steps :: "nat list \<Rightarrow> nat \<Rightarrow> nat \<Rightarrow> echo_state \<Rightarrow> bool" where
  "echo_steps chan workers calls \<equiv> reach (\<lambda>s. s = echo_start chan workers calls) echo_move"

text \<open>Every call made and returned.\<close>

definition echo_done :: "echo_state \<Rightarrow> bool" where
  "echo_done s \<longleftrightarrow> es_todo s = 0 \<and> list_all (\<lambda>h. h = None) (es_held s)"

section \<open>A run\<close>

text \<open>
  \<^verbatim>\<open>Run\<close>, with the calculator's \<^verbatim>\<open>Warmup\<close> and \<^verbatim>\<open>Benchmark\<close>: what they leave in the channel, and the numbers. \<open>None\<close>
  is the end of the program. The callbacks it makes start the client's timers and return; see \<open>ClientMain\<close>.
\<close>

definition BenchEcho_Run ::
  "int \<Rightarrow> (nat \<Rightarrow> nat \<Rightarrow> bytes) \<Rightarrow> ('m BenchEcho \<Rightarrow> int \<Rightarrow> nat list) \<Rightarrow> ('m BenchEcho \<Rightarrow> int \<Rightarrow> nat list \<times> calculator)
     \<Rightarrow> 'm BenchEcho \<Rightarrow> ('m BenchEcho \<times> calculator) option" where
  "BenchEcho_Run ncpu rnd warmup benchmark be =
     (case BenchEcho_init ncpu rnd be of
        None \<Rightarrow> None
      | Some be \<Rightarrow>
          let be = be\<lparr>eb_chConns := warmup be (eb_WarmupTimes be)\<rparr>;
              (chan, calc) = benchmark be (eb_Total be)
          in Some (BenchEcho_clean (be\<lparr>eb_chConns := chan\<rparr>), calc))"

text \<open>
  What is relied on of the calculator: it makes the calls it is asked for, from as many goroutines as it is told, in
  whatever order, returns when they have, and counts those that returned an error and those that did not.
\<close>

definition echo_warm :: "('m BenchEcho \<Rightarrow> int \<Rightarrow> nat list) \<Rightarrow> 'm BenchEcho \<Rightarrow> bool" where
  "echo_warm warmup be \<longleftrightarrow>
     (\<exists>s. echo_steps (eb_chConns be) (nat (eb_Concurrency be)) (nat (eb_WarmupTimes be)) s \<and> echo_done s
        \<and> warmup be (eb_WarmupTimes be) = es_chan s)"

definition echo_bench :: "('m BenchEcho \<Rightarrow> int \<Rightarrow> nat list \<times> calculator) \<Rightarrow> 'm BenchEcho \<Rightarrow> bool" where
  "echo_bench benchmark be \<longleftrightarrow>
     (\<exists>s. echo_steps (eb_chConns be) (nat (eb_Concurrency be)) (nat (eb_Total be)) s \<and> echo_done s
        \<and> fst (benchmark be (eb_Total be)) = es_chan s
        \<and> calc_Success (snd (benchmark be (eb_Total be))) = int (length (filter (\<lambda>r. r = None) (es_results s)))
        \<and> calc_Failed (snd (benchmark be (eb_Total be))) = int (length (filter (\<lambda>r. r \<noteq> None) (es_results s))))"

section \<open>The report\<close>

text \<open>\<^verbatim>\<open>psInfo\<close>, with the outcomes of its control requests and the parameters of \<^const>\<open>PsInfo\<close>.\<close>

definition eb_psInfo ::
  "(bytes \<Rightarrow> 'c option) \<Rightarrow> ('c \<Rightarrow> float64) \<Rightarrow> (float64 list \<Rightarrow> 'm list \<Rightarrow> 'c) \<Rightarrow> (string \<Rightarrow> int \<Rightarrow> http_outcome) \<Rightarrow> 'm BenchEcho
     \<Rightarrow> 'c option \<times> ps_error option" where
  "eb_psInfo unmarshal cpuAvg counter net be =
     (case eb_PsSource be of
        Some s \<Rightarrow> PsInfo unmarshal cpuAvg counter net s
      | None \<Rightarrow> (let (c, e) = GetFrameworkPsInfo unmarshal cpuAvg net (eb_Framework be) (eb_Ip be)
                in (c, map_option Control e)))"

definition BenchEcho_Report :: "calculator \<Rightarrow> PSCounter option \<Rightarrow> 'm BenchEcho \<Rightarrow> BenchEchoReport" where
  "BenchEcho_Report calc psCounter be =
     (let r = (create_BenchEcho (eb_Framework be))\<lparr>be_BenchClient := ''benchcli-go'',
                be_Connections := int (length (eb_Conns be)), be_Concurrency := eb_Concurrency be,
                be_Streams := eb_Streams be, be_Payload := eb_Payload be, be_Total := eb_Total be,
                be_Success := calc_Success calc, be_Failed := calc_Failed calc, be_Used := calc_Used calc,
                be_TPS := calc_TPS calc, be_Min := calc_Min calc, be_Avg := calc_Avg calc, be_Max := calc_Max calc\<rparr>;
          r = (if eb_EnalbeTPN be
               then r\<lparr>be_TP50 := calc_TPN calc 50, be_TP75 := calc_TPN calc 75, be_TP90 := calc_TPN calc 90,
                      be_TP95 := calc_TPN calc 95, be_TP99 := calc_TPN calc 99\<rparr>
               else r);
          r = be_SetPprofData (eb_pprofDataCPU be) (eb_pprofDataMEM be) r
      in case psCounter of
           None \<Rightarrow> r
         | Some p \<Rightarrow>
             let r = r\<lparr>be_CPUMin := pc_CPUMin p, be_CPUAvg := pc_CPUAvg p, be_CPUMax := pc_CPUMax p,
                       be_MEMRSSMin := pc_MEMRSSMin p, be_MEMRSSAvg := pc_MEMRSSAvg p, be_MEMRSSMax := pc_MEMRSSMax p\<rparr>
             in r\<lparr>be_EER := EER (f_of_int (be_TPS r)) (be_CPUAvg r),
                  be_MEMEER := MEMEER (f_of_int (be_TPS r)) (be_MEMRSSAvg r)\<rparr>)"

section \<open>Streams in flight\<close>

text \<open>What the workers hold, and the law of the channel: what was taken and what is left is what went in.\<close>

definition held :: "echo_state \<Rightarrow> nat list" where
  "held s = concat (map (\<lambda>h. case h of None \<Rightarrow> [] | Some c \<Rightarrow> [c]) (es_held s))"

definition echo_inv :: "nat list \<Rightarrow> nat \<Rightarrow> nat \<Rightarrow> echo_state \<Rightarrow> bool" where
  "echo_inv chan workers calls s \<longleftrightarrow>
     mset (es_chan s) + mset (held s) = mset chan
   \<and> prefix chan (es_taken s @ es_chan s)
   \<and> length (es_held s) = workers
   \<and> length (es_taken s) + es_todo s = calls
   \<and> length (es_results s) + length (held s) = length (es_taken s)"

lemma mset_concat_update:
  "i < length xs \<Longrightarrow> mset (concat (map f (xs[i := x]))) + mset (f (xs ! i)) = mset (concat (map f xs)) + mset (f x)"
proof (induction xs arbitrary: i)
  case (Cons a xs)
  then show ?case by (cases i) (auto simp: ac_simps)
qed simp

lemma held_take: "w < length (es_held s) \<Longrightarrow> es_held s ! w = None \<Longrightarrow>
   mset (held (s\<lparr>es_chan := cs, es_held := (es_held s)[w := Some c], es_taken := ts, es_todo := n\<rparr>)) = mset (held s) + {#c#}"
  using mset_concat_update [of w "es_held s" "\<lambda>h. case h of None \<Rightarrow> [] | Some c \<Rightarrow> [c]" "Some c"] by (simp add: held_def)

lemma held_give: "w < length (es_held s) \<Longrightarrow> es_held s ! w = Some c \<Longrightarrow>
   mset (held s) = mset (held (s\<lparr>es_chan := cs, es_held := (es_held s)[w := None], es_results := rs\<rparr>)) + {#c#}"
  using mset_concat_update [of w "es_held s" "\<lambda>h. case h of None \<Rightarrow> [] | Some c \<Rightarrow> [c]" None] by (simp add: held_def)

lemma held_Nil: "held s = [] \<longleftrightarrow> list_all (\<lambda>h. h = None) (es_held s)"
  by (auto simp: held_def list_all_iff split: option.splits)

lemma size_mset_eq: "mset xs = mset ys + {#c#} \<Longrightarrow> length xs = length ys + 1"
  by (metis size_mset size_add_mset add_mset_add_single Suc_eq_plus1)

lemma echo_inv_start: "echo_inv chan workers calls (echo_start chan workers calls)"
  by (simp add: echo_inv_def echo_start_def held_def)

lemma echo_inv_move: "echo_inv chan workers calls s \<Longrightarrow> echo_move s t \<Longrightarrow> echo_inv chan workers calls t"
proof (erule echo_move.cases, goal_cases)
  case (1 w s' n c cs)
  with held_take [where w = w and s = s and cs = cs and c = c and ts = "es_taken s @ [c]" and n = n] size_mset_eq [OF held_take [where w = w and s = s and cs = cs and c = c and ts = "es_taken s @ [c]" and n = n]]
  show ?case by (auto simp: echo_inv_def)
next
  case (2 w s' c r)
  with held_give [where w = w and s = s and c = c and cs = "es_chan s @ [c]" and rs = "es_results s @ [r]"]
    size_mset_eq [OF held_give [where w = w and s = s and c = c and cs = "es_chan s @ [c]" and rs = "es_results s @ [r]"]]
  show ?case by (auto simp: echo_inv_def simp flip: append_assoc)
qed

text \<open>The moves left, and that the workers never wait on an empty channel for ever.\<close>

definition echo_left :: "echo_state \<Rightarrow> nat" where
  "echo_left s = 2 * es_todo s + length (held s)"

lemma echo_left_move: "echo_move s t \<Longrightarrow> echo_left t < echo_left s"
proof (erule echo_move.cases, goal_cases)
  case (1 w s' n c cs)
  with size_mset_eq [OF held_take [where w = w and s = s and cs = cs and c = c and ts = "es_taken s @ [c]" and n = n]] show ?case by (simp add: echo_left_def)
next
  case (2 w s' c r)
  with size_mset_eq [OF held_give [where w = w and s = s and c = c and cs = "es_chan s @ [c]" and rs = "es_results s @ [r]"]] show ?case by (simp add: echo_left_def)
qed

lemma echo_not_stuck:
  assumes "echo_inv chan workers calls s" and "0 < workers" and "chan \<noteq> []" and "\<not> echo_done s"
  shows "\<exists>t. echo_move s t"
proof (cases "held s = []")
  case True
  then have none: "\<forall>h \<in> set (es_held s). h = None" by (simp add: held_Nil list_all_iff)
  with assms(4) obtain n where n: "es_todo s = Suc n" by (cases "es_todo s") (auto simp: echo_done_def list_all_iff)
  have "es_chan s \<noteq> []" using assms(1,3) True by (auto simp: echo_inv_def)
  then obtain c cs where "es_chan s = c # cs" by (cases "es_chan s") auto
  moreover have "0 < length (es_held s)" using assms(1,2) by (simp add: echo_inv_def)
  ultimately show ?thesis using echo_take [of 0 s n c cs] n none by auto
next
  case False
  then obtain w c where "w < length (es_held s)" "es_held s ! w = Some c"
    by (auto simp: held_Nil list_all_length)
  from echo_give [OF this] show ?thesis by blast
qed

interpretation echoing: winding_down
  "\<lambda>s. 0 < workers \<and> chan \<noteq> [] \<and> s = echo_start chan workers calls" echo_move
  "\<lambda>s. 0 < workers \<and> chan \<noteq> [] \<and> echo_inv chan workers calls s" echo_left echo_done
  for chan workers calls
  by unfold_locales (auto intro: echo_inv_start echo_inv_move echo_left_move echo_not_stuck)

interpretation channel: invariant "\<lambda>s. s = echo_start chan workers calls" echo_move "echo_inv chan workers calls"
  for chan workers calls
  by unfold_locales (auto intro: echo_inv_start echo_inv_move)

lemma count_concat_replicate: "count (mset (concat (replicate n xs))) x = n * count (mset xs) x"
  by (induction n) auto

lemma length_channel: "length (echo_channel conns streams) = nat streams * length conns"
  by (simp add: echo_channel_def length_concat sum_list_replicate)

lemma nth_concat_replicate: "j < n * length xs \<Longrightarrow> concat (replicate n xs) ! j = xs ! (j mod length xs)"
proof (induction n arbitrary: j)
  case (Suc n)
  then show ?case by (cases "j < length xs") (auto simp: nth_append le_mod_geq)
qed simp

text \<open>
  C25. Under every interleaving of the workers, no connection carries more than \<^verbatim>\<open>Streams\<close> requests at once,
  giving a connection back never blocks, and on the channel as \<^verbatim>\<open>init\<close> fills it the connections are taken in turn: none is
  taken a second time before every other has been taken once.
\<close>

theorem echo_streams_bounded:
  assumes "echo_steps chan workers calls s" and "mset chan = mset (echo_channel conns streams)" and "distinct conns"
  shows "count (mset (held s)) c \<le> nat streams
    \<and> (held s \<noteq> [] \<longrightarrow> length (es_chan s) < nat streams * length conns)
    \<and> (chan = echo_channel conns streams \<longrightarrow>
        (\<forall>j < length (es_taken s). j < nat streams * length conns \<longrightarrow> es_taken s ! j = conns ! (j mod length conns)))"
proof (intro conjI impI allI)
  have inv: "echo_inv chan workers calls s" using channel.inv_reach assms(1) .
  then have m: "mset (es_chan s) + mset (held s) = mset (echo_channel conns streams)" using assms(2) by (simp add: echo_inv_def)
  have "count (mset (held s)) c \<le> count (mset (echo_channel conns streams)) c" unfolding m [symmetric] by simp
  also have "\<dots> \<le> nat streams"
    using assms(3) by (simp add: echo_channel_def count_concat_replicate distinct_count_atmost_1)
  finally show "count (mset (held s)) c \<le> nat streams" .
  have "length (es_chan s) + length (held s) = nat streams * length conns"
    using arg_cong [OF m, of size] by (simp add: length_channel)
  then show "length (es_chan s) < nat streams * length conns" if "held s \<noteq> []"
    using that by (cases "held s") auto
  fix j
  assume chan: "chan = echo_channel conns streams" and j: "j < length (es_taken s)" "j < nat streams * length conns"
  obtain given where g: "es_taken s @ es_chan s = echo_channel conns streams @ given"
    using inv chan by (auto simp: echo_inv_def prefix_def)
  have "es_taken s ! j = (es_taken s @ es_chan s) ! j" using j by (simp add: nth_append)
  also have "\<dots> = echo_channel conns streams ! j" unfolding g using j by (simp add: nth_append length_channel)
  finally show "es_taken s ! j = conns ! (j mod length conns)"
    using j by (simp add: echo_channel_def nth_concat_replicate)
qed

lemma sample_echo:
  "echo_steps [0, 1, 0, 1] 1 3 \<lparr>es_chan = [1, 0, 1], es_held = [Some 0], es_taken = [0], es_todo = 2, es_results = []\<rparr>"
proof -
  have "echo_steps [0, 1, 0, 1] 1 3 (echo_start [0, 1, 0, 1] 1 3)" by (rule reach_start) simp
  moreover have "echo_move (echo_start [0, 1, 0, 1] 1 3)
      \<lparr>es_chan = [1, 0, 1], es_held = [Some 0], es_taken = [0], es_todo = 2, es_results = []\<rparr>"
    using echo_take [of 0 "echo_start [0, 1, 0, 1] 1 3" 2 0 "[1, 0, 1]"] by (simp add: echo_start_def)
  ultimately show ?thesis by (rule reach_move)
qed

theorem echo_streams_bounded_witness:
  "count (mset (held \<lparr>es_chan = [1, 0, 1], es_held = [Some 0], es_taken = [0], es_todo = 2, es_results = []\<rparr>)) 0 \<le> nat 2"
  using echo_streams_bounded [OF sample_echo, of "[0, 1]" 2] by (simp add: echo_channel_def numeral_eq_Suc)

text \<open>
  A request counts as answered only when its connection was usable or could be redialed, the server answered
  200 and the body that came back is as long as the one sent and, where bodies are checked, the same bytes.
\<close>

lemma doOnce_success:
  assumes "doOnce_result be conn c' later Err d idx Do = None"
  obtains cc where "cc = c_cc conn \<and> Err cc = None
      \<or> (\<exists>c''. Redial c' (c_cc conn) d = (None, c'') \<and> cc = c_cc (later (fst c'')))"
    and "res_Err (Do cc (eb_requests be ! idx) (eb_checkValid be)) = None"
    and "res_Status (Do cc (eb_requests be ! idx) (eb_checkValid be)) = 200"
    and "res_N (Do cc (eb_requests be ! idx) (eb_checkValid be)) = int (length (eb_pbuffers be ! idx))"
    and "eb_checkValid be \<Longrightarrow> res_Body (Do cc (eb_requests be ! idx) True) = eb_pbuffers be ! idx"
proof (cases "Err (c_cc conn)")
  case None
  with assms show ?thesis
    by (intro that [of "c_cc conn"]) (auto simp: doOnce_result_def getBuffers_def Let_def split: option.splits if_splits)
next
  case (Some e)
  obtain err c'' where r: "Redial c' (c_cc conn) d = (err, c'')" by (metis prod.collapse)
  with assms Some show ?thesis
    by (intro that [of "c_cc (later (fst c''))"])
      (auto simp: doOnce_result_def getBuffers_def Let_def split: option.splits if_splits)
qed

section \<open>Settings\<close>

lemma echo_load_ok:
  "1 \<le> eb_Streams (echo_load ncpu be)" "eb_Conns (echo_load ncpu be) = eb_Conns be"
  "eb_Concurrency (echo_load ncpu be) \<le> int (length (eb_Conns be)) * eb_Streams (echo_load ncpu be)"
  "0 < ncpu \<Longrightarrow> eb_Concurrency (echo_load ncpu be) \<le> 0 \<longleftrightarrow> eb_Conns be = []"
  by (auto simp: echo_load_def Let_def mult_le_0_iff)

lemma echo_settings_ok:
  "eb_Streams (echo_settings be) = eb_Streams be" "eb_Conns (echo_settings be) = eb_Conns be"
  "eb_Concurrency (echo_settings be) = eb_Concurrency be" "1 \<le> eb_Payload (echo_settings be)"
  by (auto simp: echo_settings_def Let_def)

lemma BenchEcho_init_Framework: "BenchEcho_init ncpu rnd be = Some be' \<Longrightarrow> eb_Framework be' = eb_Framework be"
proof -
  have "eb_Framework (echo_settings (echo_load ncpu be)) = eb_Framework be"
    by (simp add: echo_settings_def echo_load_def Let_def)
  then show "BenchEcho_init ncpu rnd be = Some be' \<Longrightarrow> eb_Framework be' = eb_Framework be"
    by (auto simp: BenchEcho_init_def Let_def split: if_splits)
qed

lemma BenchEcho_Run_Framework:
  "BenchEcho_Run ncpu rnd warmup benchmark be = Some (be', calc) \<Longrightarrow> eb_Framework be' = eb_Framework be"
  using BenchEcho_init_Framework [of ncpu rnd be]
  by (auto simp: BenchEcho_Run_def BenchEcho_clean_def Let_def split: option.splits prod.splits)

lemma BenchEcho_init_None:
  "0 < ncpu \<Longrightarrow> BenchEcho_init ncpu rnd be = None \<longleftrightarrow> eb_Conns be = []"
  using echo_load_ok(4) [of ncpu be] by (simp add: BenchEcho_init_def Let_def)

lemma BenchEcho_init_ok:
  assumes "BenchEcho_init ncpu rnd be = Some be'" and "\<And>i n. length (rnd i n) = n"
  shows "1 \<le> eb_Streams be'" and "1 \<le> eb_Concurrency be'"
    and "eb_Concurrency be' \<le> int (length (eb_Conns be')) * eb_Streams be'"
    and "1 \<le> eb_Payload be'" and "eb_Conns be' = eb_Conns be"
    and "length (eb_pbuffers be') = 1024" and "length (eb_requests be') = 1024"
    and "idx < 1024 \<Longrightarrow> int (length (eb_pbuffers be' ! idx)) = eb_Payload be'"
    and "idx < 1024 \<Longrightarrow> eb_requests be' ! idx = NewRequest ''POST'' (Host (eb_Ip be')) EchoPath (Some (eb_pbuffers be' ! idx))"
    and "eb_chConns be' = echo_channel (eb_Conns be') (eb_Streams be')"
    and "eb_Total be' = eb_Total be" and "0 < eb_WarmupTimes be \<Longrightarrow> eb_WarmupTimes be' = eb_WarmupTimes be"
    and "eb_Streams be' = max 1 (eb_Streams be)" and "0 < eb_Payload be \<Longrightarrow> eb_Payload be' = eb_Payload be"
proof -
  let ?b = "echo_settings (echo_load ncpu be)"
  let ?p = "map (\<lambda>i. rnd i (nat (eb_Payload ?b))) [0..<1024]"
  have c: "0 < eb_Concurrency (echo_load ncpu be)" and be': "be' = ?b\<lparr>eb_pbuffers := ?p,
      eb_requests := map (\<lambda>b. NewRequest ''POST'' (Host (eb_Ip ?b)) EchoPath (Some b)) ?p,
      eb_chConns := echo_channel (eb_Conns ?b) (eb_Streams ?b)\<rparr>"
    using assms(1) by (auto simp: BenchEcho_init_def Let_def split: if_splits)
  note ok = echo_load_ok [of ncpu be] echo_settings_ok [of "echo_load ncpu be"]
  show "1 \<le> eb_Streams be'" "1 \<le> eb_Concurrency be'" "1 \<le> eb_Payload be'" "eb_Conns be' = eb_Conns be"
    "eb_Concurrency be' \<le> int (length (eb_Conns be')) * eb_Streams be'"
    using ok c by (simp_all add: be')
  show "eb_Total be' = eb_Total be" "0 < eb_WarmupTimes be \<Longrightarrow> eb_WarmupTimes be' = eb_WarmupTimes be"
    "eb_Streams be' = max 1 (eb_Streams be)" "0 < eb_Payload be \<Longrightarrow> eb_Payload be' = eb_Payload be"
    by (auto simp: be' echo_settings_def echo_load_def Let_def)
  show "length (eb_pbuffers be') = 1024" "length (eb_requests be') = 1024"
    "eb_chConns be' = echo_channel (eb_Conns be') (eb_Streams be')" by (simp_all add: be')
  show "int (length (eb_pbuffers be' ! idx)) = eb_Payload be'" if "idx < 1024"
    using that assms(2) ok(8) by (simp add: be')
  show "eb_requests be' ! idx = NewRequest ''POST'' (Host (eb_Ip be')) EchoPath (Some (eb_pbuffers be' ! idx))"
    if "idx < 1024" using that by (simp add: be')
qed


section \<open>A whole run\<close>

lemma echo_steps_done:
  assumes "echo_steps chan workers calls s" and "echo_done s"
  shows "mset (es_chan s) = mset chan" and "length (es_results s) = calls"
proof -
  have "echo_inv chan workers calls s" using channel.inv_reach assms(1) .
  moreover have "held s = []" "es_todo s = 0" using assms(2) by (simp_all add: held_Nil echo_done_def)
  ultimately show "mset (es_chan s) = mset chan" "length (es_results s) = calls" by (simp_all add: echo_inv_def)
qed

lemma echo_init_channel:
  assumes "BenchEcho_init ncpu rnd be = Some be'" and "\<forall>i n. length (rnd i n) = n"
  shows "0 < nat (eb_Concurrency be')" and "eb_chConns be' \<noteq> []"
proof -
  note ok = BenchEcho_init_ok [of ncpu rnd be be', OF assms(1) assms(2) [rule_format]]
  show "0 < nat (eb_Concurrency be')" using ok(2) by simp
  have "0 < int (length (eb_Conns be')) * eb_Streams be'" using ok(2,3) by linarith
  then have "0 < nat (eb_Streams be') * length (eb_Conns be')" by (auto simp: zero_less_mult_iff)
  then show "eb_chConns be' \<noteq> []" using length_channel [of "eb_Conns be'" "eb_Streams be'"] ok(10) by auto
qed

text \<open>One worker alone can make all the calls that are left, whatever the others hold.\<close>

lemma one_worker_suffices:
  assumes "w < length (es_held s)" and "es_held s ! w = None" and "es_chan s \<noteq> []"
  shows "\<exists>ts. schedule echo_move s ts \<and> es_todo (last (s # ts)) = 0 \<and> es_held (last (s # ts)) = es_held s"
  using assms
proof (induction "es_todo s" arbitrary: s)
  case 0
  then show ?case by (intro exI [of _ "[]"]) simp
next
  case (Suc n)
  then obtain c cs where c: "es_chan s = c # cs" by (cases "es_chan s") auto
  let ?t = "s\<lparr>es_chan := cs, es_held := (es_held s)[w := Some c], es_taken := es_taken s @ [c], es_todo := n\<rparr>"
  let ?u = "?t\<lparr>es_chan := cs @ [c], es_held := es_held s, es_results := es_results s @ [None]\<rparr>"
  have "echo_move s ?t" using echo_take [of w s n c cs] Suc c by simp
  moreover have "(es_held s)[w := None] = es_held s" using Suc.prems by (metis list_update_id)
  then have "echo_move ?t ?u" using echo_give [of w ?t c None] Suc.prems by simp
  moreover obtain ts where "schedule echo_move ?u ts" "es_todo (last (?u # ts)) = 0" "es_held (last (?u # ts)) = es_held s"
    using Suc.hyps(1) [of ?u] Suc.prems by auto
  ultimately show ?case by (intro exI [of _ "?t # ?u # ts"]) simp
qed

lemma idle_and_held: "length (filter (\<lambda>h. h = None) (es_held s)) + length (held s) = length (es_held s)"
proof -
  have "length (filter (\<lambda>h. h = None) hs) + length (concat (map (\<lambda>h. case h of None \<Rightarrow> [] | Some c \<Rightarrow> [c]) hs)) = length hs" for hs :: "nat option list"
    by (induction hs) (auto split: option.split)
  then show ?thesis by (simp add: held_def)
qed

text \<open>
  C26. No worker ever waits for a connection, whichever requests are never answered: after \<^verbatim>\<open>init\<close>, on its channel or one that
  earlier calls left, there are at all times as many connections in the channel as there are workers between two calls, and
  every one of these workers could make all the calls still to be made by itself, with the other workers left where they are.
\<close>

theorem echo_never_waits:
  assumes "BenchEcho_init ncpu rnd be = Some be'" and "\<forall>i n. length (rnd i n) = n" and "mset chan = mset (eb_chConns be')"
    and "echo_steps chan (nat (eb_Concurrency be')) calls s"
  shows "length (filter (\<lambda>h. h = None) (es_held s)) \<le> length (es_chan s)
    \<and> (\<forall>w < length (es_held s). es_held s ! w = None \<longrightarrow>
        (\<exists>ts. schedule echo_move s ts \<and> es_todo (last (s # ts)) = 0 \<and> es_held (last (s # ts)) = es_held s))"
proof -
  note ok = BenchEcho_init_ok [of ncpu rnd be be', OF assms(1) assms(2) [rule_format]]
  have inv: "echo_inv chan (nat (eb_Concurrency be')) calls s" using channel.inv_reach assms(4) .
  have "length (es_chan s) + length (held s) = length (eb_chConns be')"
    using inv assms(3) by (metis echo_inv_def size_mset size_union)
  also have "\<dots> = nat (eb_Streams be') * length (eb_Conns be')" using length_channel ok(10) by simp
  also have "\<dots> \<ge> nat (eb_Concurrency be')" using ok(1-3) by (simp add: nat_le_iff algebra_simps)
  finally have room: "length (filter (\<lambda>h. h = None) (es_held s)) \<le> length (es_chan s)"
    using idle_and_held [of s] inv by (simp add: echo_inv_def)
  have "es_chan s \<noteq> []" if "w < length (es_held s)" "es_held s ! w = None" for w
    using room nth_mem [OF that(1)] that(2) by (auto simp: filter_empty_conv)
  with room one_worker_suffices show ?thesis by blast
qed

text \<open>
  Where every request in flight is answered, which the moves \<open>echo_give\<close> suppose of a schedule that can go no further, a run of so
  many calls ends: it takes two moves for each at most, and leaves every call returned and every connection back in the channel.
\<close>

theorem echo_run_ends:
  assumes "BenchEcho_init ncpu rnd be = Some be'" and "\<forall>i n. length (rnd i n) = n" and "mset chan = mset (eb_chConns be')"
    and "schedule echo_move (echo_start chan (nat (eb_Concurrency be')) calls) ts"
  shows "length ts \<le> 2 * calls
    \<and> ((\<nexists>t. echo_move (last (echo_start chan (nat (eb_Concurrency be')) calls # ts)) t) \<longrightarrow>
        (let s = last (echo_start chan (nat (eb_Concurrency be')) calls # ts)
         in length (es_results s) = calls \<and> held s = [] \<and> mset (es_chan s) = mset (eb_chConns be')))"
proof (intro conjI impI)
  let ?n = "nat (eb_Concurrency be')"
  have inv: "0 < ?n \<and> chan \<noteq> [] \<and> echo_inv chan ?n calls (echo_start chan ?n calls)"
    using echo_init_channel [OF assms(1,2)] echo_inv_start assms(3) by auto
  have "echo_left (echo_start chan ?n calls) = 2 * calls"
    by (simp add: echo_left_def echo_start_def held_def)
  with echoing.schedule_length [OF inv assms(4)] show "length ts \<le> 2 * calls" by simp
  assume "\<nexists>t. echo_move (last (echo_start chan ?n calls # ts)) t"
  from echoing.schedule_ends [OF inv assms(4) this] have "echo_done (last (echo_start chan ?n calls # ts))" .
  moreover have "echo_steps chan ?n calls (last (echo_start chan ?n calls # ts))"
    using reach_schedule [OF reach_start assms(4)] by simp
  ultimately show "let s = last (echo_start chan ?n calls # ts)
      in length (es_results s) = calls \<and> held s = [] \<and> mset (es_chan s) = mset (eb_chConns be')"
    using echo_steps_done assms(3) by (simp add: Let_def held_Nil echo_done_def)
qed

text \<open>
  A run of the echo benchmark that has a connection to run on ends with a report in which every call asked for is counted
  once, as a success or as a failure.
\<close>

theorem echo_run_counts:
  assumes "BenchEcho_init ncpu rnd be = Some be1" and "echo_warm warmup be1"
    and "echo_bench benchmark (be1\<lparr>eb_chConns := warmup be1 (eb_WarmupTimes be1)\<rparr>)"
    and "\<forall>i n. length (rnd i n) = n" and "0 \<le> eb_Total be"
  shows "\<exists>be' calc. BenchEcho_Run ncpu rnd warmup benchmark be = Some (be', calc)
    \<and> be_Total (BenchEcho_Report calc ps be') = eb_Total be
    \<and> be_Success (BenchEcho_Report calc ps be') + be_Failed (BenchEcho_Report calc ps be') = eb_Total be
    \<and> be_Connections (BenchEcho_Report calc ps be') = int (length (eb_Conns be))
    \<and> be_Streams (BenchEcho_Report calc ps be') = max 1 (eb_Streams be)"
proof -
  define be2 where "be2 = be1\<lparr>eb_chConns := warmup be1 (eb_WarmupTimes be1)\<rparr>"
  note ok = BenchEcho_init_ok [of ncpu rnd be be1, OF assms(1) assms(4) [rule_format]]
  have be2: "eb_Total be2 = eb_Total be" "eb_Conns be2 = eb_Conns be" "eb_Streams be2 = max 1 (eb_Streams be)"
    using ok(5,11,13) by (simp_all add: be2_def)
  obtain s chan calc where s: "echo_steps (eb_chConns be2) (nat (eb_Concurrency be2)) (nat (eb_Total be)) s" "echo_done s"
    and bench: "benchmark be2 (eb_Total be) = (chan, calc)"
    and calc: "calc_Success calc = int (length (filter (\<lambda>r. r = None) (es_results s)))"
      "calc_Failed calc = int (length (filter (\<lambda>r. r \<noteq> None) (es_results s)))"
    using assms(3) be2(1) unfolding echo_bench_def be2_def [symmetric] by (metis prod.collapse)
  have "int (length (es_results s)) = eb_Total be" using echo_steps_done(2) [OF s] assms(5) by simp
  then have "calc_Success calc + calc_Failed calc = eb_Total be"
    using sum_length_filter_compl [of "\<lambda>r. r = None" "es_results s"] by (simp add: calc)
  moreover have "BenchEcho_Run ncpu rnd warmup benchmark be = Some (BenchEcho_clean (be2\<lparr>eb_chConns := chan\<rparr>), calc)"
    using assms(1) bench be2(1) by (simp add: BenchEcho_Run_def be2_def Let_def)
  ultimately show ?thesis
    using be2 by (auto simp: BenchEcho_Report_def Let_def create_BenchEcho_def be_SetPprofData_def BenchEcho_clean_def
      split: option.split)
qed

section \<open>The report reaches its file\<close>

definition calc_ok :: "calculator \<Rightarrow> bool" where
  "calc_ok calc \<longleftrightarrow> list_all int64 [calc_TPS calc, calc_Min calc, calc_Avg calc, calc_Max calc, calc_Used calc,
     calc_Success calc, calc_Failed calc, calc_TPN calc 50, calc_TPN calc 75, calc_TPN calc 90, calc_TPN calc 95,
     calc_TPN calc 99]"

text \<open>Resource numbers that are numbers; the averages may well be 0.\<close>

definition counter_ok :: "PSCounter \<Rightarrow> bool" where
  "counter_ok p \<longleftrightarrow> list_all is_fin [pc_CPUMin p, pc_CPUAvg p, pc_CPUMax p]
     \<and> list_all uint64_range [int (pc_MEMRSSMin p), int (pc_MEMRSSAvg p), int (pc_MEMRSSMax p)]"

lemma is_fin_EER [simp]: "is_fin (EER t c)"
  using EER_finite [of t c] by (auto simp: is_fin_def)

lemma is_fin_MEMEER [simp]: "is_fin (MEMEER t m)"
  by (simp add: MEMEER_def)

lemma is_fin_Fin [simp]: "is_fin (Fin x)"
  by (simp add: is_fin_def)

lemma int64_0 [simp]: "int64 0" "uint64_range 0"
  by (simp_all add: int64_def uint64_range_def)

lemma BenchEcho_Report_fits:
  assumes "calc_ok calc" and "case psCounter of None \<Rightarrow> True | Some p \<Rightarrow> counter_ok p"
    and "list_all int64 [int (length (eb_Conns be)), eb_Concurrency be, eb_Streams be, eb_Payload be, eb_Total be]"
  shows "fits (EchoR (BenchEcho_Report calc psCounter be))"
  using assms
  by (cases psCounter; cases "eb_EnalbeTPN be")
    (simp_all add: BenchEcho_Report_def Let_def create_BenchEcho_def be_SetPprofData_def calc_ok_def counter_ok_def)

text \<open>
  A BenchEcho report is always written and read back as it was, profiles aside, whatever resource samples there were:
  none, or ones that leave nothing to divide the throughput by, as long as they are numbers and the file can be written.
\<close>

theorem echo_report_written:
  assumes "calc_ok calc" and "case psCounter of None \<Rightarrow> True | Some p \<Rightarrow> counter_ok p"
    and "list_all int64 [int (length (eb_Conns be)), eb_Concurrency be, eb_Streams be, eb_Payload be, eb_Total be]"
    and "\<forall>n. writable F n" and "eb_Framework be \<in> set FrameworkList"
  shows "\<exists>F'. ToFile (EchoR (BenchEcho_Report calc psCounter be)) pre suf F = (True, F')
    \<and> read_report pre suf (\<lambda>f. EchoR (create_BenchEcho f)) F' (eb_Framework be)
      = Some (EchoR (be_SetPprofData None None (BenchEcho_Report calc psCounter be)))"
proof -
  let ?r = "EchoR (BenchEcho_Report calc psCounter be)"
  have fw: "be_Framework (BenchEcho_Report calc psCounter be) = eb_Framework be"
    by (simp add: BenchEcho_Report_def Let_def create_BenchEcho_def be_SetPprofData_def split: option.split)
  obtain j where j: "Marshal ?r = Some j" "Unmarshal (Json j) (create_like ?r (report_Framework ?r)) = Some (unprofiled ?r)"
    using Unmarshal_Marshal [OF BenchEcho_Report_fits [OF assms(1-3)]] by blast
  obtain F' where "ToFile ?r pre suf F = (True, F')"
    "\<And>f. files F' (Filename (Name (create_like ?r f)) pre (suf @ ''.json''))
           = (if f = report_Framework ?r then Some (Json j)
              else files F (Filename (Name (create_like ?r f)) pre (suf @ ''.json'')))"
    using ToFile_files [OF assms(4) j(1)] by metis
  with j(2) show ?thesis by (auto simp: read_report_def fw simp del: Marshal.simps Unmarshal.simps)
qed

definition sample_calc :: calculator where
  "sample_calc = \<lparr>calc_TPS = 0, calc_Min = 0, calc_Avg = 0, calc_Max = 0, calc_Used = 0, calc_Success = 0,
     calc_Failed = 0, calc_TPN = (\<lambda>_. 0)\<rparr>"

definition sample_counter :: PSCounter where
  "sample_counter = \<lparr>pc_CPUMin = Fin 0, pc_CPUAvg = Fin 0, pc_CPUMax = Fin 0, pc_MEMRSSMin = 0, pc_MEMRSSAvg = 0,
     pc_MEMRSSMax = 0\<rparr>"

text \<open>One connection, one call to warm up and one that counts.\<close>

definition sample_eb :: "unit BenchEcho" where
  "sample_eb = (BenchEcho_New ''fib'' 1 1 ''127.0.0.1'' [0] True)\<lparr>eb_WarmupTimes := 1\<rparr>"

definition sample_trip :: "echo_state list" where
  "sample_trip =
     [\<lparr>es_chan = [], es_held = [Some 0], es_taken = [0], es_todo = 0, es_results = []\<rparr>,
      \<lparr>es_chan = [0], es_held = [None], es_taken = [0], es_todo = 0, es_results = [None]\<rparr>]"

lemma sample_trip: "schedule echo_move (echo_start [0] 1 1) sample_trip"
  "echo_steps [0] 1 1 (last sample_trip)" "echo_done (last sample_trip)"
proof -
  show sched: "schedule echo_move (echo_start [0] 1 1) sample_trip"
    using echo_take [of 0 "echo_start [0] 1 1" 0 0 "[]"] echo_give [of 0 "hd sample_trip" 0 None]
    by (simp add: sample_trip_def echo_start_def)
  show "echo_steps [0] 1 1 (last sample_trip)"
    using reach_schedule [OF reach_start [where s = "echo_start [0] 1 1"] sched, of "\<lambda>s. s = echo_start [0] 1 1"]
    by (simp add: sample_trip_def)
  show "echo_done (last sample_trip)" by (simp add: sample_trip_def echo_done_def)
qed

lemma sample_echo_init:
  obtains be1 where "BenchEcho_init 4 (\<lambda>i n. replicate n 0) sample_eb = Some be1" "eb_chConns be1 = [0]"
    "eb_Concurrency be1 = 1" "eb_Total be1 = 1" "eb_WarmupTimes be1 = 1"
proof -
  obtain be1 where be1: "BenchEcho_init 4 (\<lambda>i n. replicate n 0) sample_eb = Some be1"
    using BenchEcho_init_None [of 4 "\<lambda>i n. replicate n 0" sample_eb] by (auto simp: sample_eb_def BenchEcho_New_def)
  note ok = BenchEcho_init_ok [OF be1]
  have s: "eb_Conns sample_eb = [0]" "eb_Streams sample_eb = 0" "eb_Total sample_eb = 1" "eb_WarmupTimes sample_eb = 1"
    by (simp_all add: sample_eb_def BenchEcho_New_def)
  then have "eb_Concurrency be1 = 1" using ok(2,3,5,13) by simp
  with be1 ok(5,10-13) s that show ?thesis by (simp add: echo_channel_def)
qed

theorem echo_never_waits_witness:
  "length (filter (\<lambda>h. h = None) (es_held (last sample_trip))) \<le> length (es_chan (last sample_trip))"
proof -
  obtain be1 where "BenchEcho_init 4 (\<lambda>i n. replicate n 0) sample_eb = Some be1" "eb_chConns be1 = [0]" "eb_Concurrency be1 = 1"
    by (rule sample_echo_init)
  then show ?thesis
    using echo_never_waits [of 4 "\<lambda>i n. replicate n 0" sample_eb be1 "[0]" 1 "last sample_trip"] sample_trip(2) by simp
qed

theorem echo_run_counts_witness:
  "\<exists>be' calc. BenchEcho_Run 4 (\<lambda>i n. replicate n 0) (\<lambda>be n. [0]) (\<lambda>be n. ([0], sample_calc\<lparr>calc_Success := 1\<rparr>)) sample_eb
       = Some (be', calc) \<and> be_Success (BenchEcho_Report calc None be') + be_Failed (BenchEcho_Report calc None be') = 1"
proof -
  obtain be1 where be1: "BenchEcho_init 4 (\<lambda>i n. replicate n 0) sample_eb = Some be1" "eb_chConns be1 = [0]"
    "eb_Concurrency be1 = 1" "eb_Total be1 = 1" "eb_WarmupTimes be1 = 1" by (rule sample_echo_init)
  have warm: "echo_warm (\<lambda>be n. [0]) be1"
    unfolding echo_warm_def using be1 sample_trip(2,3) by (intro exI [of _ "last sample_trip"]) (simp add: sample_trip_def)
  have bench: "echo_bench (\<lambda>be n. ([0], sample_calc\<lparr>calc_Success := 1\<rparr>)) (be1\<lparr>eb_chConns := [0]\<rparr>)"
    unfolding echo_bench_def using be1 sample_trip(2,3)
    by (intro exI [of _ "last sample_trip"]) (simp add: sample_trip_def sample_calc_def)
  have "eb_Total sample_eb = 1" by (simp add: sample_eb_def BenchEcho_New_def)
  then show ?thesis using echo_run_counts [OF be1(1) warm bench, of None] by auto
qed

theorem echo_report_written_witness:
  "\<exists>F'. ToFile (EchoR (BenchEcho_Report sample_calc (Some sample_counter)
       (BenchEcho_New ''fib'' 1 10 ''127.0.0.1'' [0] True :: unit BenchEcho))) ''a-'' ''-b''
       \<lparr>writable = \<lambda>_. True, files = \<lambda>_. None\<rparr> = (True, F')"
proof -
  let ?be = "BenchEcho_New ''fib'' 1 10 ''127.0.0.1'' [0] True :: unit BenchEcho"
  have "list_all int64 [int (length (eb_Conns ?be)), eb_Concurrency ?be, eb_Streams ?be, eb_Payload ?be, eb_Total ?be]"
    by (simp add: BenchEcho_New_def int64_def)
  moreover have "calc_ok sample_calc" "counter_ok sample_counter"
    by (simp_all add: calc_ok_def counter_ok_def sample_calc_def sample_counter_def)
  moreover have "eb_Framework ?be \<in> set FrameworkList" by (simp add: BenchEcho_New_def FrameworkList_def)
  ultimately show ?thesis
    using echo_report_written [of sample_calc "Some sample_counter" ?be "\<lparr>writable = \<lambda>_. True, files = \<lambda>_. None\<rparr>" "''a-''" "''-b''"]
    by auto
qed

end
