(* ===== verification/RateBench.thy ===== *)
theory RateBench
  imports EchoBench
begin

text \<open>
  \<^verbatim>\<open>benchcli-go/benchrate/benchrate.go\<close>: batches multiplexed at a rate the client sets.

  The writers, one for each team of connections, and the connections' readers, which count every answer, run side by
  side in every order (\<open>rate_steps\<close>). A writer's turn on a connection is cut at the check of what is unanswered, the write, and
  each of the three counters after it; a reader's \<^verbatim>\<open>OnResult\<close> at each of its four, since all of them are additions
  to shared counters of their own. What \<^verbatim>\<open>WriteBatch\<close> returns, all of the batch, nothing, or an error, is the outcome of the
  write. \<^verbatim>\<open>Run\<close> is a function of what is seen of the goroutines once the writers are done, of which it relies on \<open>rate_ran\<close>;
  the readers go on, and the two counters of a report are loaded one after the other.
\<close>

record rconn =
  rc_conn :: nat
  rc_sendCnt :: int
  rc_recvCnt :: int

definition maxBatchesInFlight :: int where "maxBatchesInFlight = 4"

record 'm BenchRate =
  rb_Framework :: string
  rb_Ip :: string
  rb_Duration :: int
  rb_Concurrency :: int
  rb_SendRate :: int
  rb_BatchSize :: int
  rb_Batch :: int
  rb_Payload :: int
  rb_SendLimit :: int
  rb_PsInterval :: int
  rb_ServerPid :: int
  rb_PsSource :: "'m PSSource option"
  rb_Conns :: "nat list"
  rb_wbuffer :: bytes
  rb_request :: "Request option"
  rb_limited :: bool \<comment> \<open>\<^verbatim>\<open>limitFn\<close> waits for a limiter\<close>
  rb_checkValid :: bool
  rb_batch :: int
  rb_tickRate :: int
  rb_sendTimes :: int
  rb_sendBytes :: int
  rb_recvTimes :: int
  rb_recvBytes :: int
  rb_answered :: int
  rb_endRecvTimes :: int
  rb_endRecvBytes :: int
  rb_pprofDataCPU :: "bytes option"
  rb_pprofDataMEM :: "bytes option"

definition BenchRate_New :: "string \<Rightarrow> int \<Rightarrow> string \<Rightarrow> nat list \<Rightarrow> bool \<Rightarrow> 'm BenchRate" where
  "BenchRate_New framework serverPid ip conns checkValid =
     \<lparr>rb_Framework = framework, rb_Ip = ip, rb_Duration = 0, rb_Concurrency = 0, rb_SendRate = 0, rb_BatchSize = 0,
      rb_Batch = 0, rb_Payload = 0, rb_SendLimit = 0, rb_PsInterval = 0, rb_ServerPid = serverPid, rb_PsSource = None,
      rb_Conns = conns, rb_wbuffer = [], rb_request = None, rb_limited = False, rb_checkValid = checkValid,
      rb_batch = 0, rb_tickRate = 0, rb_sendTimes = 0, rb_sendBytes = 0, rb_recvTimes = 0, rb_recvBytes = 0,
      rb_answered = 0, rb_endRecvTimes = 0, rb_endRecvBytes = 0, rb_pprofDataCPU = None, rb_pprofDataMEM = None\<rparr>"

definition rb_SetPprofData :: "bytes option \<Rightarrow> bytes option \<Rightarrow> 'm BenchRate \<Rightarrow> 'm BenchRate" where
  "rb_SetPprofData cpu mem br = br\<lparr>rb_pprofDataCPU := cpu, rb_pprofDataMEM := mem\<rparr>"

section \<open>Settings\<close>

datatype rate_fatal =
    NoConnections
  | BadBatch batch_error
  | WrongTick int int
  | BatchPanic \<comment> \<open>\<^verbatim>\<open>BatchSize\<close> of a request of no bytes\<close>
  | TooFewStreams int int
  | WindowTooSmall int int
  | TickerPanic int \<comment> \<open>\<^verbatim>\<open>NewTicker\<close> of no time at all\<close>

definition rate_load :: "'m BenchRate \<Rightarrow> 'm BenchRate" where
  "rate_load br =
     (let br = (if rb_Duration br \<le> 0 then br\<lparr>rb_Duration := second * 10\<rparr> else br);
          br = (if rb_Concurrency br \<le> 0 then br\<lparr>rb_Concurrency := 50000\<rparr> else br)
      in if rb_Concurrency br > int (length (rb_Conns br)) then br\<lparr>rb_Concurrency := int (length (rb_Conns br))\<rparr> else br)"

text \<open>The request, with the bytes \<open>rnd\<close> fills the payload with.\<close>

definition rate_request :: "(nat \<Rightarrow> bytes) \<Rightarrow> 'm BenchRate \<Rightarrow> 'm BenchRate" where
  "rate_request rnd br =
     (let br = (if rb_SendRate br \<le> 0 then br\<lparr>rb_SendRate := 1\<rparr> else br);
          br = (if rb_Payload br \<le> 0 then br\<lparr>rb_Payload := 1024\<rparr> else br);
          br = br\<lparr>rb_wbuffer := rnd (nat (rb_Payload br))\<rparr>
      in br\<lparr>rb_request := Some (NewRequest ''POST'' (Host (rb_Ip br)) EchoPath (Some (rb_wbuffer br)))\<rparr>)"

definition rate_batch :: "'m BenchRate \<Rightarrow> rate_fatal + int \<times> int" where
  "rate_batch br =
     (case ValidateBatch (rb_Batch br) (rb_SendRate br) of
        Some e \<Rightarrow> Inl (BadBatch e)
      | None \<Rightarrow>
          (case (if rb_Batch br > 0 then Some (rb_Batch br, rb_SendRate br sdiv rb_Batch br)
                 else BatchSize (case rb_request br of None \<Rightarrow> 0 | Some r \<Rightarrow> int (Request_Len r)) (rb_SendRate br) (rb_BatchSize br)) of
             None \<Rightarrow> Inl BatchPanic
           | Some (batch, tickRate) \<Rightarrow>
               if tickRate \<le> 0 \<or> batch \<le> 0 then Inl (WrongTick tickRate batch) else Inr (batch, tickRate)))"

definition BenchRate_init :: "(nat \<Rightarrow> bytes) \<Rightarrow> 'm BenchRate \<Rightarrow> rate_fatal + 'm BenchRate" where
  "BenchRate_init rnd br =
     (let br = rate_load br
      in if rb_Concurrency br \<le> 0 then Inl NoConnections
         else let br = rate_request rnd br
              in case rate_batch br of
                   Inl e \<Rightarrow> Inl e
                 | Inr (batch, tickRate) \<Rightarrow>
                     let br = br\<lparr>rb_batch := batch, rb_tickRate := tickRate\<rparr>;
                         br = (if rb_PsInterval br \<le> 0 then br\<lparr>rb_PsInterval := second\<rparr> else br)
                     in Inr (if rb_SendLimit br > 0 then br\<lparr>rb_limited := True\<rparr> else br))"

definition BenchRate_clean :: "'m BenchRate \<Rightarrow> 'm BenchRate" where
  "BenchRate_clean br = br\<lparr>rb_limited := False\<rparr>"

section \<open>Connections and teams\<close>

text \<open>The connections of a run: a broken one is redialed, and left out when that fails.\<close>

definition live_conns :: "(nat \<Rightarrow> bool) \<Rightarrow> (nat \<Rightarrow> bool) \<Rightarrow> 'm BenchRate \<Rightarrow> rconn list" where
  "live_conns broken redialed br =
     map (\<lambda>c. \<lparr>rc_conn = c, rc_sendCnt = 0, rc_recvCnt = 0\<rparr>)
       (filter (\<lambda>c. \<not> broken c \<or> redialed c) (rb_Conns br))"

text \<open>\<^verbatim>\<open>checkLimits\<close>, of one connection or more: the limits are each connection's streams and its stream window.\<close>

definition checkLimits :: "(int \<times> int) list \<Rightarrow> 'm BenchRate \<Rightarrow> rate_fatal option" where
  "checkLimits limits br =
     (let maxStreams = foldl min (fst (hd limits)) (map fst (tl limits));
          window = foldl min (snd (hd limits)) (map snd (tl limits))
      in if rb_batch br > maxStreams then Some (TooFewStreams (rb_batch br) maxStreams)
         else if rb_Payload br > window then Some (WindowTooSmall (rb_Payload br) window)
         else None)"

text \<open>The teams the writers take: connection \<open>i\<close> goes to the team \<open>i\<close> modulo their number.\<close>

definition connTeams :: "nat \<Rightarrow> 'a list \<Rightarrow> 'a list list" where
  "connTeams n conns =
     foldl (\<lambda>teams (i, c). teams[i mod n := teams ! (i mod n) @ [c]]) (replicate n []) (enumerate 0 conns)"

section \<open>Writers and readers\<close>

text \<open>
  Where a writer is in its turn on connection \<open>k\<close>: it has found it worth a batch, or \<^verbatim>\<open>WriteBatch\<close> has returned and one of the
  three counters is next. Where the reader of a connection is in \<^verbatim>\<open>OnResult\<close>: it waits for an answer, or one of
  the four counters is next.
\<close>

datatype rate_writer =
    Idle
  | WriteNext nat
  | SendTimesNext nat int
  | SendBytesNext nat int
  | SendCntNext nat int

datatype rate_reader =
    Waiting
  | RecvCntNext Result
  | AnsweredNext Result
  | RecvTimesNext Result
  | RecvBytesNext Result

record 'm rate_state =
  rs_br :: "'m BenchRate"
  rs_conns :: "rconn list"
  rs_writers :: "rate_writer list"
  rs_readers :: "rate_reader list" \<comment> \<open>one for each connection\<close>

text \<open>What \<^verbatim>\<open>OnResult\<close> counts as a response: a 200 with the body that was sent.\<close>

definition counts :: "'m BenchRate \<Rightarrow> Result \<Rightarrow> bool" where
  "counts br res \<longleftrightarrow>
     \<not> (res_Err res \<noteq> None \<or> res_Status res \<noteq> 200 \<or> res_N res \<noteq> rb_Payload br) \<and> \<not> (rb_checkValid br \<and> res_Body res \<noteq> rb_wbuffer br)"

text \<open>\<^verbatim>\<open>OnResult\<close> of the connection number \<open>k\<close>, one atomic addition at a time.\<close>

fun OnResult :: "nat \<Rightarrow> rate_reader \<Rightarrow> 'm rate_state \<Rightarrow> rate_reader \<times> 'm rate_state" where
  "OnResult k (RecvCntNext res) s =
     (AnsweredNext res, s\<lparr>rs_conns := (rs_conns s)[k := (rs_conns s ! k)\<lparr>rc_recvCnt := rc_recvCnt (rs_conns s ! k) + 1\<rparr>]\<rparr>)"
| "OnResult k (AnsweredNext res) s =
     (let br = rs_br s; br = br\<lparr>rb_answered := rb_answered br + 1\<rparr>
      in (if counts br res then RecvTimesNext res else Waiting, s\<lparr>rs_br := br\<rparr>))"
| "OnResult k (RecvTimesNext res) s =
     (let br = rs_br s in (RecvBytesNext res, s\<lparr>rs_br := br\<lparr>rb_recvTimes := rb_recvTimes br + 1\<rparr>\<rparr>))"
| "OnResult k (RecvBytesNext res) s =
     (let br = rs_br s in (Waiting, s\<lparr>rs_br := br\<lparr>rb_recvBytes := rb_recvBytes br + res_N res\<rparr>\<rparr>))"
| "OnResult k Waiting s = (Waiting, s)"

definition doOnce_skips :: "'m BenchRate \<Rightarrow> rconn \<Rightarrow> bool" where
  "doOnce_skips br c \<longleftrightarrow> rc_sendCnt c - rc_recvCnt c \<ge> rb_batch br * maxBatchesInFlight"

text \<open>The rest of a turn: what \<^verbatim>\<open>WriteBatch\<close> returned, and the three atomic additions.\<close>

definition doOnce_wrote :: "nat \<Rightarrow> int \<times> err option \<Rightarrow> rate_writer" where
  "doOnce_wrote k w = (let (n, e) = w in if e = None \<and> n > 0 then SendTimesNext k n else Idle)"

fun doOnce_count :: "rate_writer \<Rightarrow> 'm rate_state \<Rightarrow> rate_writer \<times> 'm rate_state" where
  "doOnce_count (SendTimesNext k n) s =
     (let br = rs_br s in (SendBytesNext k n, s\<lparr>rs_br := br\<lparr>rb_sendTimes := rb_sendTimes br + n\<rparr>\<rparr>))"
| "doOnce_count (SendBytesNext k n) s =
     (let br = rs_br s in (SendCntNext k n, s\<lparr>rs_br := br\<lparr>rb_sendBytes := rb_sendBytes br + n * rb_Payload br\<rparr>\<rparr>))"
| "doOnce_count (SendCntNext k n) s =
     (Idle, s\<lparr>rs_conns := (rs_conns s)[k := (rs_conns s ! k)\<lparr>rc_sendCnt := rc_sendCnt (rs_conns s ! k) + n\<rparr>]\<rparr>)"
| "doOnce_count w s = (w, s)"

text \<open>What \<^verbatim>\<open>WriteBatch\<close> can return for a batch of \<open>n\<close>: it is written whole, or nothing is, or there is an error.\<close>

definition batch_outcome :: "int \<Rightarrow> int \<times> err option \<Rightarrow> bool" where
  "batch_outcome n w \<longleftrightarrow> snd w = None \<longrightarrow> fst w \<in> {0, n}"

text \<open>The readers' moves: an answer comes, or the next counter of the one at hand is added to.\<close>

inductive read_move :: "'m rate_state \<Rightarrow> 'm rate_state \<Rightarrow> bool" where
  read_result: "k < length (rs_readers s) \<Longrightarrow> rs_readers s ! k = Waiting \<Longrightarrow>
     read_move s (s\<lparr>rs_readers := (rs_readers s)[k := RecvCntNext res]\<rparr>)"
| read_count: "k < length (rs_readers s) \<Longrightarrow> rs_readers s ! k \<noteq> Waiting \<Longrightarrow> OnResult k (rs_readers s ! k) s = (r, t) \<Longrightarrow>
     read_move s (t\<lparr>rs_readers := (rs_readers t)[k := r]\<rparr>)"

inductive rate_move :: "nat \<Rightarrow> 'm rate_state \<Rightarrow> 'm rate_state \<Rightarrow> bool" for teams where
  rate_check: "t < teams \<Longrightarrow> rs_writers s ! t = Idle \<Longrightarrow> k < length (rs_conns s) \<Longrightarrow> k mod teams = t \<Longrightarrow>
     \<not> doOnce_skips (rs_br s) (rs_conns s ! k) \<Longrightarrow> rate_move teams s (s\<lparr>rs_writers := (rs_writers s)[t := WriteNext k]\<rparr>)"
| rate_write: "t < teams \<Longrightarrow> rs_writers s ! t = WriteNext k \<Longrightarrow> batch_outcome (rb_batch (rs_br s)) w \<Longrightarrow>
     rate_move teams s (s\<lparr>rs_writers := (rs_writers s)[t := doOnce_wrote k w]\<rparr>)"
| rate_count: "t < teams \<Longrightarrow> doOnce_count (rs_writers s ! t) s = (w, s') \<Longrightarrow> w \<noteq> rs_writers s ! t \<Longrightarrow>
     rate_move teams s (s'\<lparr>rs_writers := (rs_writers s')[t := w]\<rparr>)"
| rate_read: "read_move s s' \<Longrightarrow> rate_move teams s s'"

definition rate_start :: "'m BenchRate \<Rightarrow> rconn list \<Rightarrow> nat \<Rightarrow> 'm rate_state" where
  "rate_start br conns teams =
     \<lparr>rs_br = br, rs_conns = conns, rs_writers = replicate teams Idle, rs_readers = replicate (length conns) Waiting\<rparr>"

abbreviation rate_steps :: "'m BenchRate \<Rightarrow> rconn list \<Rightarrow> nat \<Rightarrow> 'm rate_state \<Rightarrow> bool" where
  "rate_steps br conns teams \<equiv> reach (\<lambda>s. s = rate_start br conns teams) (rate_move teams)"

text \<open>That is what the model of \<^verbatim>\<open>WriteBatch\<close> returns, by whichever of its ends.\<close>

fun batch_thread :: "int \<Rightarrow> thread \<Rightarrow> bool" where
  "batch_thread n (BatchStart req m keep) \<longleftrightarrow> m = n"
| "batch_thread n (BatchOpen req m keep) \<longleftrightarrow> m = n"
| "batch_thread n (BatchFlush req m buf) \<longleftrightarrow> m = n"
| "batch_thread n (BatchReturn m e) \<longleftrightarrow> batch_outcome n (m, e)"
| "batch_thread n t \<longleftrightarrow> False"

lemma WriteBatch_outcome:
  "batch_thread n t \<Longrightarrow> thread_step pick w t cc = Some (t', cc') \<Longrightarrow> batch_thread n t'"
  by (cases t) (auto simp: batch_outcome_def WriteBatch_reserve_def WriteBatch_open_def WriteBatch_flush_def Let_def
      split: option.splits if_splits prod.splits)

section \<open>The end of a run\<close>

text \<open>
  The benchmark after the writers are done is seen again and again while the readers go on: \<open>seen i\<close> is how it is at the look number
  \<open>i\<close>. The wait for the last answers looks until none is missing, or until the grace of one tick is over, which is
  after \<open>grace\<close> more of them; the two counters of the report are then loaded in two looks of their own.
\<close>

fun grace_wait :: "(nat \<Rightarrow> 'm BenchRate) \<Rightarrow> nat \<Rightarrow> nat \<Rightarrow> nat" where
  "grace_wait seen i 0 = i"
| "grace_wait seen i (Suc grace) =
     (if rb_answered (seen i) < rb_sendTimes (seen i) then grace_wait seen (i + 1) grace else i)"

definition snapshot :: "'m BenchRate \<Rightarrow> 'm BenchRate \<Rightarrow> 'm BenchRate" where
  "snapshot br1 br2 = br2\<lparr>rb_endRecvTimes := rb_recvTimes br1, rb_endRecvBytes := rb_recvBytes br2\<rparr>"

text \<open>
  \<^verbatim>\<open>Run\<close>: \<open>limits\<close> are what a connection's server allows, and \<open>go\<close> is the run of the goroutines, the looks at the benchmark from
  when the writers are done on, and how many of them the grace leaves time for. A tick of less than a nanosecond is
  none, and \<^verbatim>\<open>NewTicker\<close> panics in every writer.
\<close>

definition BenchRate_Run ::
  "(nat \<Rightarrow> bytes) \<Rightarrow> (nat \<Rightarrow> bool) \<Rightarrow> (nat \<Rightarrow> bool) \<Rightarrow> (nat \<Rightarrow> int \<times> int)
     \<Rightarrow> ('m BenchRate \<Rightarrow> rconn list \<Rightarrow> (nat \<Rightarrow> 'm BenchRate) \<times> nat) \<Rightarrow> 'm BenchRate \<Rightarrow> rate_fatal + 'm BenchRate" where
  "BenchRate_Run rnd broken redialed limits go br =
     (case BenchRate_init rnd br of
        Inl e \<Rightarrow> Inl e
      | Inr br \<Rightarrow>
          let conns = live_conns broken redialed br
          in if conns = [] then Inl NoConnections
             else case checkLimits (map (\<lambda>c. limits (rc_conn c)) conns) br of
                    Some e \<Rightarrow> Inl e
                  | None \<Rightarrow>
                      if second sdiv rb_tickRate br \<le> 0 then Inl (TickerPanic (rb_tickRate br))
                      else let (seen, grace) = go br conns;
                               i = grace_wait seen 0 grace
                           in Inr (BenchRate_clean (snapshot (seen (i + 1)) (seen (i + 2)))))"

text \<open>
  What is relied on of the goroutines: the first look sees a state some interleaving of the moves reaches, in which every writer is
  done, and between one look and the next the readers alone have moved.
\<close>

definition rate_ran :: "('m BenchRate \<Rightarrow> rconn list \<Rightarrow> (nat \<Rightarrow> 'm BenchRate) \<times> nat) \<Rightarrow> 'm BenchRate \<Rightarrow> rconn list \<Rightarrow> bool" where
  "rate_ran go br conns \<longleftrightarrow>
     (\<exists>run. rate_steps br conns (nat (rb_Concurrency br)) (run 0) \<and> list_all (\<lambda>w. w = Idle) (rs_writers (run 0))
        \<and> (\<forall>i. read_move\<^sup>*\<^sup>* (run i) (run (Suc i))) \<and> (\<forall>i. fst (go br conns) i = rs_br (run i)))"

definition rb_psInfo ::
  "(bytes \<Rightarrow> 'c option) \<Rightarrow> ('c \<Rightarrow> float64) \<Rightarrow> (float64 list \<Rightarrow> 'm list \<Rightarrow> 'c) \<Rightarrow> (string \<Rightarrow> int \<Rightarrow> http_outcome) \<Rightarrow> 'm BenchRate
     \<Rightarrow> 'c option \<times> ps_error option" where
  "rb_psInfo unmarshal cpuAvg counter net br =
     (case rb_PsSource br of
        Some s \<Rightarrow> PsInfo unmarshal cpuAvg counter net s
      | None \<Rightarrow> (let (c, e) = GetFrameworkPsInfo unmarshal cpuAvg net (rb_Framework br) (rb_Ip br)
                in (c, map_option Control e)))"

definition BenchRate_Report :: "PSCounter option \<Rightarrow> 'm BenchRate \<Rightarrow> BenchRateReport" where
  "BenchRate_Report psCounter br =
     (let r = (create_BenchRate (rb_Framework br))\<lparr>br_BenchClient := ''benchcli-go'', br_Duration := rb_Duration br,
                br_Connections := int (length (rb_Conns br)), br_Concurrency := rb_Concurrency br,
                br_SendRate := rb_SendRate br, br_Batch := rb_batch br, br_Payload := rb_Payload br,
                br_SendTimes := rb_sendTimes br, br_SendBytes := rb_sendBytes br,
                br_RecvTimes := rb_endRecvTimes br, br_RecvBytes := rb_endRecvBytes br\<rparr>;
          r = br_SetPprofData (rb_pprofDataCPU br) (rb_pprofDataMEM br) r;
          r = (case psCounter of
                 None \<Rightarrow> r
               | Some p \<Rightarrow>
                   let r = r\<lparr>br_CPUMin := pc_CPUMin p, br_CPUAvg := pc_CPUAvg p, br_CPUMax := pc_CPUMax p,
                             br_MEMRSSMin := pc_MEMRSSMin p, br_MEMRSSAvg := pc_MEMRSSAvg p, br_MEMRSSMax := pc_MEMRSSMax p\<rparr>
                   in r\<lparr>br_EchoEER := EER (RateTPS (br_RecvTimes r) (br_Duration r)) (br_CPUAvg r),
                        br_MEMEER := MEMEER (RateTPS (br_RecvTimes r) (br_Duration r)) (br_MEMRSSAvg r)\<rparr>)
      in r\<lparr>br_TPS := floor_int (RateTPS (br_RecvTimes r) (br_Duration r))\<rparr>)"


section \<open>What the counters say\<close>

definition unanswered :: "rconn \<Rightarrow> int" where
  "unanswered c = rc_sendCnt c - rc_recvCnt c"

text \<open>The connection a writer has its turn on, and what the additions still to come leave the counters apart by.\<close>

fun turn_on :: "rate_writer \<Rightarrow> nat option" where
  "turn_on Idle = None"
| "turn_on (WriteNext k) = Some k"
| "turn_on (SendTimesNext k n) = Some k"
| "turn_on (SendBytesNext k n) = Some k"
| "turn_on (SendCntNext k n) = Some k"

fun turn_batch :: "int \<Rightarrow> rate_writer \<Rightarrow> bool" where
  "turn_batch b (SendTimesNext k n) \<longleftrightarrow> n = b"
| "turn_batch b (SendBytesNext k n) \<longleftrightarrow> n = b"
| "turn_batch b (SendCntNext k n) \<longleftrightarrow> n = b"
| "turn_batch b w \<longleftrightarrow> True"

fun sent_ahead :: "rate_writer \<Rightarrow> int" where
  "sent_ahead (SendBytesNext k n) = n"
| "sent_ahead (SendCntNext k n) = n"
| "sent_ahead w = 0"

fun bytes_behind :: "rate_writer \<Rightarrow> int" where
  "bytes_behind (SendBytesNext k n) = n"
| "bytes_behind w = 0"

fun answer_due :: "rate_reader \<Rightarrow> int" where
  "answer_due (AnsweredNext res) = 1"
| "answer_due r = 0"

fun times_due :: "rate_reader \<Rightarrow> int" where
  "times_due (RecvTimesNext res) = 1"
| "times_due r = 0"

fun bytes_due :: "rate_reader \<Rightarrow> int" where
  "bytes_due (RecvBytesNext res) = 1"
| "bytes_due r = 0"

fun due_payload :: "int \<Rightarrow> rate_reader \<Rightarrow> bool" where
  "due_payload p (RecvTimesNext res) \<longleftrightarrow> res_N res = p"
| "due_payload p (RecvBytesNext res) \<longleftrightarrow> res_N res = p"
| "due_payload p r \<longleftrightarrow> True"

abbreviation total :: "('a \<Rightarrow> int) \<Rightarrow> 'a list \<Rightarrow> int" where
  "total f xs \<equiv> sum_list (map f xs)"

definition flight_inv :: "'m BenchRate \<Rightarrow> nat \<Rightarrow> nat \<Rightarrow> 'm rate_state \<Rightarrow> bool" where
  "flight_inv br0 n teams s \<longleftrightarrow>
     length (rs_conns s) = n \<and> length (rs_readers s) = n \<and> length (rs_writers s) = teams \<and> rb_batch (rs_br s) = rb_batch br0
   \<and> (\<forall>k < n. unanswered (rs_conns s ! k) < 5 * rb_batch br0)
   \<and> (\<forall>t < teams. turn_batch (rb_batch br0) (rs_writers s ! t) \<and> (\<forall>k. turn_on (rs_writers s ! t) = Some k \<longrightarrow>
        k < n \<and> k mod teams = t \<and> unanswered (rs_conns s ! k) < 4 * rb_batch br0))"

definition send_inv :: "'m BenchRate \<Rightarrow> 'm rate_state \<Rightarrow> bool" where
  "send_inv br0 s \<longleftrightarrow>
     (let br = rs_br s
      in rb_Payload br = rb_Payload br0
       \<and> rb_sendTimes br = total rc_sendCnt (rs_conns s) + total sent_ahead (rs_writers s)
       \<and> rb_sendBytes br = (rb_sendTimes br - total bytes_behind (rs_writers s)) * rb_Payload br0
       \<and> rb_batch br0 dvd total rc_sendCnt (rs_conns s) + total sent_ahead (rs_writers s))"

definition recv_inv :: "'m BenchRate \<Rightarrow> 'm rate_state \<Rightarrow> bool" where
  "recv_inv br0 s \<longleftrightarrow>
     (let br = rs_br s
      in rb_Payload br = rb_Payload br0
       \<and> rb_answered br = total rc_recvCnt (rs_conns s) - total answer_due (rs_readers s)
       \<and> 0 \<le> rb_recvTimes br \<and> rb_recvTimes br + total times_due (rs_readers s) \<le> rb_answered br
       \<and> rb_recvBytes br = (rb_recvTimes br - total bytes_due (rs_readers s)) * rb_Payload br0
       \<and> list_all (due_payload (rb_Payload br0)) (rs_readers s))"

text \<open>A run as it starts: nothing counted yet, batches of one request or more.\<close>

definition rate_fresh :: "'m BenchRate \<Rightarrow> rconn list \<Rightarrow> bool" where
  "rate_fresh br0 conns0 \<longleftrightarrow> 1 \<le> rb_batch br0 \<and> list_all (\<lambda>c. rc_sendCnt c = 0 \<and> rc_recvCnt c = 0) conns0
     \<and> rb_sendTimes br0 = 0 \<and> rb_sendBytes br0 = 0 \<and> rb_recvTimes br0 = 0 \<and> rb_recvBytes br0 = 0 \<and> rb_answered br0 = 0"

text \<open>What an addition changes.\<close>

lemma list_all_update: "list_all P xs \<Longrightarrow> P x \<Longrightarrow> list_all P (xs[i := x])"
  using set_update_subset_insert [of xs i x] by (auto simp: list_all_iff)

lemma nth_update_any: "xs[i := x] ! j = (if i = j \<and> i < length xs then x else xs ! j)"
  by (cases "i < length xs") (auto simp: nth_list_update list_update_beyond)

lemma total_update_field:
  "total rc_sendCnt (cs[k := (cs ! k)\<lparr>rc_recvCnt := x\<rparr>]) = total rc_sendCnt cs"
  "total rc_recvCnt (cs[k := (cs ! k)\<lparr>rc_sendCnt := x\<rparr>]) = total rc_recvCnt cs"
  by (induction cs arbitrary: k) (auto split: nat.splits)

lemma OnResult_keeps:
  assumes "OnResult k r s = (r', t)"
  shows "rs_writers t = rs_writers s" and "rs_readers t = rs_readers s" and "length (rs_conns t) = length (rs_conns s)"
    and "rb_batch (rs_br t) = rb_batch (rs_br s)" and "rb_Payload (rs_br t) = rb_Payload (rs_br s)"
    and "rb_sendTimes (rs_br t) = rb_sendTimes (rs_br s)" and "rb_sendBytes (rs_br t) = rb_sendBytes (rs_br s)"
    and "total rc_sendCnt (rs_conns t) = total rc_sendCnt (rs_conns s)"
    and "unanswered (rs_conns t ! j) \<le> unanswered (rs_conns s ! j)"
  using assms
  by (cases r; auto simp: Let_def total_update_field unanswered_def nth_update_any split: if_splits)+

lemma doOnce_count_keeps:
  assumes "doOnce_count w s = (w', t)"
  shows "rs_writers t = rs_writers s" and "rs_readers t = rs_readers s" and "length (rs_conns t) = length (rs_conns s)"
    and "rb_batch (rs_br t) = rb_batch (rs_br s)" and "rb_Payload (rs_br t) = rb_Payload (rs_br s)"
    and "rb_answered (rs_br t) = rb_answered (rs_br s)" and "rb_recvTimes (rs_br t) = rb_recvTimes (rs_br s)"
    and "rb_recvBytes (rs_br t) = rb_recvBytes (rs_br s)" and "total rc_recvCnt (rs_conns t) = total rc_recvCnt (rs_conns s)"
    and "turn_batch b w \<Longrightarrow> turn_batch b w'" and "turn_on w' = turn_on w \<or> turn_on w' = None"
    and "turn_on w \<noteq> Some j \<Longrightarrow> rs_conns t ! j = rs_conns s ! j"
    and "w' \<noteq> Idle \<Longrightarrow> rs_conns t = rs_conns s"
    and "turn_batch b w \<Longrightarrow> 0 \<le> b \<Longrightarrow> unanswered (rs_conns t ! j) \<le> unanswered (rs_conns s ! j) + b"
  using assms
  by (cases w; auto simp: Let_def total_update_field unanswered_def nth_update_any split: if_splits)+

lemma doOnce_wrote_ok:
  assumes "batch_outcome b w"
  shows "turn_batch b (doOnce_wrote k w)" and "turn_on (doOnce_wrote k w) \<in> {None, Some k}"
    and "sent_ahead (doOnce_wrote k w) = 0" and "bytes_behind (doOnce_wrote k w) = 0"
  using assms by (auto simp: doOnce_wrote_def batch_outcome_def split: prod.split)

lemma flight_inv_conns:
  assumes "flight_inv br0 n teams s" and "rs_writers t = rs_writers s" and "length (rs_readers t) = length (rs_readers s)"
    and "length (rs_conns t) = length (rs_conns s)" and "rb_batch (rs_br t) = rb_batch (rs_br s)"
    and "\<And>j. unanswered (rs_conns t ! j) \<le> unanswered (rs_conns s ! j)"
  shows "flight_inv br0 n teams t"
  using assms(1-5) order_le_less_trans [OF assms(6)] by (simp add: flight_inv_def)

lemma flight_inv_read:
  assumes "read_move s t" and "flight_inv br0 n teams s"
  shows "flight_inv br0 n teams t"
  using assms
proof (cases rule: read_move.cases)
  case (read_result k res)
  then show ?thesis using flight_inv_conns [OF assms(2), of t] by simp
next
  case (read_count k r u)
  note keeps = OnResult_keeps [OF read_count(4)]
  show ?thesis using flight_inv_conns [OF assms(2), of t] keeps by (simp add: read_count(1))
qed

text \<open>A writer's move: its own turn goes on, or ends with one batch more on its connection, which no other writer has.\<close>

lemma flight_inv_turn:
  assumes inv: "flight_inv br0 n teams s" and t: "t < teams" and w: "turn_batch (rb_batch br0) w"
    and conns: "length (rs_conns s') = length (rs_conns s)" "\<And>j. turn_on (rs_writers s ! t) \<noteq> Some j \<Longrightarrow> rs_conns s' ! j = rs_conns s ! j"
    and same: "rs_writers s' = rs_writers s" "rs_readers s' = rs_readers s" "rb_batch (rs_br s') = rb_batch (rs_br s)"
    and turn: "w = Idle \<or> turn_on w = turn_on (rs_writers s ! t) \<and> rs_conns s' = rs_conns s"
    and more: "\<And>j. unanswered (rs_conns s' ! j) \<le> unanswered (rs_conns s ! j) + rb_batch br0"
  shows "flight_inv br0 n teams (s'\<lparr>rs_writers := (rs_writers s')[t := w]\<rparr>)"
proof -
  have other: "turn_on (rs_writers s ! t) \<noteq> Some k" if "t' < teams" "t' \<noteq> t" "turn_on (rs_writers s ! t') = Some k" for t' k
    using inv that t unfolding flight_inv_def by metis
  have five: "unanswered (rs_conns s' ! k) < 5 * rb_batch br0" if "k < n" for k
  proof (cases "turn_on (rs_writers s ! t) = Some k")
    case True
    then have "unanswered (rs_conns s ! k) < 4 * rb_batch br0" using inv t by (simp add: flight_inv_def)
    with more [of k] show ?thesis by simp
  next
    case False
    with conns(2) inv that show ?thesis by (simp add: flight_inv_def)
  qed
  have "turn_batch (rb_batch br0) ((rs_writers s)[t := w] ! t') \<and> (\<forall>k. turn_on ((rs_writers s)[t := w] ! t') = Some k \<longrightarrow>
      k < n \<and> k mod teams = t' \<and> unanswered (rs_conns s' ! k) < 4 * rb_batch br0)" if "t' < teams" for t'
  proof (cases "t' = t")
    case True
    with inv t w turn show ?thesis by (auto simp: flight_inv_def)
  next
    case False
    with inv that conns(2) other [OF that False] show ?thesis by (simp add: flight_inv_def)
  qed
  with inv five conns(1) same show ?thesis by (simp add: flight_inv_def)
qed

lemma flight_inv_move:
  assumes "flight_inv br0 n teams s" and "1 \<le> rb_batch br0" and "rate_move teams s s'"
  shows "flight_inv br0 n teams s'"
  using assms(3)
proof (cases rule: rate_move.cases)
  case (rate_check t k)
  have "unanswered (rs_conns s ! k) < 4 * rb_batch br0"
    using rate_check assms(1) by (simp add: doOnce_skips_def flight_inv_def unanswered_def maxBatchesInFlight_def)
  with rate_check assms(1) show ?thesis by (auto simp: flight_inv_def nth_list_update)
next
  case (rate_write t k w)
  then have "batch_outcome (rb_batch br0) w" using assms(1) by (simp add: flight_inv_def)
  from doOnce_wrote_ok(1,2) [OF this, of k] rate_write assms show ?thesis
    using flight_inv_turn [OF assms(1) rate_write(2), of "doOnce_wrote k w" s]
    by (auto simp: doOnce_wrote_def split: prod.splits if_splits)
next
  case (rate_count t w u)
  note keeps = doOnce_count_keeps [OF rate_count(3)]
  have "turn_batch (rb_batch br0) (rs_writers s ! t)" using assms(1) rate_count(2) by (simp add: flight_inv_def)
  moreover have "w = Idle \<or> turn_on w = turn_on (rs_writers s ! t) \<and> rs_conns u = rs_conns s"
    using keeps(11,13) by (cases w) auto
  ultimately show ?thesis
    using flight_inv_turn [OF assms(1) rate_count(2), of w u] keeps assms(2) unfolding rate_count(1) by auto
next
  case rate_read
  then show ?thesis using flight_inv_read assms(1) by blast
qed

lemma send_inv_move:
  assumes "send_inv br0 s" and "flight_inv br0 n teams s" and "rate_move teams s s'"
  shows "send_inv br0 s'"
  using assms(3)
proof (cases rule: rate_move.cases)
  case (rate_check t k)
  with assms(1,2) show ?thesis by (auto simp: send_inv_def flight_inv_def sum_list_update_int Let_def)
next
  case (rate_write t k w)
  then have "batch_outcome (rb_batch br0) w" using assms(2) by (simp add: flight_inv_def)
  with rate_write assms(1,2) doOnce_wrote_ok(3,4) show ?thesis
    by (auto simp: send_inv_def flight_inv_def sum_list_update_int Let_def)
next
  case (rate_count t w u)
  have "turn_batch (rb_batch br0) (rs_writers s ! t)" and len: "t < length (rs_writers s)"
    and on: "turn_on (rs_writers s ! t) = Some k \<Longrightarrow> k < length (rs_conns s)" for k
    using assms(2) rate_count(2) by (auto simp: flight_inv_def)
  with rate_count(1,3) assms(1) show ?thesis
    by (cases "rs_writers s ! t") (auto simp: send_inv_def Let_def sum_list_update_int algebra_simps)
next
  case rate_read
  then show ?thesis
  proof (cases rule: read_move.cases)
    case (read_count k r u)
    from OnResult_keeps [OF read_count(4)] assms(1) show ?thesis by (simp add: send_inv_def Let_def read_count(1))
  qed (use assms(1) in \<open>simp add: send_inv_def Let_def\<close>)
qed

lemma recv_inv_read:
  assumes "read_move s t" and "recv_inv br0 s" and "length (rs_conns s) = length (rs_readers s)"
  shows "recv_inv br0 t"
  using assms(1)
proof (cases rule: read_move.cases)
  case (read_result k res)
  with assms show ?thesis by (simp add: recv_inv_def Let_def sum_list_update_int list_all_update)
next
  case (read_count k r u)
  have "due_payload (rb_Payload br0) (rs_readers s ! k)"
    using assms(2) read_count(2) by (auto simp: recv_inv_def Let_def list_all_length)
  with read_count assms(2,3) show ?thesis
    by (cases "rs_readers s ! k")
      (auto simp: recv_inv_def Let_def sum_list_update_int list_all_update counts_def algebra_simps split: if_splits)
qed

lemma recv_inv_move:
  assumes "recv_inv br0 s" and "flight_inv br0 n teams s" and "rate_move teams s s'"
  shows "recv_inv br0 s'"
  using assms(3)
proof (cases rule: rate_move.cases)
  case (rate_count t w u)
  from doOnce_count_keeps [OF rate_count(3)] assms(1) show ?thesis by (simp add: recv_inv_def Let_def rate_count(1))
next
  case rate_read
  moreover have "length (rs_conns s) = length (rs_readers s)" using assms(2) by (simp add: flight_inv_def)
  ultimately show ?thesis using recv_inv_read assms(1) by blast
qed (use assms(1) in \<open>simp_all add: recv_inv_def Let_def\<close>)

lemma total_replicate: "total f (replicate n x) = int n * f x"
  by (induction n) (simp_all add: algebra_simps)

lemma rate_inv_start:
  assumes "rate_fresh br0 conns0"
  shows "flight_inv br0 (length conns0) teams (rate_start br0 conns0 teams)" and "send_inv br0 (rate_start br0 conns0 teams)"
    and "recv_inv br0 (rate_start br0 conns0 teams)"
proof -
  show "flight_inv br0 (length conns0) teams (rate_start br0 conns0 teams)"
    using assms by (auto simp: flight_inv_def rate_fresh_def unanswered_def list_all_length rate_start_def)
  from assms have "map rc_sendCnt conns0 = replicate (length conns0) 0" "map rc_recvCnt conns0 = replicate (length conns0) 0"
    by (auto simp: rate_fresh_def list_all_length list_eq_iff_nth_eq)
  with assms show "send_inv br0 (rate_start br0 conns0 teams)" "recv_inv br0 (rate_start br0 conns0 teams)"
    by (simp_all add: send_inv_def recv_inv_def rate_fresh_def sum_list_replicate rate_start_def list_all_length)
qed

interpretation rate: invariant "\<lambda>s. rate_fresh br0 conns0 \<and> s = rate_start br0 conns0 teams" "rate_move teams"
  "\<lambda>s. 1 \<le> rb_batch br0 \<and> flight_inv br0 (length conns0) teams s \<and> send_inv br0 s \<and> recv_inv br0 s"
  for br0 :: "'m BenchRate" and conns0 teams
proof (unfold_locales, goal_cases)
  case (1 s)
  then show ?case using rate_inv_start [of br0 conns0 teams] by (simp add: rate_fresh_def)
next
  case (2 s t)
  then show ?case using flight_inv_move send_inv_move recv_inv_move by blast
qed

lemma rate_reach_inv:
  assumes "rate_steps br0 conns0 teams s" and "rate_fresh br0 conns0"
  shows "flight_inv br0 (length conns0) teams s" and "send_inv br0 s" and "recv_inv br0 s"
  using rate.inv_reach [of br0 conns0 teams s] assms by simp_all

text \<open>
  C23. Under every interleaving of the writers and the readers, no connection ever has five batches or more counted as
  unanswered: a writer adds one only to a connection with fewer than four, and a connection has one writer alone.
\<close>

theorem rate_in_flight:
  assumes "rate_steps br0 conns0 teams s" and "rate_fresh br0 conns0" and "k < length conns0"
  shows "rc_sendCnt (rs_conns s ! k) - rc_recvCnt (rs_conns s ! k) < (maxBatchesInFlight + 1) * rb_batch br0"
  using rate_reach_inv(1) [OF assms(1,2)] assms(3) by (simp add: flight_inv_def unanswered_def maxBatchesInFlight_def)

text \<open>
  Once no turn and no answer is in the middle of being counted, the counters of a run agree: the requests sent are those counted on the
  connections, in whole batches, the answers too, the answers reported are among them, and the bytes are the payload's for
  each.
\<close>

theorem rate_counters:
  assumes "rate_steps br0 conns0 teams s" and "rate_fresh br0 conns0"
    and "rs_writers s = replicate teams Idle" and "rs_readers s = replicate (length conns0) Waiting"
  shows "rb_sendTimes (rs_br s) = total rc_sendCnt (rs_conns s) \<and> rb_answered (rs_br s) = total rc_recvCnt (rs_conns s)
    \<and> rb_sendBytes (rs_br s) = rb_sendTimes (rs_br s) * rb_Payload br0 \<and> rb_batch br0 dvd rb_sendTimes (rs_br s)
    \<and> 0 \<le> rb_recvTimes (rs_br s) \<and> rb_recvTimes (rs_br s) \<le> rb_answered (rs_br s)
    \<and> rb_recvBytes (rs_br s) = rb_recvTimes (rs_br s) * rb_Payload br0"
  using rate_reach_inv(2,3) [OF assms(1,2)] assms(3,4) by (auto simp: send_inv_def recv_inv_def Let_def sum_list_replicate)

definition sample_br :: "unit BenchRate" where
  "sample_br = (BenchRate_New ''fib'' 1 ''127.0.0.1'' [0, 1] True)\<lparr>rb_batch := 3, rb_Payload := 10\<rparr>"

definition sample_conns :: "rconn list" where
  "sample_conns = [\<lparr>rc_conn = 0, rc_sendCnt = 0, rc_recvCnt = 0\<rparr>, \<lparr>rc_conn = 1, rc_sendCnt = 0, rc_recvCnt = 0\<rparr>]"

text \<open>A writer checks the second connection, writes a batch to it and counts it.\<close>

definition sample_at :: "int \<Rightarrow> int \<Rightarrow> int \<Rightarrow> rate_writer \<Rightarrow> unit rate_state" where
  "sample_at sendTimes sendBytes sendCnt w =
     \<lparr>rs_br = sample_br\<lparr>rb_sendTimes := sendTimes, rb_sendBytes := sendBytes\<rparr>,
      rs_conns = [\<lparr>rc_conn = 0, rc_sendCnt = 0, rc_recvCnt = 0\<rparr>, \<lparr>rc_conn = 1, rc_sendCnt = sendCnt, rc_recvCnt = 0\<rparr>],
      rs_writers = [Idle, w], rs_readers = [Waiting, Waiting]\<rparr>"

lemma sample_rate:
  "rate_steps sample_br sample_conns 2 (sample_at 3 30 3 Idle)" "rate_fresh sample_br sample_conns"
proof -
  note defs = sample_at_def sample_br_def BenchRate_New_def
  have "rate_steps sample_br sample_conns 2 (sample_at 0 0 0 Idle)"
    by (rule reach_start) (simp add: defs sample_conns_def rate_start_def numeral_2_eq_2)
  moreover have "rate_move 2 (sample_at 0 0 0 Idle) (sample_at 0 0 0 (WriteNext 1))"
    using rate_check [of 1 2 "sample_at 0 0 0 Idle" 1] by (simp add: defs doOnce_skips_def maxBatchesInFlight_def)
  ultimately have "rate_steps sample_br sample_conns 2 (sample_at 0 0 0 (WriteNext 1))" by (rule reach_move)
  moreover have "rate_move 2 (sample_at 0 0 0 (WriteNext 1)) (sample_at 0 0 0 (SendTimesNext 1 3))"
    using rate_write [of 1 2 "sample_at 0 0 0 (WriteNext 1)" 1 "(3, None)"] by (simp add: defs batch_outcome_def doOnce_wrote_def)
  ultimately have "rate_steps sample_br sample_conns 2 (sample_at 0 0 0 (SendTimesNext 1 3))" by (rule reach_move)
  moreover have "rate_move 2 (sample_at 0 0 0 (SendTimesNext 1 3)) (sample_at 3 0 0 (SendBytesNext 1 3))"
    using rate_count [of 1 2 "sample_at 0 0 0 (SendTimesNext 1 3)"] by (simp add: defs)
  ultimately have "rate_steps sample_br sample_conns 2 (sample_at 3 0 0 (SendBytesNext 1 3))" by (rule reach_move)
  moreover have "rate_move 2 (sample_at 3 0 0 (SendBytesNext 1 3)) (sample_at 3 30 0 (SendCntNext 1 3))"
    using rate_count [of 1 2 "sample_at 3 0 0 (SendBytesNext 1 3)"] by (simp add: defs)
  ultimately have "rate_steps sample_br sample_conns 2 (sample_at 3 30 0 (SendCntNext 1 3))" by (rule reach_move)
  moreover have "rate_move 2 (sample_at 3 30 0 (SendCntNext 1 3)) (sample_at 3 30 3 Idle)"
    using rate_count [of 1 2 "sample_at 3 30 0 (SendCntNext 1 3)"] by (simp add: defs)
  ultimately show "rate_steps sample_br sample_conns 2 (sample_at 3 30 3 Idle)" by (rule reach_move)
  show "rate_fresh sample_br sample_conns"
    by (simp add: rate_fresh_def sample_br_def sample_conns_def BenchRate_New_def)
qed

theorem rate_in_flight_witness:
  "(3 :: int) - 0 < (maxBatchesInFlight + 1) * rb_batch sample_br"
  using rate_in_flight [OF sample_rate, of 1] by (simp add: sample_conns_def sample_at_def)

theorem rate_counters_witness:
  "rb_sendBytes (rs_br (sample_at 3 30 3 Idle)) = 3 * rb_Payload sample_br"
  using rate_counters [OF sample_rate] by (simp add: sample_conns_def sample_at_def numeral_2_eq_2)

section \<open>What a run is set to\<close>

lemma rate_load_ok:
  "rb_Conns (rate_load br) = rb_Conns br" "rb_Concurrency (rate_load br) \<le> int (length (rb_Conns br))"
  "0 < rb_Duration (rate_load br)"
  by (auto simp: rate_load_def Let_def second_def)

lemma rate_request_ok:
  "rb_Conns (rate_request rnd br) = rb_Conns br" "rb_Concurrency (rate_request rnd br) = rb_Concurrency br"
  "1 \<le> rb_SendRate (rate_request rnd br)" "1 \<le> rb_Payload (rate_request rnd br)"
  "rb_wbuffer (rate_request rnd br) = rnd (nat (rb_Payload (rate_request rnd br)))"
  "rb_request (rate_request rnd br)
     = Some (NewRequest ''POST'' (Host (rb_Ip (rate_request rnd br))) EchoPath (Some (rb_wbuffer (rate_request rnd br))))"
  by (auto simp: rate_request_def Let_def)

lemma rate_batch_Inr:
  assumes "1 \<le> rb_SendRate br" and "ValidateBatch (rb_Batch br) (rb_SendRate br) = None"
    and "rb_request br = Some r" and "0 < Request_Len r"
  shows "\<exists>batch tick. rate_batch br = Inr (batch, tick) \<and> 1 \<le> batch \<and> batch * tick = rb_SendRate br
    \<and> (if 0 < rb_Batch br then batch = rb_Batch br
       else (batch = 1 \<or> batch * int (Request_Len r) \<le> rb_BatchSize br))"
proof -
  have tick: "0 < tick" if "1 \<le> batch" "batch * tick = rb_SendRate br" for batch tick :: int
  proof -
    have "0 < batch * tick" using that assms(1) by simp
    with that(1) show ?thesis by (simp add: zero_less_mult_iff)
  qed
  show ?thesis
  proof (cases "0 < rb_Batch br")
    case True
    then have "rb_Batch br * (rb_SendRate br sdiv rb_Batch br) = rb_SendRate br"
      using assms(2) by (intro sdiv_exact) (auto simp: ValidateBatch_iff)
    with True tick [of "rb_Batch br" "rb_SendRate br sdiv rb_Batch br"] assms(2) show ?thesis
      by (simp add: rate_batch_def)
  next
    case False
    obtain batch k where b: "BatchSize (int (Request_Len r)) (rb_SendRate br) (rb_BatchSize br) = Some (batch, k)"
      "1 \<le> batch" "batch * k = rb_SendRate br" "batch * int (Request_Len r) \<le> rb_BatchSize br \<or> batch = 1"
      using BatchSize_spec [of "int (Request_Len r)" "rb_SendRate br" "rb_BatchSize br"] assms(4) by auto
    with False tick [of batch k] assms(2,3) show ?thesis by (auto simp: rate_batch_def)
  qed
qed

text \<open>
  C39. A rate benchmark starts exactly when it has a connection and a batch that divides its rate, and then every
  connection is sent that rate, in batches of at least one request, of as many as were asked for or as fit in the buffer, by
  no more writers than there are connections.
\<close>

theorem BenchRate_init_sends_rate:
  assumes "\<forall>n. length (rnd n) = n"
  shows "case BenchRate_init rnd br of
      Inl e \<Rightarrow> e = NoConnections \<and> rb_Conns br = []
        \<or> (\<exists>be. e = BadBatch be \<and> ValidateBatch (rb_Batch br) (max 1 (rb_SendRate br)) = Some be)
    | Inr br' \<Rightarrow> rb_Conns br' = rb_Conns br \<and> rb_Batch br' = rb_Batch br \<and> rb_SendRate br' = max 1 (rb_SendRate br)
        \<and> ValidateBatch (rb_Batch br) (rb_SendRate br') = None
        \<and> rb_batch br' * rb_tickRate br' = rb_SendRate br' \<and> 1 \<le> rb_batch br' \<and> 1 \<le> rb_tickRate br'
        \<and> 1 \<le> rb_Concurrency br' \<and> rb_Concurrency br' \<le> int (length (rb_Conns br'))
        \<and> int (length (rb_wbuffer br')) = rb_Payload br' \<and> 1 \<le> rb_Payload br'
        \<and> (if 0 < rb_Batch br' then rb_batch br' = rb_Batch br'
           else rb_batch br' = 1 \<or> rb_batch br' * int (Request_Len (the (rb_request br'))) \<le> rb_BatchSize br')"
proof -
  define q where "q = rate_request rnd (rate_load br)"
  have batch: "rb_Batch q = rb_Batch br" "rb_SendRate q = max 1 (rb_SendRate br)"
    by (auto simp: q_def rate_request_def rate_load_def Let_def)
  have conc: "rb_Concurrency (rate_load br) \<le> 0 \<Longrightarrow> rb_Conns br = []"
    by (auto simp: rate_load_def Let_def split: if_splits)
  note q = rate_request_ok [of rnd "rate_load br", folded q_def] rate_load_ok [of br]
  obtain r where r: "rb_request q = Some r" "0 < Request_Len r" using q(6) NewRequest_Len_pos by blast
  show ?thesis
  proof (cases "rb_Concurrency (rate_load br) \<le> 0")
    case True
    with conc show ?thesis by (simp add: BenchRate_init_def)
  next
    case False
    show ?thesis
    proof (cases "ValidateBatch (rb_Batch q) (rb_SendRate q)")
      case (Some be)
      then have "rate_batch q = Inl (BadBatch be)" by (simp add: rate_batch_def)
      with False Some show ?thesis by (simp add: BenchRate_init_def Let_def q_def [symmetric] batch)
    next
      case None
      obtain batch tick where b: "rate_batch q = Inr (batch, tick)" "1 \<le> batch" "batch * tick = rb_SendRate q"
        "if 0 < rb_Batch q then batch = rb_Batch q else (batch = 1 \<or> batch * int (Request_Len r) \<le> rb_BatchSize q)"
        using rate_batch_Inr [OF q(3) None r] by blast
      have "0 < batch * tick" using b(3) q(3) by simp
      with b(2) have "1 \<le> tick" by (simp add: zero_less_mult_iff)
      with False b q(1-5,7-9) r assms None batch show ?thesis by (simp add: BenchRate_init_def Let_def q_def [symmetric])
    qed
  qed
qed

theorem BenchRate_init_sends_rate_witness:
  "case BenchRate_init (\<lambda>n. replicate n 0) ((BenchRate_New ''fib'' 1 ''127.0.0.1'' [0, 1] True :: unit BenchRate)\<lparr>rb_Batch := 5, rb_SendRate := 20\<rparr>) of
     Inl e \<Rightarrow> False
   | Inr br' \<Rightarrow> rb_batch br' * rb_tickRate br' = rb_SendRate br' \<and> rb_batch br' = 5"
proof -
  let ?br = "(BenchRate_New ''fib'' 1 ''127.0.0.1'' [0, 1] True :: unit BenchRate)\<lparr>rb_Batch := 5, rb_SendRate := 20\<rparr>"
  have "ValidateBatch 5 20 = None" by (simp add: ValidateBatch_iff)
  moreover have "rb_Batch ?br = 5" "rb_SendRate ?br = 20" "rb_Conns ?br \<noteq> []" by (simp_all add: BenchRate_New_def)
  ultimately show ?thesis
    using BenchRate_init_sends_rate [of "\<lambda>n. replicate n 0" ?br]
    by (cases "BenchRate_init (\<lambda>n. replicate n 0) ?br") auto
qed

section \<open>Teams and limits\<close>

lemma foldl_teams:
  assumes "0 < n"
  shows "length (connTeams n conns) = n"
    and "t < n \<Longrightarrow> connTeams n conns ! t = map ((!) conns) (filter (\<lambda>i. i mod n = t) [0..<length conns])"
proof -
  have "length (connTeams n conns) = n \<and> (t < n \<longrightarrow>
      connTeams n conns ! t = map ((!) conns) (filter (\<lambda>i. i mod n = t) [0..<length conns]))"
  proof (induction conns rule: rev_induct)
    case Nil
    then show ?case by (simp add: connTeams_def)
  next
    case (snoc c cs)
    have "connTeams n (cs @ [c])
        = (connTeams n cs)[length cs mod n := connTeams n cs ! (length cs mod n) @ [c]]"
      by (simp add: connTeams_def enumerate_append_eq)
    moreover have "map ((!) (cs @ [c])) (filter P [0..<length cs]) = map ((!) cs) (filter P [0..<length cs])" for P
      by (auto simp: nth_append)
    ultimately show ?case using snoc assms by (auto simp: nth_list_update)
  qed
  then show "length (connTeams n conns) = n"
    "t < n \<Longrightarrow> connTeams n conns ! t = map ((!) conns) (filter (\<lambda>i. i mod n = t) [0..<length conns])" by auto
qed

lemma foldl_min: "foldl min x xs = (Min (set (x # xs)) :: int)"
proof (induction xs arbitrary: x)
  case (Cons y ys)
  then show ?case by (cases "ys = []") (auto simp: min.assoc)
qed simp

lemma checkLimits_None:
  assumes "limits \<noteq> []"
  shows "checkLimits limits br = None \<longleftrightarrow> (\<forall>l \<in> set limits. rb_batch br \<le> fst l \<and> rb_Payload br \<le> snd l)"
proof -
  obtain l ls where l: "limits = l # ls" using assms by (cases limits) auto
  have "checkLimits limits br = None \<longleftrightarrow> rb_batch br \<le> Min (fst ` set limits) \<and> rb_Payload br \<le> Min (snd ` set limits)"
  proof -
    have "foldl min (fst (hd limits)) (map fst (tl limits)) = Min (fst ` set limits)"
      "foldl min (snd (hd limits)) (map snd (tl limits)) = Min (snd ` set limits)"
      by (simp_all add: l foldl_min)
    then show ?thesis unfolding checkLimits_def Let_def by (metis not_less option.distinct(1))
  qed
  also have "\<dots> \<longleftrightarrow> (\<forall>l \<in> set limits. rb_batch br \<le> fst l \<and> rb_Payload br \<le> snd l)"
    using assms by auto
  finally show ?thesis .
qed

section \<open>A whole run\<close>

text \<open>The moves count, and change nothing else of a benchmark.\<close>

definition same_settings :: "'m BenchRate \<Rightarrow> 'm BenchRate \<Rightarrow> bool" where
  "same_settings br0 br \<longleftrightarrow>
     br\<lparr>rb_sendTimes := 0, rb_sendBytes := 0, rb_recvTimes := 0, rb_recvBytes := 0, rb_answered := 0\<rparr>
     = br0\<lparr>rb_sendTimes := 0, rb_sendBytes := 0, rb_recvTimes := 0, rb_recvBytes := 0, rb_answered := 0\<rparr>"

lemma same_settings_move: "rate_move teams s t \<Longrightarrow> same_settings br0 (rs_br s) \<Longrightarrow> same_settings br0 (rs_br t)"
proof (induction rule: rate_move.induct)
  case (rate_count t s w s')
  then show ?case by (cases "rs_writers s ! t") (auto simp: same_settings_def Let_def)
next
  case (rate_read s s')
  from rate_read(1) show ?case
  proof (cases rule: read_move.cases)
    case (read_count k r u)
    with rate_read(2) show ?thesis by (cases "rs_readers s ! k") (auto simp: same_settings_def Let_def)
  qed (use rate_read(2) in simp)
qed simp_all

interpretation settings: invariant "\<lambda>s. s = rate_start br0 conns0 teams" "rate_move teams" "\<lambda>s. same_settings br0 (rs_br s)"
  for br0 :: "'m BenchRate" and conns0 teams
  by unfold_locales (auto simp: rate_start_def same_settings_def [of br0 br0] intro: same_settings_move)

lemma same_settings_fields:
  assumes "same_settings br0 br"
  shows "rb_Framework br = rb_Framework br0" and "rb_Conns br = rb_Conns br0" and "rb_Duration br = rb_Duration br0"
    and "rb_Concurrency br = rb_Concurrency br0" and "rb_SendRate br = rb_SendRate br0" and "rb_batch br = rb_batch br0"
    and "rb_Payload br = rb_Payload br0"
  using arg_cong [OF assms [unfolded same_settings_def], of rb_Framework]
    arg_cong [OF assms [unfolded same_settings_def], of rb_Conns] arg_cong [OF assms [unfolded same_settings_def], of rb_Duration]
    arg_cong [OF assms [unfolded same_settings_def], of rb_Concurrency]
    arg_cong [OF assms [unfolded same_settings_def], of rb_SendRate] arg_cong [OF assms [unfolded same_settings_def], of rb_batch]
    arg_cong [OF assms [unfolded same_settings_def], of rb_Payload]
  by simp_all

lemma BenchRate_init_fresh:
  assumes "BenchRate_init rnd br = Inr br'"
  shows "1 \<le> rb_batch br'" and "1 \<le> rb_tickRate br'" and "rb_Conns br' = rb_Conns br"
    and "rb_sendTimes br' = rb_sendTimes br" and "rb_sendBytes br' = rb_sendBytes br" and "rb_recvTimes br' = rb_recvTimes br"
    and "rb_recvBytes br' = rb_recvBytes br" and "rb_answered br' = rb_answered br" and "rb_Framework br' = rb_Framework br"
proof -
  define q where "q = rate_request rnd (rate_load br)"
  have q: "rb_Conns q = rb_Conns br" "rb_sendTimes q = rb_sendTimes br" "rb_sendBytes q = rb_sendBytes br"
    "rb_recvTimes q = rb_recvTimes br" "rb_recvBytes q = rb_recvBytes br" "rb_answered q = rb_answered br"
    "rb_Framework q = rb_Framework br"
    by (simp_all add: q_def rate_request_def rate_load_def Let_def)
  from assms obtain batch tick where b: "rate_batch q = Inr (batch, tick)"
    and br': "br' = (let br = q\<lparr>rb_batch := batch, rb_tickRate := tick\<rparr>;
                         br = (if rb_PsInterval br \<le> 0 then br\<lparr>rb_PsInterval := second\<rparr> else br)
                     in if rb_SendLimit br > 0 then br\<lparr>rb_limited := True\<rparr> else br)"
    by (auto simp: BenchRate_init_def Let_def q_def [symmetric] split: if_splits sum.splits prod.splits)
  have "1 \<le> batch" "1 \<le> tick"
    using b by (auto simp: rate_batch_def split: option.splits if_splits prod.splits)
  then show "1 \<le> rb_batch br'" "1 \<le> rb_tickRate br'" "rb_Conns br' = rb_Conns br" "rb_sendTimes br' = rb_sendTimes br"
    "rb_sendBytes br' = rb_sendBytes br" "rb_recvTimes br' = rb_recvTimes br" "rb_recvBytes br' = rb_recvBytes br"
    "rb_answered br' = rb_answered br" "rb_Framework br' = rb_Framework br"
    by (simp_all add: br' q Let_def)
qed

lemma BenchRate_init_Payload: "BenchRate_init rnd br = Inr br' \<Longrightarrow> 1 \<le> rb_Payload br'"
  using rate_request_ok(4) [of rnd "rate_load br"]
  by (auto simp: BenchRate_init_def Let_def split: if_splits sum.splits prod.splits)

lemma BenchRate_Run_Inr:
  assumes "BenchRate_Run rnd broken redialed limits go br = Inr br'"
  obtains br1 conns seen grace i where "BenchRate_init rnd br = Inr br1" "conns = live_conns broken redialed br1" "conns \<noteq> []"
    "checkLimits (map (\<lambda>c. limits (rc_conn c)) conns) br1 = None" "0 < second sdiv rb_tickRate br1"
    "go br1 conns = (seen, grace)" "i = grace_wait seen 0 grace" "br' = BenchRate_clean (snapshot (seen (i + 1)) (seen (i + 2)))"
  using assms by (auto simp: BenchRate_Run_def Let_def split: sum.splits if_splits option.splits prod.splits)

text \<open>What the readers do after the writers are done: nothing is sent any more, and what has come only grows.\<close>

lemma read_move_grows:
  assumes "read_move s t" and "recv_inv br0 s" and "0 \<le> rb_Payload br0"
  shows "rs_writers t = rs_writers s \<and> rb_recvTimes (rs_br s) \<le> rb_recvTimes (rs_br t)
    \<and> rb_recvBytes (rs_br s) \<le> rb_recvBytes (rs_br t) \<and> rb_answered (rs_br s) \<le> rb_answered (rs_br t)"
  using assms(1)
proof (cases rule: read_move.cases)
  case (read_count k r u)
  have "due_payload (rb_Payload br0) (rs_readers s ! k)"
    using assms(2) read_count(2) by (auto simp: recv_inv_def Let_def list_all_length)
  with read_count assms(3) show ?thesis by (cases "rs_readers s ! k") (auto simp: Let_def)
qed simp

lemma reads_reach: "read_move\<^sup>*\<^sup>* s t \<Longrightarrow> rate_steps br0 conns0 teams s \<Longrightarrow> rate_steps br0 conns0 teams t"
proof (induction rule: rtranclp_induct)
  case (step t u)
  then have "rate_steps br0 conns0 teams t" by blast
  then show ?case using rate_read [OF step.hyps(2)] by (rule reach_move)
qed

lemma reads_grow:
  assumes "read_move\<^sup>*\<^sup>* s t" and "rate_steps br0 conns0 teams s" and "rate_fresh br0 conns0" and "0 \<le> rb_Payload br0"
  shows "rs_writers t = rs_writers s \<and> rb_recvTimes (rs_br s) \<le> rb_recvTimes (rs_br t)
    \<and> rb_recvBytes (rs_br s) \<le> rb_recvBytes (rs_br t) \<and> rb_answered (rs_br s) \<le> rb_answered (rs_br t)"
  using assms(1)
proof (induction rule: rtranclp_induct)
  case (step t u)
  have "recv_inv br0 t" using rate_reach_inv(3) [OF reads_reach [OF step.hyps(1) assms(2)] assms(3)] .
  from read_move_grows [OF step.hyps(2) this assms(4)] step.IH show ?case by auto
qed simp

text \<open>The states the looks of a run see, and what the first one has in common with the others.\<close>

lemma rate_ran_reach:
  assumes "rate_ran go br conns"
  obtains run where "\<And>i. rate_steps br conns (nat (rb_Concurrency br)) (run i)" "\<And>i. fst (go br conns) i = rs_br (run i)"
    "list_all (\<lambda>w. w = Idle) (rs_writers (run 0))" "\<And>i j. i \<le> j \<Longrightarrow> read_move\<^sup>*\<^sup>* (run i) (run j)"
proof -
  from assms obtain run where run: "rate_steps br conns (nat (rb_Concurrency br)) (run 0)" "list_all (\<lambda>w. w = Idle) (rs_writers (run 0))"
    "\<And>i. read_move\<^sup>*\<^sup>* (run i) (run (Suc i))" "\<And>i. fst (go br conns) i = rs_br (run i)" by (auto simp: rate_ran_def)
  have le: "read_move\<^sup>*\<^sup>* (run i) (run j)" if "i \<le> j" for i j
    using that run(3) by (induction rule: dec_induct) (auto intro: rtranclp_trans)
  have "rate_steps br conns (nat (rb_Concurrency br)) (run i)" for i using reads_reach [OF le run(1)] by simp
  then show ?thesis using run(4,2) le by (rule that)
qed

lemma BenchRate_Run_Framework:
  assumes "BenchRate_Run rnd broken redialed limits go br = Inr br'"
    and "\<forall>br1. BenchRate_init rnd br = Inr br1 \<longrightarrow> rate_ran go br1 (live_conns broken redialed br1)"
  shows "rb_Framework br' = rb_Framework br"
proof -
  from assms(1) obtain br1 conns seen grace i where br1: "BenchRate_init rnd br = Inr br1" "conns = live_conns broken redialed br1"
    and go: "go br1 conns = (seen, grace)" and br': "br' = BenchRate_clean (snapshot (seen (i + 1)) (seen (i + 2)))"
    by (rule BenchRate_Run_Inr)
  obtain run where run: "\<And>i. rate_steps br1 conns (nat (rb_Concurrency br1)) (run i)" "\<And>i. seen i = rs_br (run i)"
    "list_all (\<lambda>w. w = Idle) (rs_writers (run 0))" "\<And>i j. i \<le> j \<Longrightarrow> read_move\<^sup>*\<^sup>* (run i) (run j)"
    using assms(2) br1 go rate_ran_reach [of go br1 conns] by auto
  have "rb_Framework (seen (i + 2)) = rb_Framework br1"
    using same_settings_fields(1) settings.inv_reach [OF run(1)] unfolding run(2) by blast
  then show ?thesis
    using BenchRate_init_fresh(9) [OF br1(1)] by (simp add: br' BenchRate_clean_def snapshot_def)
qed

text \<open>Nothing counted yet, as \<^verbatim>\<open>New\<close> leaves it.\<close>

definition uncounted :: "'m BenchRate \<Rightarrow> bool" where
  "uncounted br \<longleftrightarrow> rb_sendTimes br = 0 \<and> rb_sendBytes br = 0 \<and> rb_recvTimes br = 0 \<and> rb_recvBytes br = 0 \<and> rb_answered br = 0"

lemma bytes_due_bound: "0 \<le> total bytes_due rs" "total bytes_due rs \<le> int (length rs)"
proof -
  have "0 \<le> bytes_due r \<and> bytes_due r \<le> 1" for r by (cases r) simp_all
  then show "0 \<le> total bytes_due rs" "total bytes_due rs \<le> int (length rs)"
    by (induction rs) (auto intro: add_mono simp: add_nonneg_nonneg)
qed

lemma times_due_nonneg: "0 \<le> total times_due rs"
proof (induction rs)
  case (Cons r rs)
  then show ?case by (cases r) simp_all
qed simp

lemma idle_writers: "list_all (\<lambda>w. w = Idle) ws \<Longrightarrow> total sent_ahead ws = 0 \<and> total bytes_behind ws = 0"
  by (induction ws) simp_all

text \<open>The counters as they are loaded after the writers are done, the bytes after the times.\<close>

lemma loaded_counters:
  fixes run :: "nat \<Rightarrow> 'm rate_state"
  assumes run: "\<And>i. rate_steps br1 conns teams (run i)" and fresh: "rate_fresh br1 conns" and pay: "0 \<le> rb_Payload br1"
    and idle: "list_all (\<lambda>w. w = Idle) (rs_writers (run 0))" and le: "\<And>i j. i \<le> j \<Longrightarrow> read_move\<^sup>*\<^sup>* (run i) (run j)"
  shows "rb_batch br1 dvd rb_sendTimes (rs_br (run j))" and "rb_sendBytes (rs_br (run j)) = rb_sendTimes (rs_br (run j)) * rb_Payload br1"
    and "0 \<le> rb_recvTimes (rs_br (run i))" and "i \<le> j \<Longrightarrow> rb_recvTimes (rs_br (run i)) \<le> rb_answered (rs_br (run j))"
    and "rb_Payload br1 dvd rb_recvBytes (rs_br (run j))"
    and "i \<le> j \<Longrightarrow> (rb_recvTimes (rs_br (run i)) - int (length conns)) * rb_Payload br1 \<le> rb_recvBytes (rs_br (run j))"
    and "rb_recvBytes (rs_br (run j)) \<le> rb_answered (rs_br (run j)) * rb_Payload br1"
proof -
  note inv = rate_reach_inv [OF run fresh]
  have "rs_writers (run j) = rs_writers (run 0)" using reads_grow [OF le run fresh pay, of 0 j] by simp
  then have none: "total sent_ahead (rs_writers (run j)) = 0" "total bytes_behind (rs_writers (run j)) = 0"
    using idle_writers [OF idle] by simp_all
  show "rb_batch br1 dvd rb_sendTimes (rs_br (run j))" "rb_sendBytes (rs_br (run j)) = rb_sendTimes (rs_br (run j)) * rb_Payload br1"
    using inv(2) [of j] none by (simp_all add: send_inv_def Let_def)
  have r: "0 \<le> rb_recvTimes (rs_br (run i))" "rb_recvTimes (rs_br (run i)) \<le> rb_answered (rs_br (run i))"
    "rb_recvBytes (rs_br (run i)) = (rb_recvTimes (rs_br (run i)) - total bytes_due (rs_readers (run i))) * rb_Payload br1"
    "length (rs_readers (run i)) = length conns" for i
    using inv(1,3) [of i] times_due_nonneg [of "rs_readers (run i)"] by (auto simp: recv_inv_def flight_inv_def Let_def)
  show "0 \<le> rb_recvTimes (rs_br (run i))" "rb_Payload br1 dvd rb_recvBytes (rs_br (run j))" using r by simp_all
  show "rb_recvBytes (rs_br (run j)) \<le> rb_answered (rs_br (run j)) * rb_Payload br1"
    unfolding r(3) using bytes_due_bound(1) [of "rs_readers (run j)"] r(2) [of j] pay by (intro mult_right_mono) auto
  assume "i \<le> j"
  note grow = reads_grow [OF le [OF this] run fresh pay]
  show "rb_recvTimes (rs_br (run i)) \<le> rb_answered (rs_br (run j))" using grow r(2) [of i] by simp
  have "(rb_recvTimes (rs_br (run i)) - int (length conns)) * rb_Payload br1 \<le> rb_recvBytes (rs_br (run i))"
    unfolding r(3) using bytes_due_bound(2) [of "rs_readers (run i)"] r(4) [of i] pay by (intro mult_right_mono) auto
  then show "(rb_recvTimes (rs_br (run i)) - int (length conns)) * rb_Payload br1 \<le> rb_recvBytes (rs_br (run j))" using grow by linarith
qed

text \<open>
  C24. The report of a rate benchmark that ran to its end, whatever the readers were counting meanwhile: it counts whole batches sent,
  with the payload's bytes for each request; the answers it counts are among those that had come, and their bytes are whole
  payloads, short of what the answers counted make by at most one for each connection it ran on, whose reader was between the two
  counters; and no connection it ran on allowed fewer streams than a batch or a smaller stream window than the payload.
\<close>

theorem rate_run_report:
  assumes run: "BenchRate_Run rnd broken redialed limits go br = Inr br'" and "uncounted br"
    and go: "\<forall>br1. BenchRate_init rnd br = Inr br1 \<longrightarrow> rate_ran go br1 (live_conns broken redialed br1)"
    and R: "R = BenchRate_Report ps br'"
  shows "br_Batch R dvd br_SendTimes R \<and> br_SendBytes R = br_SendTimes R * br_Payload R
    \<and> 0 \<le> br_RecvTimes R \<and> br_RecvTimes R \<le> rb_answered br'
    \<and> br_Payload R dvd br_RecvBytes R \<and> br_RecvBytes R \<le> rb_answered br' * br_Payload R
    \<and> (br_RecvTimes R - int (length (filter (\<lambda>c. \<not> broken c \<or> redialed c) (rb_Conns br)))) * br_Payload R \<le> br_RecvBytes R
    \<and> (\<forall>c \<in> set (rb_Conns br). \<not> broken c \<or> redialed c \<longrightarrow> br_Batch R \<le> fst (limits c) \<and> br_Payload R \<le> snd (limits c))"
proof -
  from run obtain br1 conns seen grace i where br1: "BenchRate_init rnd br = Inr br1" "conns = live_conns broken redialed br1" "conns \<noteq> []"
    "checkLimits (map (\<lambda>c. limits (rc_conn c)) conns) br1 = None"
    and seen: "go br1 conns = (seen, grace)" and br': "br' = BenchRate_clean (snapshot (seen (i + 1)) (seen (i + 2)))"
    by (rule BenchRate_Run_Inr)
  note init = BenchRate_init_fresh [OF br1(1)]
  obtain run where run: "\<And>i. rate_steps br1 conns (nat (rb_Concurrency br1)) (run i)" "\<And>i. seen i = rs_br (run i)"
    "list_all (\<lambda>w. w = Idle) (rs_writers (run 0))" "\<And>i j. i \<le> j \<Longrightarrow> read_move\<^sup>*\<^sup>* (run i) (run j)"
    using go br1(1,2) seen rate_ran_reach [of go br1 conns] by auto
  have fresh: "rate_fresh br1 conns" and pay: "0 \<le> rb_Payload br1"
    using init assms(2) BenchRate_init_Payload [OF br1(1)]
    by (simp_all add: rate_fresh_def uncounted_def br1(2) live_conns_def list_all_iff)
  note counts = loaded_counters [where run = run, OF run(1) fresh pay run(3,4)] and same = settings.inv_reach [OF run(1), of "i + 2"]
  have lim: "\<forall>c \<in> set (rb_Conns br). \<not> broken c \<or> redialed c \<longrightarrow> rb_batch br1 \<le> fst (limits c) \<and> rb_Payload br1 \<le> snd (limits c)"
    using br1(3,4) checkLimits_None [of "map (\<lambda>c. limits (rc_conn c)) conns" br1] init(3) by (auto simp: br1(2) live_conns_def)
  have rep: "br_Batch R = rb_batch br1" "br_Payload R = rb_Payload br1"
    "br_SendTimes R = rb_sendTimes (seen (i + 2))" "br_SendBytes R = rb_sendBytes (seen (i + 2))"
    "br_RecvTimes R = rb_recvTimes (seen (i + 1))" "br_RecvBytes R = rb_recvBytes (seen (i + 2))"
    using same_settings_fields(6,7) [OF same] unfolding R run(2)
    by (cases ps; simp add: BenchRate_Report_def Let_def br_SetPprofData_def br' BenchRate_clean_def snapshot_def create_BenchRate_def run(2))+
  have "rb_answered br' = rb_answered (seen (i + 2))" "length (filter (\<lambda>c. \<not> broken c \<or> redialed c) (rb_Conns br)) = length conns"
    using init(3) by (simp_all add: br' BenchRate_clean_def snapshot_def br1(2) live_conns_def)
  then show ?thesis
    using lim counts(1,2,5,7) [of "i + 2"] counts(3) [of "i + 1"] counts(4,6) [of "i + 1" "i + 2"] unfolding rep run(2) by simp
qed

text \<open>
  One connection, which one batch is written to. When the counters are loaded its reader has counted an answer, but not yet
  its bytes.
\<close>

definition one_conn :: "int \<Rightarrow> int \<Rightarrow> rconn list" where
  "one_conn sendCnt recvCnt = [\<lparr>rc_conn = 0, rc_sendCnt = sendCnt, rc_recvCnt = recvCnt\<rparr>]"

definition sample_sent :: "unit BenchRate \<Rightarrow> unit BenchRate" where
  "sample_sent br = br\<lparr>rb_sendTimes := rb_sendTimes br + rb_batch br, rb_sendBytes := rb_sendBytes br + rb_batch br * rb_Payload br\<rparr>"

lemma sample_sent:
  assumes "1 \<le> rb_batch br"
  shows "rate_steps br (one_conn 0 0) 1
    \<lparr>rs_br = sample_sent br, rs_conns = one_conn (rb_batch br) 0, rs_writers = [Idle], rs_readers = [Waiting]\<rparr>"
proof -
  let ?reach = "rate_steps br (one_conn 0 0) 1"
  let ?at = "\<lambda>br c w. \<lparr>rs_br = br, rs_conns = one_conn c 0, rs_writers = [w], rs_readers = [Waiting]\<rparr>"
  let ?timed = "br\<lparr>rb_sendTimes := rb_sendTimes br + rb_batch br\<rparr>"
  have "?reach (?at br 0 Idle)" by (rule reach_start) (simp add: rate_start_def one_conn_def)
  moreover have "rate_move 1 (?at br 0 Idle) (?at br 0 (WriteNext 0))"
    using rate_check [of 0 1 "?at br 0 Idle" 0] assms by (simp add: one_conn_def doOnce_skips_def maxBatchesInFlight_def)
  ultimately have "?reach (?at br 0 (WriteNext 0))" by (rule reach_move)
  moreover have "rate_move 1 (?at br 0 (WriteNext 0)) (?at br 0 (SendTimesNext 0 (rb_batch br)))"
    using rate_write [of 0 1 "?at br 0 (WriteNext 0)" 0 "(rb_batch br, None)"] assms by (simp add: batch_outcome_def doOnce_wrote_def)
  ultimately have "?reach (?at br 0 (SendTimesNext 0 (rb_batch br)))" by (rule reach_move)
  moreover have "rate_move 1 (?at br 0 (SendTimesNext 0 (rb_batch br))) (?at ?timed 0 (SendBytesNext 0 (rb_batch br)))"
    using rate_count [of 0 1 "?at br 0 (SendTimesNext 0 (rb_batch br))"] by simp
  ultimately have "?reach (?at ?timed 0 (SendBytesNext 0 (rb_batch br)))" by (rule reach_move)
  moreover have "rate_move 1 (?at ?timed 0 (SendBytesNext 0 (rb_batch br))) (?at (sample_sent br) 0 (SendCntNext 0 (rb_batch br)))"
    using rate_count [of 0 1 "?at ?timed 0 (SendBytesNext 0 (rb_batch br))"] by (simp add: sample_sent_def)
  ultimately have "?reach (?at (sample_sent br) 0 (SendCntNext 0 (rb_batch br)))" by (rule reach_move)
  moreover have "rate_move 1 (?at (sample_sent br) 0 (SendCntNext 0 (rb_batch br))) (?at (sample_sent br) (rb_batch br) Idle)"
    using rate_count [of 0 1 "?at (sample_sent br) 0 (SendCntNext 0 (rb_batch br))"] by (simp add: one_conn_def)
  ultimately show ?thesis by (rule reach_move)
qed

definition sample_torn :: "unit BenchRate \<Rightarrow> unit BenchRate" where
  "sample_torn br = (sample_sent br)\<lparr>rb_answered := rb_answered br + 1, rb_recvTimes := rb_recvTimes br + 1\<rparr>"

lemma sample_torn:
  assumes "1 \<le> rb_batch br" and "counts br res"
  shows "rate_steps br (one_conn 0 0) 1
    \<lparr>rs_br = sample_torn br, rs_conns = one_conn (rb_batch br) 1, rs_writers = [Idle], rs_readers = [RecvBytesNext res]\<rparr>"
proof -
  let ?reach = "rate_steps br (one_conn 0 0) 1"
  let ?at = "\<lambda>br' c r. \<lparr>rs_br = br', rs_conns = one_conn (rb_batch br) c, rs_writers = [Idle], rs_readers = [r]\<rparr>"
  let ?sent = "sample_sent br"
  let ?told = "?sent\<lparr>rb_answered := rb_answered ?sent + 1\<rparr>"
  have "?reach (?at ?sent 0 Waiting)" using sample_sent [OF assms(1)] .
  moreover have "read_move (?at ?sent 0 Waiting) (?at ?sent 0 (RecvCntNext res))"
    using read_result [of 0 "?at ?sent 0 Waiting" res] by simp
  then have "rate_move 1 (?at ?sent 0 Waiting) (?at ?sent 0 (RecvCntNext res))" by (rule rate_read)
  ultimately have "?reach (?at ?sent 0 (RecvCntNext res))" by (rule reach_move)
  moreover have "read_move (?at ?sent 0 (RecvCntNext res)) (?at ?sent 1 (AnsweredNext res))"
    using read_count [of 0 "?at ?sent 0 (RecvCntNext res)"] by (simp add: one_conn_def)
  then have "rate_move 1 (?at ?sent 0 (RecvCntNext res)) (?at ?sent 1 (AnsweredNext res))" by (rule rate_read)
  ultimately have "?reach (?at ?sent 1 (AnsweredNext res))" by (rule reach_move)
  moreover have "read_move (?at ?sent 1 (AnsweredNext res)) (?at ?told 1 (RecvTimesNext res))"
    using read_count [of 0 "?at ?sent 1 (AnsweredNext res)"] assms(2) by (simp add: counts_def sample_sent_def)
  then have "rate_move 1 (?at ?sent 1 (AnsweredNext res)) (?at ?told 1 (RecvTimesNext res))" by (rule rate_read)
  ultimately have "?reach (?at ?told 1 (RecvTimesNext res))" by (rule reach_move)
  moreover have "read_move (?at ?told 1 (RecvTimesNext res)) (?at (sample_torn br) 1 (RecvBytesNext res))"
    using read_count [of 0 "?at ?told 1 (RecvTimesNext res)"] by (simp add: sample_torn_def sample_sent_def)
  then have "rate_move 1 (?at ?told 1 (RecvTimesNext res)) (?at (sample_torn br) 1 (RecvBytesNext res))" by (rule rate_read)
  ultimately show ?thesis by (rule reach_move)
qed

theorem rate_run_report_witness:
  "\<exists>br'. BenchRate_Run (\<lambda>n. replicate n 0) (\<lambda>c. False) (\<lambda>c. False) (\<lambda>c. (100, 65535)) (\<lambda>br conns. (\<lambda>i. sample_torn br, 3))
      ((BenchRate_New ''fib'' 1 ''127.0.0.1'' [0] True :: unit BenchRate)\<lparr>rb_Batch := 5, rb_SendRate := 20\<rparr>) = Inr br'
    \<and> br_Batch (BenchRate_Report None br') dvd br_SendTimes (BenchRate_Report None br')
    \<and> br_RecvTimes (BenchRate_Report None br') = 1 \<and> br_RecvBytes (BenchRate_Report None br') = 0"
proof -
  let ?br = "(BenchRate_New ''fib'' 1 ''127.0.0.1'' [0] True :: unit BenchRate)\<lparr>rb_Batch := 5, rb_SendRate := 20\<rparr>"
  let ?rnd = "\<lambda>n. replicate n 0" and ?go = "\<lambda>br conns. (\<lambda>i::nat. sample_torn br, 3::nat)"
  have "ValidateBatch 5 20 = None" by (simp add: ValidateBatch_iff)
  then obtain br1 where br1: "BenchRate_init ?rnd ?br = Inr br1" "rb_batch br1 = 5" "rb_Payload br1 = 1024" "rb_Concurrency br1 = 1"
    "rb_tickRate br1 = 4" "rb_recvTimes br1 = 0" "rb_recvBytes br1 = 0"
    by (simp add: BenchRate_init_def rate_load_def rate_request_def rate_batch_def BenchRate_New_def Let_def)
  have conns: "live_conns (\<lambda>c. False) (\<lambda>c. False) br1 = one_conn 0 0"
    using BenchRate_init_fresh(3) [OF br1(1)] by (simp add: live_conns_def BenchRate_New_def one_conn_def)
  have "checkLimits [(100, 65535)] br1 = None" using br1 by (simp add: checkLimits_def)
  then have run: "BenchRate_Run ?rnd (\<lambda>c. False) (\<lambda>c. False) (\<lambda>c. (100, 65535)) ?go ?br
      = Inr (BenchRate_clean (snapshot (sample_torn br1) (sample_torn br1)))"
    using br1 conns by (simp add: BenchRate_Run_def one_conn_def second_def)
  have "counts br1 \<lparr>res_Status = 200, res_Body = rb_wbuffer br1, res_N = 1024, res_Err = None\<rparr>" using br1(3) by (simp add: counts_def)
  from sample_torn [OF _ this] br1(2) obtain s where s: "rate_steps br1 (one_conn 0 0) 1 s" "rs_br s = sample_torn br1" "rs_writers s = [Idle]"
    by auto
  have "rate_ran ?go br1 (live_conns (\<lambda>c. False) (\<lambda>c. False) br1)"
    unfolding rate_ran_def conns br1(4) by (rule exI [of _ "\<lambda>i. s"]) (use s in simp)
  moreover have "uncounted ?br" by (simp add: uncounted_def BenchRate_New_def)
  ultimately have "br_Batch (BenchRate_Report None (BenchRate_clean (snapshot (sample_torn br1) (sample_torn br1))))
      dvd br_SendTimes (BenchRate_Report None (BenchRate_clean (snapshot (sample_torn br1) (sample_torn br1))))"
    using rate_run_report [OF run, of "BenchRate_Report None (BenchRate_clean (snapshot (sample_torn br1) (sample_torn br1)))" None] br1(1)
    by auto
  with run br1 show ?thesis
    by (simp add: BenchRate_Report_def Let_def br_SetPprofData_def BenchRate_clean_def snapshot_def sample_torn_def sample_sent_def)
qed

end
