(* ===== verification/Server.thy ===== *)
theory Server
  imports Config
begin

text \<open>
  What the benchmark servers share (\<^verbatim>\<open>frameworks/handlers.go\<close>, \<^verbatim>\<open>frameworks/frameworks.go\<close>) and the
  echo handlers written on it (\<^verbatim>\<open>frameworks/*/server.go\<close>). The servers as programs are in the theory \<open>ServerMain\<close>.

  A request body is read as a list of the chunks that arrive, followed by the end of the body or an error, which may come
  with the last chunk; a read takes from the first chunk what its buffer has room for. A pooled buffer is its
  capacity. What the frameworks do around the handlers is not in this repository.
\<close>

section \<open>Reading\<close>

datatype read_error = EOF | UnexpectedEOF | ReadFailed string

record reader =
  rd_chunks :: "bytes list"
  rd_end :: read_error
  rd_eager :: bool \<comment> \<open>the end is reported with the last chunk rather than after it\<close>

text \<open>\<^verbatim>\<open>Read\<close> into a buffer of \<open>k\<close> bytes: what was read, the error, and the reader after it.\<close>

definition rd_Read :: "nat \<Rightarrow> reader \<Rightarrow> bytes \<times> read_error option \<times> reader" where
  "rd_Read k r =
     (case rd_chunks r of
        [] \<Rightarrow> ([], Some (rd_end r), r)
      | c # cs \<Rightarrow>
          if length c \<le> k
          then (c, if cs = [] \<and> rd_eager r then Some (rd_end r) else None, r\<lparr>rd_chunks := cs\<rparr>)
          else (take k c, None, r\<lparr>rd_chunks := drop k c # cs\<rparr>))"

definition rd_size :: "reader \<Rightarrow> nat" where
  "rd_size r = length (concat (rd_chunks r)) + length (rd_chunks r)"

lemma rd_Read_size: "(bs, None, r') = rd_Read k r \<Longrightarrow> 0 < k \<Longrightarrow> rd_size r' < rd_size r"
  by (auto simp: rd_Read_def rd_size_def split: list.splits if_splits)

lemma rd_Read_len: "rd_Read k r = (bs, e, r') \<Longrightarrow> length bs \<le> k"
  by (auto simp: rd_Read_def split: list.splits if_splits)

text \<open>\<^verbatim>\<open>io.ReadFull\<close> of \<open>n\<close> bytes, \<open>got\<close> of them read.\<close>

function ReadFull :: "nat \<Rightarrow> bytes \<Rightarrow> reader \<Rightarrow> bytes \<times> read_error option" where
  "ReadFull n got r =
     (if n \<le> length got then (got, None)
      else case rd_Read (n - length got) r of
             (bs, None, r') \<Rightarrow> ReadFull n (got @ bs) r'
           | (bs, Some e, r') \<Rightarrow>
               (if n \<le> length (got @ bs) then (got @ bs, None)
                else (got @ bs, Some (if e = EOF \<and> got @ bs \<noteq> [] then UnexpectedEOF else e))))"
  by pat_completeness auto
termination
  by (relation "measure (\<lambda>(n, got, r). rd_size r)") (auto dest: rd_Read_size)

declare ReadFull.simps [simp del]

text \<open>
  The loop of \<^verbatim>\<open>ReadBody\<close> for a body of unknown length: a full buffer grows as \<^verbatim>\<open>append\<close> makes it grow, by
  at least a byte. The data, the capacity, and the error.
\<close>

function ReadBody_loop :: "(nat \<Rightarrow> nat) \<Rightarrow> bytes \<Rightarrow> nat \<Rightarrow> reader \<Rightarrow> bytes \<times> nat \<times> read_error option" where
  "ReadBody_loop grow buf c r =
     (let c = (if c \<le> length buf then max (grow (length buf)) (length buf + 1) else c)
      in case rd_Read (c - length buf) r of
           (bs, None, r') \<Rightarrow> ReadBody_loop grow (buf @ bs) c r'
         | (bs, Some e, r') \<Rightarrow> (buf @ bs, c, if e = EOF then None else Some e))"
  by pat_completeness auto
termination
proof (relation "measure (\<lambda>(grow, buf, c, r). rd_size r)")
  fix grow :: "nat \<Rightarrow> nat" and buf :: bytes and c x bs y e and r r' :: reader
  assume "x = (if c \<le> length buf then max (grow (length buf)) (length buf + 1) else c)"
    and "(bs, y) = rd_Read (x - length buf) r" "(e, r') = y" "e = None"
  then have "(bs, None, r') = rd_Read (x - length buf) r" "0 < x - length buf" by auto
  then show "((grow, buf @ bs, x, r'), grow, buf, c, r) \<in> measure (\<lambda>(grow, buf, c, r). rd_size r)"
    using rd_Read_size by simp
qed simp

declare ReadBody_loop.simps [simp del]

section \<open>Bodies\<close>

text \<open>\<^verbatim>\<open>BodyPool\<close>: the capacities of the buffers in it; one is made for \<^verbatim>\<open>-b\<close> when it is empty.\<close>

definition BodyPool_Get :: "nat \<Rightarrow> nat list \<Rightarrow> nat \<times> nat list" where
  "BodyPool_Get payload pool = (case pool of [] \<Rightarrow> (payload, []) | c # cs \<Rightarrow> (c, cs))"

definition BodyPool_Put :: "nat \<Rightarrow> nat list \<Rightarrow> nat list" where
  "BodyPool_Put c pool = c # pool"

text \<open>\<^verbatim>\<open>ReadBody\<close> into a buffer of capacity \<open>c\<close>: the data, the capacity of the buffer to put back, and the error.\<close>

definition ReadBody :: "(nat \<Rightarrow> nat) \<Rightarrow> nat \<Rightarrow> reader \<Rightarrow> int \<Rightarrow> bytes \<times> nat \<times> read_error option" where
  "ReadBody grow c body contentLength =
     (if contentLength \<ge> 0
      then let c = (if int c < contentLength then nat contentLength else c);
               (got, e) = ReadFull (nat contentLength) [] body
           in (got @ replicate (nat contentLength - length got) 0, c, e)
      else ReadBody_loop grow [] c body)"

record response =
  rsp_status :: int
  rsp_type :: string
  rsp_length :: "string option" \<comment> \<open>the \<^verbatim>\<open>Content-Length\<close> the handler sets\<close>
  rsp_body :: bytes

definition octets :: string where "octets = ''application/octet-stream''"

text \<open>
  The handlers: \<^verbatim>\<open>OnEcho\<close>, gin's, echo's and beego's differ in the call an error or a body is answered with; each puts its buffer
  back whatever happened. \<open>msg\<close> is the error's text, and \<open>stringType\<close> the type of a text answer of gin or echo.
\<close>

definition echo_with ::
  "string \<Rightarrow> (nat \<Rightarrow> nat) \<Rightarrow> nat \<Rightarrow> (read_error \<Rightarrow> string) \<Rightarrow> reader \<Rightarrow> int \<Rightarrow> nat list \<Rightarrow> response \<times> nat list" where
  "echo_with errType grow payload msg body contentLength pool =
     (let (c, pool) = BodyPool_Get payload pool;
          (data, c, e) = ReadBody grow c body contentLength;
          pool = BodyPool_Put c pool
      in case e of
           Some x \<Rightarrow> (\<lparr>rsp_status = 400, rsp_type = errType, rsp_length = None, rsp_body = bytes_of (msg x)\<rparr>, pool)
         | None \<Rightarrow> (\<lparr>rsp_status = 200, rsp_type = octets, rsp_length = Some (itoa (int (length data))), rsp_body = data\<rparr>, pool))"

definition OnEcho :: "(nat \<Rightarrow> nat) \<Rightarrow> nat \<Rightarrow> (read_error \<Rightarrow> string) \<Rightarrow> reader \<Rightarrow> int \<Rightarrow> nat list \<Rightarrow> response \<times> nat list" where
  "OnEcho grow payload msg = echo_with ''text/plain; charset=utf-8'' grow payload (\<lambda>e. msg e @ [CHR 0x0A])"

definition gin_onEcho :: "string \<Rightarrow> (nat \<Rightarrow> nat) \<Rightarrow> nat \<Rightarrow> (read_error \<Rightarrow> string) \<Rightarrow> reader \<Rightarrow> int \<Rightarrow> nat list \<Rightarrow> response \<times> nat list" where
  "gin_onEcho stringType grow payload msg = echo_with stringType grow payload msg"

definition echo_onEcho :: "string \<Rightarrow> (nat \<Rightarrow> nat) \<Rightarrow> nat \<Rightarrow> (read_error \<Rightarrow> string) \<Rightarrow> reader \<Rightarrow> int \<Rightarrow> nat list \<Rightarrow> response \<times> nat list" where
  "echo_onEcho stringType grow payload msg = echo_with stringType grow payload msg"

definition beego_onEcho :: "(nat \<Rightarrow> nat) \<Rightarrow> nat \<Rightarrow> (read_error \<Rightarrow> string) \<Rightarrow> reader \<Rightarrow> int \<Rightarrow> nat list \<Rightarrow> response \<times> nat list" where
  "beego_onEcho grow payload msg = echo_with ''text/plain; charset=utf-8'' grow payload (\<lambda>e. msg e @ [CHR 0x0A])"

text \<open>fib's handler routes as well; \<^verbatim>\<open>Respond\<close> adds the content length itself.\<close>

definition fib_onRequest ::
  "(nat \<Rightarrow> nat) \<Rightarrow> nat \<Rightarrow> (read_error \<Rightarrow> string) \<Rightarrow> string \<Rightarrow> reader \<Rightarrow> int \<Rightarrow> nat list \<Rightarrow> response \<times> nat list" where
  "fib_onRequest grow payload msg path body contentLength pool =
     (if path \<noteq> EchoPath
      then (\<lparr>rsp_status = 404, rsp_type = ''text/plain; charset=utf-8'', rsp_length = None,
             rsp_body = bytes_of (''404 page not found'' @ [CHR 0x0A])\<rparr>, pool)
      else echo_with ''text/plain; charset=utf-8'' grow payload msg body contentLength pool)"

text \<open>hertz has read the body itself.\<close>

definition hertz_onEcho :: "bytes \<Rightarrow> response" where
  "hertz_onEcho body =
     \<lparr>rsp_status = 200, rsp_type = octets, rsp_length = Some (itoa (int (length body))), rsp_body = body\<rparr>"

section \<open>The control server\<close>

text \<open>\<^verbatim>\<open>/init\<close>: the samplers started so far, each with its interval. A body that is no JSON leaves the interval 0.\<close>

record control =
  psStarted :: bool
  ps_starts :: "int list"

definition control_init ::
  "(bytes \<Rightarrow> int) \<Rightarrow> (read_error \<Rightarrow> string) \<Rightarrow> int \<Rightarrow> bytes + read_error \<Rightarrow> control \<Rightarrow> response \<times> control" where
  "control_init psInterval msg pid body s =
     (case body of
        Inr e \<Rightarrow> (\<lparr>rsp_status = 400, rsp_type = ''text/plain; charset=utf-8'', rsp_length = None,
                 rsp_body = bytes_of (msg e @ [CHR 0x0A])\<rparr>, s)
      | Inl b \<Rightarrow>
          (\<lparr>rsp_status = 200, rsp_type = '''', rsp_length = None, rsp_body = bytes_of (itoa pid)\<rparr>,
           if psStarted s then s
           else s\<lparr>psStarted := True, ps_starts := ps_starts s @ [psInterval b]\<rparr>))"

text \<open>\<^verbatim>\<open>/ps\<close>: the counter as JSON.\<close>

definition control_ps :: "('c \<Rightarrow> bytes) \<Rightarrow> 'c \<Rightarrow> response" where
  "control_ps marshal psCounter = \<lparr>rsp_status = 200, rsp_type = '''', rsp_length = None, rsp_body = marshal psCounter\<rparr>"

section \<open>Listening\<close>

text \<open>\<^verbatim>\<open>Init\<close>: the value of \<^verbatim>\<open>-maxstreams\<close> a server refuses to start with.\<close>

definition server_Init :: "int \<Rightarrow> int option" where
  "server_Init maxStreams = (if maxStreams \<le> 0 then Some maxStreams else None)"

definition ServerAddrs :: "string \<Rightarrow> config_error + string list" where
  "ServerAddrs framework = GetFrameworkServerAddrs framework"

record listener =
  ln_network :: string
  ln_addr :: string
  ln_reuse :: bool
  ln_nodelay :: bool \<comment> \<open>no \<^verbatim>\<open>noDelayListener\<close> around it\<close>

datatype listen_error = NoAddrs config_error | ListenFailed string

text \<open>\<^verbatim>\<open>ListenSocket\<close> and \<^verbatim>\<open>Listen\<close>, where \<open>bind\<close> says which addresses can be listened on.\<close>

definition ListenSocket :: "(string \<Rightarrow> bool) \<Rightarrow> bool \<Rightarrow> string \<Rightarrow> string \<Rightarrow> listener option" where
  "ListenSocket bind reuse network addr =
     (if bind addr then Some \<lparr>ln_network = network, ln_addr = addr, ln_reuse = reuse, ln_nodelay = True\<rparr> else None)"

definition Listen :: "(string \<Rightarrow> bool) \<Rightarrow> bool \<Rightarrow> bool \<Rightarrow> string \<Rightarrow> string \<Rightarrow> listener option" where
  "Listen bind reuse nodelay network addr =
     (case ListenSocket bind reuse network addr of
        None \<Rightarrow> None
      | Some l \<Rightarrow> if nodelay then Some l else Some (l\<lparr>ln_nodelay := False\<rparr>))"

text \<open>A loop that listens on each address in turn: the first that cannot be ends the program.\<close>

fun listen_loop :: "(string \<Rightarrow> listener option) \<Rightarrow> string list \<Rightarrow> listen_error + listener list" where
  "listen_loop listen [] = Inr []"
| "listen_loop listen (addr # addrs) =
     (case listen addr of
        None \<Rightarrow> Inl (ListenFailed addr)
      | Some l \<Rightarrow> (case listen_loop listen addrs of Inl e \<Rightarrow> Inl e | Inr ls \<Rightarrow> Inr (l # ls)))"

definition ListenAll :: "(string \<Rightarrow> bool) \<Rightarrow> bool \<Rightarrow> bool \<Rightarrow> string \<Rightarrow> listen_error + listener list" where
  "ListenAll bind reuse nodelay framework =
     (case ServerAddrs framework of
        Inl e \<Rightarrow> Inl (NoAddrs e)
      | Inr addrs \<Rightarrow> listen_loop (Listen bind reuse nodelay ''tcp'') addrs)"

section \<open>What a handler answers\<close>

definition rd_content :: "reader \<Rightarrow> bytes" where
  "rd_content r = concat (rd_chunks r)"

lemma rd_Read_content:
  "rd_Read k r = (bs, e, r') \<Longrightarrow> rd_content r = bs @ rd_content r' \<and> rd_end r' = rd_end r
     \<and> (e \<noteq> None \<longrightarrow> rd_content r' = [] \<and> e = Some (rd_end r))"
  by (auto simp: rd_Read_def rd_content_def split: list.splits if_splits)

lemma ReadBody_loop_content:
  "fst (ReadBody_loop grow buf c r) = buf @ rd_content r
   \<and> snd (snd (ReadBody_loop grow buf c r)) = (if rd_end r = EOF then None else Some (rd_end r))"
proof (induction grow buf c r rule: ReadBody_loop.induct)
  case (1 grow buf c r)
  let ?c = "if c \<le> length buf then max (grow (length buf)) (length buf + 1) else c"
  obtain bs e r' where rd: "rd_Read (?c - length buf) r = (bs, e, r')" by (metis prod_cases3)
  note con = rd_Read_content [OF rd]
  show ?case
  proof (cases e)
    case None
    with 1 [OF refl rd [symmetric] refl None] con rd show ?thesis
      by (subst (1 2) ReadBody_loop.simps) (simp add: Let_def)
  next
    case (Some x)
    with con rd show ?thesis by (subst (1 2) ReadBody_loop.simps) (simp add: Let_def)
  qed
qed

lemma ReadFull_content:
  "length got \<le> n \<Longrightarrow> ReadFull n got r =
     (if n \<le> length (got @ rd_content r) then (take n (got @ rd_content r), None)
      else (got @ rd_content r, Some (if rd_end r = EOF \<and> got @ rd_content r \<noteq> [] then UnexpectedEOF else rd_end r)))"
proof (induction n got r rule: ReadFull.induct)
  case (1 n got r)
  show ?case
  proof (cases "n \<le> length got")
    case True
    with 1 show ?thesis by (subst ReadFull.simps) simp
  next
    case False
    obtain bs e r' where rd: "rd_Read (n - length got) r = (bs, e, r')" by (metis prod_cases3)
    note con = rd_Read_content [OF rd] and len = rd_Read_len [OF rd]
    show ?thesis
    proof (cases e)
      case None
      with 1 False rd con len show ?thesis by (subst ReadFull.simps) simp
    next
      case (Some x)
      with False rd con len show ?thesis by (subst ReadFull.simps) auto
    qed
  qed
qed


lemma ReadBody_unknown:
  "ReadBody grow c r (- 1) = (data, c', e) \<Longrightarrow> data = rd_content r \<and> (e = None \<longleftrightarrow> rd_end r = EOF)"
  using ReadBody_loop_content [of grow "[]" c r] by (auto simp: ReadBody_def split: if_splits)

lemma ReadBody_known:
  assumes "0 \<le> n"
  shows "fst (ReadBody grow c r n) = take (nat n) (rd_content r @ replicate (nat n) 0)"
    and "snd (snd (ReadBody grow c r n)) = None \<longleftrightarrow> nat n \<le> length (rd_content r)"
    and "nat n \<le> fst (snd (ReadBody grow c r n))" and "c \<le> fst (snd (ReadBody grow c r n))"
  using assms ReadFull_content [of "[]" "nat n" r] by (auto simp: ReadBody_def Let_def min_def)

lemma handlers_answer:
  assumes "h \<in> {OnEcho, gin_onEcho ginType, echo_onEcho echoType, beego_onEcho, \<lambda>grow payload msg. fib_onRequest grow payload msg EchoPath}"
    and "- 1 \<le> contentLength"
  shows "(if (if contentLength = - 1 then rd_end body = EOF else nat contentLength \<le> length (rd_content body))
          then let data = (if contentLength = - 1 then rd_content body else take (nat contentLength) (rd_content body))
               in fst (h grow payload msg body contentLength pool)
                = \<lparr>rsp_status = 200, rsp_type = octets, rsp_length = Some (itoa (int (length data))), rsp_body = data\<rparr>
          else rsp_status (fst (h grow payload msg body contentLength pool)) = 400)
    \<and> length (snd (h grow payload msg body contentLength pool)) = max 1 (length pool)"
proof -
  define c where "c = fst (BodyPool_Get payload pool)"
  obtain got c' e where rb: "ReadBody grow c body contentLength = (got, c', e)" by (metis prod_cases3)
  have got: "if (if contentLength = - 1 then rd_end body = EOF else nat contentLength \<le> length (rd_content body))
    then e = None \<and> got = (if contentLength = - 1 then rd_content body else take (nat contentLength) (rd_content body))
    else e \<noteq> None"
  proof (cases "contentLength = - 1")
    case True
    with rb ReadBody_unknown [of grow c body got c' e] show ?thesis by simp
  next
    case False
    with assms(2) rb ReadBody_known(1,2) [of contentLength grow c body] show ?thesis by auto
  qed
  obtain errType msg' where h: "h grow payload msg body contentLength pool
      = echo_with errType grow payload msg' body contentLength pool"
    using assms(1) by (auto simp: OnEcho_def gin_onEcho_def echo_onEcho_def beego_onEcho_def fib_onRequest_def; metis)
  have pool: "length (snd (BodyPool_Get payload pool)) + 1 = max 1 (length pool)"
    by (simp add: BodyPool_Get_def split: list.split)
  obtain pool' where p: "BodyPool_Get payload pool = (c, pool')" by (metis c_def prod.collapse)
  have w: "echo_with errType grow payload msg' body contentLength pool =
      ((case e of
          Some x \<Rightarrow> \<lparr>rsp_status = 400, rsp_type = errType, rsp_length = None, rsp_body = bytes_of (msg' x)\<rparr>
        | None \<Rightarrow> \<lparr>rsp_status = 200, rsp_type = octets, rsp_length = Some (itoa (int (length got))), rsp_body = got\<rparr>),
       c' # pool')"
    by (simp add: echo_with_def p rb BodyPool_Put_def Let_def split: option.split)
  show ?thesis using got pool unfolding h w p by (auto simp: Let_def split: if_splits)
qed

text \<open>
  C38. Every echo handler answers a request with its body: 200, the length of the body and those bytes, in whatever
  chunks it arrived, whether or not its length was declared, and however small the pooled buffer. A body shorter
  than declared, or one of undeclared length whose reading failed, is answered with 400. The buffer goes back to the pool either way.
\<close>

theorem echo_handlers_echo:
  assumes "h \<in> {OnEcho, gin_onEcho ginType, echo_onEcho echoType, beego_onEcho, \<lambda>grow payload msg. fib_onRequest grow payload msg EchoPath}"
    and "- 1 \<le> contentLength"
  shows "(if (if contentLength = - 1 then rd_end body = EOF else nat contentLength \<le> length (rd_content body))
          then let data = (if contentLength = - 1 then rd_content body else take (nat contentLength) (rd_content body))
               in fst (h grow payload msg body contentLength pool)
                = \<lparr>rsp_status = 200, rsp_type = octets, rsp_length = Some (itoa (int (length data))), rsp_body = data\<rparr>
          else rsp_status (fst (h grow payload msg body contentLength pool)) = 400)
    \<and> length (snd (h grow payload msg body contentLength pool)) = max 1 (length pool)"
  by (rule handlers_answer [OF assms])

theorem echo_handlers_echo_witness:
  "fst (OnEcho (\<lambda>n. 2 * n) 2 (\<lambda>_. ''error'') \<lparr>rd_chunks = [[1, 2], [3]], rd_end = EOF, rd_eager = True\<rparr> (- 1) [])
   = \<lparr>rsp_status = 200, rsp_type = octets, rsp_length = Some (itoa 3), rsp_body = [1, 2, 3]\<rparr>
   \<and> rsp_status (fst (OnEcho (\<lambda>n. 2 * n) 2 (\<lambda>_. ''error'') \<lparr>rd_chunks = [[1, 2], [3]], rd_end = EOF, rd_eager = True\<rparr> 4 [])) = 400"
  using echo_handlers_echo [of OnEcho "''t''" "''t''" "- 1" "\<lparr>rd_chunks = [[1, 2], [3]], rd_end = EOF, rd_eager = True\<rparr>"
      "\<lambda>n. 2 * n" 2 "\<lambda>_. ''error''" "[]"]
    echo_handlers_echo [of OnEcho "''t''" "''t''" 4 "\<lparr>rd_chunks = [[1, 2], [3]], rd_end = EOF, rd_eager = True\<rparr>"
      "\<lambda>n. 2 * n" 2 "\<lambda>_. ''error''" "[]"]
  by (simp add: rd_content_def)

section \<open>Sampling starts once\<close>

text \<open>However often \<^verbatim>\<open>/init\<close> arrives, one sampler is started, and every request is answered with the pid.\<close>

lemma control_init_once:
  assumes "ps_starts s = (if psStarted s then [i] else [])"
  shows "\<exists>i. ps_starts (snd (fold (\<lambda>b (r, s). control_init psInterval msg pid (Inl b) s) bs (r, s)))
      = (if psStarted (snd (fold (\<lambda>b (r, s). control_init psInterval msg pid (Inl b) s) bs (r, s))) then [i] else [])"
  using assms
proof (induction bs arbitrary: s r i)
  case (Cons b bs)
  then show ?case by (cases "psStarted s") (auto simp: control_init_def)
qed auto

lemma listen_loop_ok:
  "list_all (\<lambda>a. listen a \<noteq> None) addrs \<Longrightarrow> listen_loop listen addrs = Inr (map (\<lambda>a. the (listen a)) addrs)"
  by (induction addrs) auto

lemma listen_loop_fails:
  "\<not> list_all (\<lambda>a. listen a \<noteq> None) addrs \<Longrightarrow> \<exists>a \<in> set addrs. listen_loop listen addrs = Inl (ListenFailed a) \<and> listen a = None"
  by (induction addrs) (auto split: option.splits)

lemma Listen_None [simp]: "Listen bind reuse nodelay network a = None \<longleftrightarrow> \<not> bind a"
  "ListenSocket bind reuse network a = None \<longleftrightarrow> \<not> bind a"
  by (auto simp: Listen_def ListenSocket_def)

end
