(* ===== verification/Client.thy ===== *)
theory Client
  imports RateBench Server
begin

text \<open>
  \<^verbatim>\<open>benchcli-go/client.go\<close>: the flags, what is checked before a run, what the benchmarks are set to, and the report
  files. What a run prints is left out; the steps of \<^verbatim>\<open>main\<close> are put together in the theory \<open>ClientMain\<close>.
\<close>

section \<open>Flags\<close>

record flags =
  fl_framework :: string
  fl_ip :: string
  fl_numConnections :: int
  fl_dialConcurrency :: int
  fl_dialTimeout :: int
  fl_dialRetries :: int
  fl_dialRetryInterval :: int
  fl_payload :: int
  fl_checkValid :: bool
  fl_psInterval :: int
  fl_psMode :: string
  fl_enableTPN :: bool
  fl_echoConcurrency :: int
  fl_echoStreams :: int
  fl_echoTimes :: int
  fl_echoTPSLimit :: int
  fl_echoPprof :: bool
  fl_echoPprofDuration :: int
  fl_rateEnabled :: bool
  fl_rateConcurrency :: int
  fl_rateDuration :: int
  fl_rateSendRate :: int
  fl_rateBatchSize :: int
  fl_rateBatch :: int
  fl_rateSendLimit :: int
  fl_ratePprof :: bool
  fl_ratePprofDuration :: int
  fl_genReport :: bool
  fl_preffix :: string
  fl_suffix :: string
  fl_reportSort :: string

definition default_flags :: flags where
  "default_flags =
     \<lparr>fl_framework = ''nethttp'', fl_ip = ''127.0.0.1'', fl_numConnections = 10000, fl_dialConcurrency = 2000,
      fl_dialTimeout = 5 * second, fl_dialRetries = 5, fl_dialRetryInterval = second div 10, fl_payload = 1024,
      fl_checkValid = False, fl_psInterval = 1000, fl_psMode = PSModeAuto, fl_enableTPN = True,
      fl_echoConcurrency = 10000, fl_echoStreams = 1, fl_echoTimes = 2000000, fl_echoTPSLimit = 0, fl_echoPprof = False,
      fl_echoPprofDuration = 5, fl_rateEnabled = False, fl_rateConcurrency = 10000, fl_rateDuration = 10,
      fl_rateSendRate = 200, fl_rateBatchSize = 1024 * 16, fl_rateBatch = 0, fl_rateSendLimit = 0, fl_ratePprof = False,
      fl_ratePprofDuration = 5, fl_genReport = False, fl_preffix = '''', fl_suffix = '''', fl_reportSort = ''result''\<rparr>"

section \<open>Checks\<close>

datatype fatal =
    BadSort string
  | BadPSMode string
  | BadRateBatch batch_error
  | BadFramework config_error

text \<open>What \<^verbatim>\<open>main\<close> refuses before it dials anything; only the first two are asked of a run that makes reports.\<close>

definition main_checks :: "flags \<Rightarrow> fatal option" where
  "main_checks fl =
     (case ValidateSort (fl_reportSort fl) of
        Some s \<Rightarrow> Some (BadSort s)
      | None \<Rightarrow>
          (case ValidatePSMode (fl_psMode fl) of
             Some m \<Rightarrow> Some (BadPSMode m)
           | None \<Rightarrow>
               if fl_genReport fl then None
               else case (if fl_rateEnabled fl then ValidateBatch (fl_rateBatch fl) (max (fl_rateSendRate fl) 1) else None) of
                      Some e \<Rightarrow> Some (BadRateBatch e)
                    | None \<Rightarrow> (case GetFrameworkBenchmarkPorts (fl_framework fl) of
                                 Inl e \<Rightarrow> Some (BadFramework e) | Inr _ \<Rightarrow> None)))"

section \<open>What a run is set to\<close>

definition main_connections :: "flags \<Rightarrow> Connections" where
  "main_connections fl =
     (Connections_New (fl_framework fl) (fl_ip fl) (fl_numConnections fl))
       \<lparr>cs_Concurrency := fl_dialConcurrency fl, cs_DialTimeout := fl_dialTimeout fl, cs_RetryTimes := fl_dialRetries fl,
        cs_RetryInterval := fl_dialRetryInterval fl, cs_EnalbeTPN := fl_enableTPN fl,
        cs_ReadBufferSize := max 4096 (min (fl_payload fl) 16384 + 1024)\<rparr>"

definition pprofEnabled :: "flags \<Rightarrow> 'm PSSetup \<Rightarrow> bool" where
  "pprofEnabled fl setup \<longleftrightarrow> PprofAddr setup \<noteq> '''' \<and> HasPprof (fl_framework fl)"

definition profile_urls :: "flags \<Rightarrow> 'm PSSetup \<Rightarrow> string \<times> string \<times> string" where
  "profile_urls fl setup =
     (if pprofEnabled fl setup
      then let cpu = PprofAddr setup @ ''/debug/pprof/profile''
           in (cpu @ ''?seconds='' @ itoa (fl_echoPprofDuration fl), cpu @ ''?seconds='' @ itoa (fl_ratePprofDuration fl),
               PprofAddr setup @ ''/debug/pprof/heap'')
      else ('''', '''', ''''))"

definition main_echo :: "flags \<Rightarrow> 'm PSSetup \<Rightarrow> nat list \<Rightarrow> 'm BenchEcho" where
  "main_echo fl setup conns =
     (BenchEcho_New (fl_framework fl) (ServerPid setup) (fl_echoTimes fl) (fl_ip fl) conns (fl_checkValid fl))
       \<lparr>eb_PsSource := Some (Source setup), eb_Concurrency := fl_echoConcurrency fl, eb_Streams := fl_echoStreams fl,
        eb_Payload := fl_payload fl, eb_Total := fl_echoTimes fl, eb_Limit := fl_echoTPSLimit fl,
        eb_EnalbeTPN := fl_enableTPN fl\<rparr>"

definition main_rate :: "flags \<Rightarrow> 'm PSSetup \<Rightarrow> nat list \<Rightarrow> 'm BenchRate" where
  "main_rate fl setup conns =
     (BenchRate_New (fl_framework fl) (ServerPid setup) (fl_ip fl) conns (fl_checkValid fl))
       \<lparr>rb_PsSource := Some (Source setup), rb_Concurrency := fl_rateConcurrency fl,
        rb_Duration := second * fl_rateDuration fl, rb_SendRate := fl_rateSendRate fl,
        rb_BatchSize := fl_rateBatchSize fl, rb_Batch := fl_rateBatch fl, rb_Payload := fl_payload fl,
        rb_SendLimit := fl_rateSendLimit fl\<rparr>"

section \<open>Reports\<close>

text \<open>\<^verbatim>\<open>saveReport\<close>: the error is logged and the run goes on.\<close>

definition saveReport :: "flags \<Rightarrow> Report \<Rightarrow> fs \<Rightarrow> fs" where
  "saveReport fl r F = snd (ToFile r (fl_preffix fl) (fl_suffix fl) F)"

text \<open>The report of the echo benchmark with its profile setting, and the rate benchmark's.\<close>

definition main_echo_report :: "flags \<Rightarrow> 'm PSSetup \<Rightarrow> BenchEchoReport \<Rightarrow> BenchEchoReport" where
  "main_echo_report fl setup r =
     r\<lparr>be_Pprof := PprofSetting (fl_framework fl) (fl_echoPprof fl \<and> pprofEnabled fl setup) (fl_echoPprofDuration fl)\<rparr>"

definition main_rate_report :: "flags \<Rightarrow> 'm PSSetup \<Rightarrow> BenchRateReport \<Rightarrow> BenchRateReport" where
  "main_rate_report fl setup r =
     r\<lparr>br_Pprof := PprofSetting (fl_framework fl) (fl_ratePprof fl \<and> pprofEnabled fl setup) (fl_ratePprofDuration fl)\<rparr>"

text \<open>The tables of \<^verbatim>\<open>generateReports\<close>; \<open>None\<close> where making one would panic.\<close>

definition report_sections :: "flags \<Rightarrow> md_headers \<Rightarrow> perf_fmt \<Rightarrow> fs \<Rightarrow> (string \<times> string) list option" where
  "report_sections fl H P F =
     (case GenerateConnectionsReports H P (fl_preffix fl) (fl_suffix fl) (fl_enableTPN fl) (fl_reportSort fl) None F of
        None \<Rightarrow> None
      | Some (conns, H) \<Rightarrow>
          (case GenerateBenchEchoReports H P (fl_preffix fl) (fl_suffix fl) (fl_enableTPN fl) (fl_reportSort fl) None F of
             None \<Rightarrow> None
           | Some (echo, H) \<Rightarrow>
               (case GenerateBenchRateReports H P (fl_preffix fl) (fl_suffix fl) (fl_enableTPN fl) (fl_reportSort fl) None F of
                  None \<Rightarrow> None
                | Some (rate, H) \<Rightarrow>
                    Some [(''Summary'', GenerateSummary P (fl_preffix fl) (fl_suffix fl) F), (''Connections'', conns),
                          (''BenchEcho'', echo), (BenchMultiplexName, rate)])))"

definition write_section :: "flags \<Rightarrow> string \<times> string \<Rightarrow> fs \<times> string \<Rightarrow> fs \<times> string" where
  "write_section fl section Fc =
     (case (section, Fc) of ((name, data), (F, console)) \<Rightarrow>
        (snd (WriteFile (Filename name (fl_preffix fl) (fl_suffix fl @ ''.md'')) data F),
         console @ ConsoleSection (fl_preffix fl @ name @ fl_suffix fl) data))"

definition generateReports :: "flags \<Rightarrow> md_headers \<Rightarrow> perf_fmt \<Rightarrow> fs \<Rightarrow> (fs \<times> string) option" where
  "generateReports fl H P F =
     map_option (\<lambda>sections. let (F, console) = fold (write_section fl) sections (F, []) in (F, console @ LongLine))
       (report_sections fl H P F)"

definition httpGet :: "http_outcome \<Rightarrow> config_error + bytes" where
  "httpGet res =
     (case res of NoReply e \<Rightarrow> Inl (HttpError e)
      | Reply status data \<Rightarrow> if status \<noteq> 200 then Inl (HttpStatus status data) else Inr data)"

section \<open>A run that was accepted\<close>

lemma rate_load_Concurrency: "rb_Concurrency (rate_load br) \<le> 0 \<longleftrightarrow> rb_Conns br = []"
  by (auto simp: rate_load_def Let_def)

lemma BenchRate_init_Inr:
  assumes "rb_Conns br \<noteq> []"
    and "ValidateBatch (rb_Batch br) (rb_SendRate (rate_request rnd (rate_load br))) = None"
  shows "\<exists>br'. BenchRate_init rnd br = Inr br'
    \<and> rb_batch br' * rb_tickRate br' = rb_SendRate (rate_request rnd (rate_load br))"
proof -
  define q where "q = rate_request rnd (rate_load br)"
  have b: "rb_Batch q = rb_Batch br" by (simp add: q_def rate_request_def rate_load_def Let_def)
  note q = rate_request_ok [of rnd "rate_load br", folded q_def]
  obtain r where r: "rb_request q = Some r" "0 < Request_Len r" using q(6) NewRequest_Len_pos by blast
  obtain batch tick where bt: "rate_batch q = Inr (batch, tick)" "batch * tick = rb_SendRate q"
    using rate_batch_Inr [OF q(3) _ r] assms(2) unfolding b q_def [symmetric] by blast
  have "0 < rb_Concurrency (rate_load br)" using assms(1) rate_load_Concurrency [of br] by linarith
  with bt show ?thesis by (simp add: BenchRate_init_def Let_def q_def [symmetric])
qed

text \<open>
  A batch that passes the check \<^verbatim>\<open>main\<close> makes before the connections are dialed is never what the rate
  benchmark stops on once they are: with a connection to send on it starts, at the rate asked for.
\<close>

lemma main_rate_starts:
  assumes "main_checks fl = None" and "fl_rateEnabled fl" and "\<not> fl_genReport fl" and "conns \<noteq> []"
  shows "\<exists>br. BenchRate_init rnd (main_rate fl setup conns) = Inr br
    \<and> rb_batch br * rb_tickRate br = max (fl_rateSendRate fl) 1"
proof -
  have v: "ValidateBatch (fl_rateBatch fl) (max (fl_rateSendRate fl) 1) = None"
    using assms(1-3) by (auto simp: main_checks_def split: option.splits sum.splits)
  let ?br = "main_rate fl setup conns"
  have "rb_SendRate (rate_request rnd (rate_load ?br)) = max (fl_rateSendRate fl) 1"
    by (auto simp: rate_request_def rate_load_def main_rate_def BenchRate_New_def Let_def)
  moreover have "rb_Batch ?br = fl_rateBatch fl" "rb_Conns ?br = conns"
    by (simp_all add: main_rate_def BenchRate_New_def)
  ultimately show ?thesis using BenchRate_init_Inr [of ?br rnd] v assms(4) by simp
qed

definition sample_setup :: "unit PSSetup" where
  "sample_setup = \<lparr>Source = RemotePSSource ''nethttp'' ''127.0.0.1'', ServerPid = 1, PprofAddr = ''http://127.0.0.1:2961''\<rparr>"

section \<open>The report files\<close>

lemma Unmarshal_Type: "Unmarshal c r = Some r' \<Longrightarrow> Type r' = Type r"
  by (cases "(c, r)" rule: Unmarshal.cases) auto

lemma ReadReports_Type:
  assumes "\<And>f. Type (create f) = t" and "r \<in> set (ReadReports pre suf create F)"
  shows "Type r = t"
  using assms Unmarshal_Type
  by (auto simp: ReadReports_def map_filter_def read_report_def Let_def split: option.splits)

lemma fill_Type [simp]: "Type (fill_echo r) = Type r" "Type (fill_rate r) = Type r"
  by (cases r; simp)+

text \<open>A table with no filter is made, and leaves the headers alone, when its rank keys are measurements.\<close>

definition keys_ok :: "Report list \<Rightarrow> bool" where
  "keys_ok rs \<longleftrightarrow> list_all (\<lambda>r. list_all key_ok (RankKeys r)) rs"

lemma Markdown_made:
  assumes "\<forall>r \<in> set rs. Type r = t" and "keys_ok rs"
  shows "\<exists>s. Markdown (Init tpn) P rs tpn order None = Some (s, Init tpn)"
proof (cases "rs = []")
  case False
  have "\<forall>r \<in> set rs. Type r = t \<and> (\<forall>k \<in> set (RankKeys r). key_ok k)"
    using assms by (simp add: keys_ok_def list_all_iff)
  from Markdown_table [OF False this] show ?thesis by blast
qed (simp add: Markdown_def)

text \<open>The names the tables are written under.\<close>

definition md_name :: "flags \<Rightarrow> string \<Rightarrow> string" where
  "md_name fl name = Filename name (fl_preffix fl) (fl_suffix fl @ ''.md'')"

lemma md_name_inj: "md_name fl a = md_name fl b \<longleftrightarrow> a = b"
  by (simp add: md_name_def Filename_def)

lemma fold_write_section:
  assumes "\<forall>n. writable F n" and "distinct (map fst sections)"
  shows "(\<forall>(name, data) \<in> set sections. files (fst (fold (write_section fl) sections (F, c))) (md_name fl name) = Some (Text data))
    \<and> (\<forall>n. n \<notin> md_name fl ` fst ` set sections \<longrightarrow> files (fst (fold (write_section fl) sections (F, c))) n = files F n)"
  using assms
proof (induction sections arbitrary: F c)
  case (Cons x xs)
  obtain name data where x: "x = (name, data)" by fastforce
  define F' where "F' = F\<lparr>files := (files F)(md_name fl name \<mapsto> Text data)\<rparr>"
  have w: "fst (write_section fl x (F, c)) = F'"
    using Cons.prems(1) by (simp add: write_section_def x WriteFile_def os_WriteFile_def F'_def md_name_def)
  then obtain c' where w': "write_section fl x (F, c) = (F', c')" by (metis prod.collapse)
  have "\<forall>n. writable F' n" using Cons.prems(1) by (simp add: F'_def)
  then have IH: "\<forall>(name, data) \<in> set xs. files (fst (fold (write_section fl) xs (F', c'))) (md_name fl name) = Some (Text data)"
    "\<forall>n. n \<notin> md_name fl ` fst ` set xs \<longrightarrow> files (fst (fold (write_section fl) xs (F', c'))) n = files F' n"
    using Cons.IH [of F' c'] Cons.prems(2) by auto
  have "md_name fl name \<notin> md_name fl ` fst ` set xs"
    using Cons.prems(2) x inj_image_mem_iff [of "md_name fl" name "fst ` set xs"] by (simp add: inj_def md_name_inj)
  with IH(2) have "files (fst (fold (write_section fl) xs (F', c'))) (md_name fl name) = Some (Text data)"
    by (simp add: F'_def)
  with IH show ?case by (auto simp: x [symmetric] w') (auto simp: x F'_def)
qed simp

text \<open>
  C40. Making the reports of a run whose results are in a measurement's range, with the files writable, always ends with the
  four tables written, the Summary and one for each benchmark, each to its
  own file, and with every other file, the reports among them, as it was; each
  table is the one its report files give, made with the headers \<^verbatim>\<open>Init\<close> set.
\<close>

theorem generateReports_writes:
  assumes "\<forall>n. writable F n"
    and "keys_ok (ReadConnectionsReports (fl_preffix fl) (fl_suffix fl) F)"
    and "keys_ok (ReadBenchEchoReports (fl_preffix fl) (fl_suffix fl) F)"
    and "keys_ok (ReadBenchRateReports (fl_preffix fl) (fl_suffix fl) F)"
  shows "\<exists>conns echo rate F' console H.
      generateReports fl (Init (fl_enableTPN fl)) P F = Some (F', console)
    \<and> GenerateConnectionsReports H P (fl_preffix fl) (fl_suffix fl) (fl_enableTPN fl) (fl_reportSort fl) None F = Some (conns, H)
    \<and> GenerateBenchEchoReports H P (fl_preffix fl) (fl_suffix fl) (fl_enableTPN fl) (fl_reportSort fl) None F = Some (echo, H)
    \<and> GenerateBenchRateReports H P (fl_preffix fl) (fl_suffix fl) (fl_enableTPN fl) (fl_reportSort fl) None F = Some (rate, H)
    \<and> H = Init (fl_enableTPN fl)
    \<and> files F' (md_name fl ''Summary'') = Some (Text (GenerateSummary P (fl_preffix fl) (fl_suffix fl) F))
    \<and> files F' (md_name fl ''Connections'') = Some (Text conns)
    \<and> files F' (md_name fl ''BenchEcho'') = Some (Text echo)
    \<and> files F' (md_name fl BenchMultiplexName) = Some (Text rate)
    \<and> (\<forall>n. n \<notin> md_name fl ` {''Summary'', ''Connections'', ''BenchEcho'', BenchMultiplexName} \<longrightarrow> files F' n = files F n)"
proof -
  let ?H = "Init (fl_enableTPN fl)" and ?pre = "fl_preffix fl" and ?suf = "fl_suffix fl"
  have "\<forall>r \<in> set (ReadConnectionsReports ?pre ?suf F). Type r = ''Connections''"
    using ReadReports_Type [of "\<lambda>f. ConnR (create_Connections f)"] by (simp add: ReadConnectionsReports_def)
  from Markdown_made [OF this assms(2), of "fl_enableTPN fl" P "fl_reportSort fl"]
  obtain conns where c: "GenerateConnectionsReports ?H P ?pre ?suf (fl_enableTPN fl) (fl_reportSort fl) None F = Some (conns, ?H)"
    by (auto simp: GenerateConnectionsReports_def GenerateReports_def ReadConnectionsReports_def)
  have "\<forall>r \<in> set (ReadBenchEchoReports ?pre ?suf F). Type r = ''BenchEcho''"
    using ReadReports_Type [of "\<lambda>f. EchoR (create_BenchEcho f)"] by (simp add: ReadBenchEchoReports_def)
  from Markdown_made [OF this assms(3), of "fl_enableTPN fl" P "fl_reportSort fl"]
  obtain echo where e: "GenerateBenchEchoReports ?H P ?pre ?suf (fl_enableTPN fl) (fl_reportSort fl) None F = Some (echo, ?H)"
    by (auto simp: GenerateBenchEchoReports_def)
  have "\<forall>r \<in> set (ReadBenchRateReports ?pre ?suf F). Type r = BenchMultiplexName"
    using ReadReports_Type [of "\<lambda>f. RateR (create_BenchRate f)"] by (simp add: ReadBenchRateReports_def)
  from Markdown_made [OF this assms(4), of "fl_enableTPN fl" P "fl_reportSort fl"]
  obtain rate where r: "GenerateBenchRateReports ?H P ?pre ?suf (fl_enableTPN fl) (fl_reportSort fl) None F = Some (rate, ?H)"
    by (auto simp: GenerateBenchRateReports_def)
  define sections where "sections = [(''Summary'', GenerateSummary P ?pre ?suf F), (''Connections'', conns),
    (''BenchEcho'', echo), (BenchMultiplexName, rate)]"
  have "report_sections fl ?H P F = Some sections" by (simp add: report_sections_def c e r sections_def)
  then have g: "\<exists>console. generateReports fl ?H P F = Some (fst (fold (write_section fl) sections (F, [])), console)"
    by (auto simp: generateReports_def Let_def split: prod.split)
  have "distinct (map fst sections)" by (simp add: sections_def BenchMultiplexName_def)
  note fw = fold_write_section [OF assms(1) this, of fl "[]"]
  have "\<forall>(name, data) \<in> set sections. files (fst (fold (write_section fl) sections (F, []))) (md_name fl name) = Some (Text data)"
    using fw by blast
  moreover have "fst ` set sections = {''Summary'', ''Connections'', ''BenchEcho'', BenchMultiplexName}"
    by (auto simp: sections_def)
  ultimately show ?thesis using g fw c e r unfolding sections_def by fastforce
qed

theorem generateReports_writes_witness:
  "\<exists>conns echo rate F' console.
      generateReports default_flags (Init True) plain_fmt \<lparr>writable = \<lambda>_. True, files = \<lambda>_. None\<rparr> = Some (F', console)
    \<and> files F' (md_name default_flags ''Connections'') = Some (Text conns)
    \<and> files F' (md_name default_flags ''BenchEcho'') = Some (Text echo)
    \<and> files F' (md_name default_flags BenchMultiplexName) = Some (Text rate)"
proof -
  let ?F = "\<lparr>writable = \<lambda>_. True, files = \<lambda>_. None\<rparr>"
  have none: "ReadReports p s create ?F = []" for p s create
    by (simp add: ReadReports_def read_report_def FrameworkList_def map_filter_simps Let_def)
  have keys: "keys_ok (ReadConnectionsReports p s ?F)" "keys_ok (ReadBenchEchoReports p s ?F)"
    "keys_ok (ReadBenchRateReports p s ?F)" for p s
    by (simp_all add: none keys_ok_def ReadConnectionsReports_def ReadBenchEchoReports_def ReadBenchRateReports_def)
  have "fl_enableTPN default_flags = True" by (simp add: default_flags_def)
  then show ?thesis
    using generateReports_writes [of ?F default_flags plain_fmt, OF _ keys(1) keys(2) keys(3)] by auto
qed

end
