(* ===== verification/ClientMain.thy ===== *)
theory ClientMain
  imports Client
begin

text \<open>
  \<^verbatim>\<open>main\<close> of \<^verbatim>\<open>benchcli-go/client.go\<close>, from the checks to the last report: a function of the flags, of the files, and
  of what the world outside the repository answers, which is the record \<open>world\<close>. What ends the program before its end is a
  value of \<open>main_exit\<close>; what it prints is left out.

  Against it stands \<open>main_reports\<close>, the reports a run has to save; the files \<open>client_main\<close> leaves are those reports,
  written one after the other.
\<close>

section \<open>The world\<close>

record ('d, 'm) world =
  w_ncpu :: int
  w_dial :: "Connections \<Rightarrow> Connections \<times> calculator" \<comment> \<open>\<^verbatim>\<open>Benchmark\<close> of the calculator that dials\<close>
  w_client :: "ccref \<Rightarrow> 'd ClientConn" \<comment> \<open>the client connections, once dialed\<close>
  w_machine :: machine
  w_init :: "string \<Rightarrow> int \<Rightarrow> http_outcome" \<comment> \<open>the answers to \<^verbatim>\<open>/init\<close>\<close>
  w_unmarshal :: "bytes \<Rightarrow> PSCounter option"
  w_counter :: "float64 list \<Rightarrow> 'm list \<Rightarrow> PSCounter"
  w_echoRnd :: "nat \<Rightarrow> nat \<Rightarrow> bytes"
  w_warmup :: "'m BenchEcho \<Rightarrow> int \<Rightarrow> nat list"
  w_benchmark :: "'m BenchEcho \<Rightarrow> int \<Rightarrow> nat list \<times> calculator"
  w_echoProfile :: "(string \<Rightarrow> http_outcome) option" \<comment> \<open>the answers to the profile requests, when they were in before the report\<close>
  w_echoSamples :: "'m sample list" \<comment> \<open>what was sampled by then\<close>
  w_echoPs :: "string \<Rightarrow> int \<Rightarrow> http_outcome" \<comment> \<open>the answers to \<^verbatim>\<open>/ps\<close>\<close>
  w_rateRnd :: "nat \<Rightarrow> bytes"
  w_broken :: "nat \<Rightarrow> bool"
  w_redialed :: "nat \<Rightarrow> bool"
  w_limits :: "nat \<Rightarrow> int \<times> int"
  w_go :: "'m BenchRate \<Rightarrow> rconn list \<Rightarrow> (nat \<Rightarrow> 'm BenchRate) \<times> nat"
  w_rateProfile :: "(string \<Rightarrow> http_outcome) option"
  w_rateSamples :: "'m sample list"
  w_ratePs :: "string \<Rightarrow> int \<Rightarrow> http_outcome"

datatype main_exit =
    Refused fatal
  | NoAddresses config_error
  | EchoNoConnections
  | RateStopped rate_fatal
  | ReportsPanic

section \<open>Profiles\<close>

text \<open>The function the timers run: the CPU profile, then the heap's; nothing is set unless both came.\<close>

definition fetch_profiles :: "(string \<Rightarrow> http_outcome) \<Rightarrow> string \<Rightarrow> string \<Rightarrow> (bytes \<times> bytes) option" where
  "fetch_profiles get cpuUrl memUrl =
     (case httpGet (get cpuUrl) of
        Inl _ \<Rightarrow> None
      | Inr cpu \<Rightarrow> (case httpGet (get memUrl) of Inl _ \<Rightarrow> None | Inr mem \<Rightarrow> Some (cpu, mem)))"

definition echo_profiled :: "flags \<Rightarrow> 'm PSSetup \<Rightarrow> (string \<Rightarrow> http_outcome) option \<Rightarrow> 'm BenchEcho \<Rightarrow> 'm BenchEcho" where
  "echo_profiled fl setup answers be =
     (if fl_echoPprof fl \<and> pprofEnabled fl setup
      then case answers of
             None \<Rightarrow> be
           | Some get \<Rightarrow>
               (case fetch_profiles get (fst (profile_urls fl setup)) (snd (snd (profile_urls fl setup))) of
                  None \<Rightarrow> be | Some (cpu, mem) \<Rightarrow> eb_SetPprofData (Some cpu) (Some mem) be)
      else be)"

definition rate_profiled :: "flags \<Rightarrow> 'm PSSetup \<Rightarrow> (string \<Rightarrow> http_outcome) option \<Rightarrow> 'm BenchRate \<Rightarrow> 'm BenchRate" where
  "rate_profiled fl setup answers br =
     (if fl_ratePprof fl \<and> pprofEnabled fl setup
      then case answers of
             None \<Rightarrow> br
           | Some get \<Rightarrow>
               (case fetch_profiles get (fst (snd (profile_urls fl setup))) (snd (snd (profile_urls fl setup))) of
                  None \<Rightarrow> br | Some (cpu, mem) \<Rightarrow> rb_SetPprofData (Some cpu) (Some mem) br)
      else br)"

section \<open>The benchmarks\<close>

text \<open>The echo benchmark and its report, on the connections \<open>conns\<close>; the source has sampled what it has by then.\<close>

definition run_echo :: "flags \<Rightarrow> ('d, 'm) world \<Rightarrow> 'm PSSetup \<Rightarrow> nat list \<Rightarrow> main_exit + BenchEchoReport" where
  "run_echo fl W setup conns =
     (case BenchEcho_Run (w_ncpu W) (w_echoRnd W) (w_warmup W) (w_benchmark W) (main_echo fl setup conns) of
        None \<Rightarrow> Inl EchoNoConnections
      | Some (be, calc) \<Rightarrow>
          let be = (echo_profiled fl setup (w_echoProfile W) be)\<lparr>eb_PsSource := Some (sampled (w_echoSamples W) (Source setup))\<rparr>;
              (psCounter, psErr) = eb_psInfo (w_unmarshal W) pc_CPUAvg (w_counter W) (w_echoPs W) be
          in Inr (main_echo_report fl setup (BenchEcho_Report calc psCounter be)))"

definition run_rate :: "flags \<Rightarrow> ('d, 'm) world \<Rightarrow> 'm PSSetup \<Rightarrow> nat list \<Rightarrow> main_exit + BenchRateReport" where
  "run_rate fl W setup conns =
     (case BenchRate_Run (w_rateRnd W) (w_broken W) (w_redialed W) (w_limits W) (w_go W) (main_rate fl setup conns) of
        Inl e \<Rightarrow> Inl (RateStopped e)
      | Inr br \<Rightarrow>
          let source = sampled (w_rateSamples W) (sampled (w_echoSamples W) (Source setup));
              br = (rate_profiled fl setup (w_rateProfile W) br)\<lparr>rb_PsSource := Some source\<rparr>;
              (psCounter, psErr) = rb_psInfo (w_unmarshal W) pc_CPUAvg (w_counter W) (w_ratePs W) br
          in Inr (main_rate_report fl setup (BenchRate_Report psCounter br)))"

definition main_setup :: "flags \<Rightarrow> ('d, 'm) world \<Rightarrow> 'm PSSetup" where
  "main_setup fl W =
     fst (SetupPS (w_machine W) (w_init W) (fl_framework fl) (fl_ip fl) (fl_psMode fl) (10 ^ 6 * fl_psInterval fl))"

definition run_benchmarks :: "flags \<Rightarrow> ('d, 'm) world \<Rightarrow> fs \<Rightarrow> main_exit option \<times> fs" where
  "run_benchmarks fl W F =
     (case Connections_Run (w_dial W) (w_client W) (w_ncpu W) (main_connections fl) of
        Inl e \<Rightarrow> (Some (NoAddresses e), F)
      | Inr (cs, calc) \<Rightarrow>
          let F = saveReport fl (ConnR (Connections_Report calc cs)) F;
              setup = main_setup fl W;
              conns = [0..<length (cs_conns cs)]
          in case run_echo fl W setup conns of
               Inl e \<Rightarrow> (Some e, F)
             | Inr beReport \<Rightarrow>
                 let F = saveReport fl (EchoR beReport) F
                 in if fl_rateEnabled fl
                    then case run_rate fl W setup conns of
                           Inl e \<Rightarrow> (Some e, F)
                         | Inr brReport \<Rightarrow> (None, saveReport fl (RateR brReport) F)
                    else (None, F))"

definition client_main :: "flags \<Rightarrow> perf_fmt \<Rightarrow> ('d, 'm) world \<Rightarrow> fs \<Rightarrow> main_exit option \<times> fs" where
  "client_main fl P W F =
     (case main_checks fl of
        Some e \<Rightarrow> (Some (Refused e), F)
      | None \<Rightarrow>
          if fl_genReport fl
          then case generateReports fl (Init (fl_enableTPN fl)) P F of
                 None \<Rightarrow> (Some ReportsPanic, F)
               | Some (F, console) \<Rightarrow> (None, F)
          else run_benchmarks fl W F)"

text \<open>
  The deferred calls, when \<^verbatim>\<open>main\<close> returns rather than ends the program: the source is stopped, then the connections are, as they are
  by then.
\<close>

definition main_deferred ::
  "Connections \<Rightarrow> (ccref \<Rightarrow> 'd ClientConn) \<Rightarrow> 'm PSSource \<Rightarrow> (ccref \<Rightarrow> 'd ClientConn) \<times> 'm PSSource" where
  "main_deferred cs client source = (let source = PSSource_Stop source in (Connections_Stop cs client, source))"

lemma main_deferred_stops:
  assumes "main_deferred cs client source = (client', source')"
  shows "c \<in> set (cs_conns cs) \<Longrightarrow> cc_closed (client' (c_cc c))" and "sampled ss source' = source'"
  using assms Connections_Stop_closes [of c cs client] sampled_Stop [of ss source] by (auto simp: main_deferred_def)

section \<open>What a run has to save\<close>

definition main_reports :: "flags \<Rightarrow> ('d, 'm) world \<Rightarrow> Report list" where
  "main_reports fl W =
     (case Connections_Run (w_dial W) (w_client W) (w_ncpu W) (main_connections fl) of
        Inl e \<Rightarrow> []
      | Inr (cs, calc) \<Rightarrow>
          let setup = main_setup fl W; conns = [0..<length (cs_conns cs)]
          in ConnR (Connections_Report calc cs)
             # (case run_echo fl W setup conns of
                  Inl e \<Rightarrow> []
                | Inr r \<Rightarrow> EchoR r
                    # (if fl_rateEnabled fl then case run_rate fl W setup conns of Inl e \<Rightarrow> [] | Inr r \<Rightarrow> [RateR r] else [])))"

lemma run_benchmarks_files: "snd (run_benchmarks fl W F) = fold (saveReport fl) (main_reports fl W) F"
  by (auto simp: run_benchmarks_def main_reports_def Let_def split: sum.split)

section \<open>Whose reports they are\<close>

text \<open>What is relied on of the parts of the world that run this program's own goroutines: see \<open>dial_bench\<close> and \<open>rate_ran\<close>.\<close>

definition world_runs :: "flags \<Rightarrow> ('d, 'm) world \<Rightarrow> bool" where
  "world_runs fl W \<longleftrightarrow>
     (\<forall>cs0. Connections_init (w_ncpu W) (main_connections fl) = Inr cs0 \<longrightarrow> dial_bench (w_dial W) cs0)
   \<and> (\<forall>conns br. BenchRate_init (w_rateRnd W) (main_rate fl (main_setup fl W) conns) = Inr br \<longrightarrow>
        rate_ran (w_go W) br (live_conns (w_broken W) (w_redialed W) br))"

lemma main_connections_fresh:
  "cs_serverIdx (main_connections fl) = 0" "cs_Framework (main_connections fl) = fl_framework fl" "cs_Ip (main_connections fl) = fl_ip fl"
  "cs_MaxStreams (main_connections fl) = 0" "cs_MinMaxStreams (main_connections fl) = 0"
  by (simp_all add: main_connections_def Connections_New_def)

lemma Connections_Run_Framework:
  assumes "Connections_Run bench client ncpu cs = Inr (cs', calc)" and "cs_serverIdx cs = 0"
    and "\<forall>cs0. Connections_init ncpu cs = Inr cs0 \<longrightarrow> dial_bench bench cs0"
  shows "cs_Framework cs' = cs_Framework cs"
proof -
  from assms(1) obtain cs0 where init: "Connections_init ncpu cs = Inr cs0"
    and cs': "cs' = Connections_clean (Run_limits client (fst (bench cs0)))"
    by (auto simp: Connections_Run_def split: sum.splits prod.splits)
  then obtain s where s: "dials cs0 s" "fst (bench cs0) = ds_cs s" using assms(3) by (auto simp: dial_bench_def)
  have "dials_inv cs0 s" using dials_reach_inv s(1) Connections_init_dialable [OF init assms(2)] by blast
  then have "cs_Framework (ds_cs s) = cs_Framework cs0" by (auto simp: dials_inv_def)
  then show ?thesis using Connections_init_Inr(2) [OF init] by (simp add: cs' Connections_clean_def s(2))
qed

lemma run_echo_Framework: "run_echo fl W setup conns = Inr r \<Longrightarrow> be_Framework r = fl_framework fl"
proof -
  assume "run_echo fl W setup conns = Inr r"
  then obtain be calc ps where run: "BenchEcho_Run (w_ncpu W) (w_echoRnd W) (w_warmup W) (w_benchmark W) (main_echo fl setup conns)
      = Some (be, calc)" and r: "r = main_echo_report fl setup (BenchEcho_Report calc ps
        ((echo_profiled fl setup (w_echoProfile W) be)\<lparr>eb_PsSource := Some (sampled (w_echoSamples W) (Source setup))\<rparr>))"
    by (auto simp: run_echo_def Let_def split: option.splits prod.splits)
  have "eb_Framework be = fl_framework fl"
    using BenchEcho_Run_Framework [OF run] by (simp add: main_echo_def BenchEcho_New_def)
  then show ?thesis
    by (auto simp: r main_echo_report_def BenchEcho_Report_def Let_def create_BenchEcho_def be_SetPprofData_def echo_profiled_def
        eb_SetPprofData_def split: option.split prod.split)
qed

lemma run_rate_Framework:
  assumes "run_rate fl W (main_setup fl W) conns = Inr r" and "world_runs fl W"
  shows "br_Framework r = fl_framework fl"
proof -
  let ?psSetup = "main_setup fl W"
  from assms(1) obtain br ps source where run: "BenchRate_Run (w_rateRnd W) (w_broken W) (w_redialed W) (w_limits W) (w_go W)
      (main_rate fl ?psSetup conns) = Inr br" and r: "r = main_rate_report fl ?psSetup (BenchRate_Report ps
        ((rate_profiled fl ?psSetup (w_rateProfile W) br)\<lparr>rb_PsSource := source\<rparr>))"
    by (auto simp: run_rate_def Let_def split: sum.splits prod.splits)
  have "rb_Framework br = fl_framework fl"
    using BenchRate_Run_Framework [OF run] assms(2) by (simp add: world_runs_def main_rate_def BenchRate_New_def)
  then show ?thesis
    by (auto simp: r main_rate_report_def BenchRate_Report_def Let_def create_BenchRate_def br_SetPprofData_def rate_profiled_def
        rb_SetPprofData_def split: option.split prod.split)
qed

lemma main_reports_Framework:
  assumes "world_runs fl W" and "r \<in> set (main_reports fl W)"
  shows "report_Framework r = fl_framework fl"
proof -
  from assms(2) obtain cs calc where run: "Connections_Run (w_dial W) (w_client W) (w_ncpu W) (main_connections fl) = Inr (cs, calc)"
    by (cases "Connections_Run (w_dial W) (w_client W) (w_ncpu W) (main_connections fl)") (auto simp: main_reports_def)
  have "cs_Framework cs = fl_framework fl"
    using Connections_Run_Framework [OF run] assms(1) by (simp add: world_runs_def main_connections_fresh)
  then have "cn_Framework (Connections_Report calc cs) = fl_framework fl"
    by (simp add: Connections_Report_def create_Connections_def Let_def)
  moreover let ?conns = "[0..<length (cs_conns cs)]" and ?psSetup = "main_setup fl W"
  have "r = ConnR (Connections_Report calc cs) \<or> (\<exists>x. run_echo fl W ?psSetup ?conns = Inr x \<and> r = EchoR x)
      \<or> (\<exists>x. run_rate fl W ?psSetup ?conns = Inr x \<and> r = RateR x)"
  proof (cases "run_echo fl W ?psSetup ?conns")
    case (Inl e)
    with assms(2) run show ?thesis by (simp add: main_reports_def)
  next
    case (Inr x)
    with assms(2) run show ?thesis
      by (cases "run_rate fl W ?psSetup ?conns"; cases "fl_rateEnabled fl") (simp_all add: main_reports_def, blast)
  qed
  ultimately show ?thesis using run_echo_Framework run_rate_Framework [OF _ assms(1)] by auto
qed

section \<open>The files a run leaves\<close>

text \<open>The files of a report, and that saving one leaves every other file alone.\<close>

definition report_files :: "flags \<Rightarrow> Report \<Rightarrow> string set" where
  "report_files fl r = (\<lambda>ext. Filename (Name r) (fl_preffix fl) (fl_suffix fl @ ext)) ` {''.json'', ''.pprof.cpu'', ''.pprof.mem''}"

lemma saveReport_other: "n \<notin> report_files fl r \<Longrightarrow> files (saveReport fl r F) n = files F n"
  by (auto simp: saveReport_def ToFile_def report_files_def write_pprof_def os_WriteFile_def split: option.splits prod.splits if_splits)

lemma saveReport_writable: "writable (saveReport fl r F) = writable F"
  by (auto simp: saveReport_def ToFile_def write_pprof_def os_WriteFile_def split: option.splits prod.splits if_splits)

lemma saveReport_reads:
  assumes "fits r" and "\<forall>n. writable F n"
  shows "read_report (fl_preffix fl) (fl_suffix fl) (create_like r) (saveReport fl r F) (report_Framework r) = Some (unprofiled r)"
proof -
  obtain j where j: "Marshal r = Some j" "Unmarshal (Json j) (create_like r (report_Framework r)) = Some (unprofiled r)"
    using Unmarshal_Marshal [OF assms(1)] by blast
  obtain F' where "ToFile r (fl_preffix fl) (fl_suffix fl) F = (True, F')"
    "\<And>f. files F' (Filename (Name (create_like r f)) (fl_preffix fl) (fl_suffix fl @ ''.json''))
           = (if f = report_Framework r then Some (Json j)
              else files F (Filename (Name (create_like r f)) (fl_preffix fl) (fl_suffix fl @ ''.json'')))"
    using ToFile_files [OF assms(2) j(1)] by metis
  with j(2) show ?thesis by (simp add: read_report_def saveReport_def del: Marshal.simps Unmarshal.simps)
qed

lemma json_other:
  assumes "report_Framework r = report_Framework r'" and "Type r \<noteq> Type r'"
  shows "Filename (Name r) (fl_preffix fl) (fl_suffix fl @ ''.json'') \<notin> report_files fl r'"
proof
  assume "Filename (Name r) (fl_preffix fl) (fl_suffix fl @ ''.json'') \<in> report_files fl r'"
  then obtain ext where ext: "ext \<in> {''.json'', ''.pprof.cpu'', ''.pprof.mem''}"
    and eq: "Filename (Name r) (fl_preffix fl) (fl_suffix fl @ ''.json'') = Filename (Name r') (fl_preffix fl) (fl_suffix fl @ ext)"
    by (auto simp: report_files_def)
  from arg_cong [OF eq, of last] ext have "ext = ''.json''" by (auto simp: last_Filename)
  with eq assms show False by (simp add: Filename_def Name_eq)
qed

lemma read_report_after:
  assumes "report_Framework r = report_Framework r'" and "Type r \<noteq> Type r'"
  shows "read_report (fl_preffix fl) (fl_suffix fl) (create_like r) (saveReport fl r' F) (report_Framework r)
    = read_report (fl_preffix fl) (fl_suffix fl) (create_like r) F (report_Framework r)"
proof -
  have "Name (create_like r (report_Framework r)) = Name r" by (simp add: Name_eq)
  with saveReport_other [OF json_other [OF assms]] show ?thesis by (simp add: read_report_def Let_def)
qed

lemma fold_saveReport:
  assumes "list_all fits rs" and "\<forall>n. writable F n" and "distinct (map Type rs)" and "\<forall>r \<in> set rs. report_Framework r = fw"
  shows "(\<forall>r \<in> set rs. read_report (fl_preffix fl) (fl_suffix fl) (create_like r) (fold (saveReport fl) rs F) fw = Some (unprofiled r))
    \<and> (\<forall>n. (\<forall>r \<in> set rs. n \<notin> report_files fl r) \<longrightarrow> files (fold (saveReport fl) rs F) n = files F n)"
  using assms
proof (induction rs rule: rev_induct)
  case (snoc r rs)
  let ?F = "fold (saveReport fl) rs F"
  have w: "writable (fold (saveReport fl) rs F) = writable F" for rs F
    by (induction rs arbitrary: F) (simp_all add: saveReport_writable)
  have "read_report (fl_preffix fl) (fl_suffix fl) (create_like r) (saveReport fl r ?F) fw = Some (unprofiled r)"
    using saveReport_reads [of r ?F fl] snoc.prems w by simp
  moreover have "read_report (fl_preffix fl) (fl_suffix fl) (create_like x) (saveReport fl r ?F) fw = Some (unprofiled x)"
    if "x \<in> set rs" for x
  proof -
    have "Type r \<notin> Type ` set rs" "report_Framework x = fw" "report_Framework r = fw" using that snoc.prems by auto
    moreover from this(1) that have "Type x \<noteq> Type r" by (metis imageI)
    ultimately show ?thesis using read_report_after [of x r fl ?F] snoc that by simp
  qed
  ultimately show ?case using snoc saveReport_other [of _ fl r ?F] by auto
qed simp

text \<open>
  C10. A client that runs to its end leaves what it measured: the Connections report, the BenchEcho report and, where it
  was asked for, the rate benchmark's, each in its framework's file, from which it is read back as it was made, profiles aside; no
  other file has changed.
\<close>

theorem main_saves_reports:
  assumes "client_main fl P W F = (None, F')" and "\<not> fl_genReport fl" and "world_runs fl W"
    and "\<forall>n. writable F n" and "list_all fits (main_reports fl W)"
  shows "map Type (main_reports fl W) = [''Connections'', ''BenchEcho''] @ (if fl_rateEnabled fl then [BenchMultiplexName] else [])
    \<and> (\<forall>r \<in> set (main_reports fl W).
        read_report (fl_preffix fl) (fl_suffix fl) (create_like r) F' (fl_framework fl) = Some (unprofiled r))
    \<and> (\<forall>n. (\<forall>r \<in> set (main_reports fl W). n \<notin> report_files fl r) \<longrightarrow> files F' n = files F n)"
proof -
  have run: "run_benchmarks fl W F = (None, F')" using assms(1,2) by (simp add: client_main_def split: option.splits)
  have types: "map Type (main_reports fl W) = [''Connections'', ''BenchEcho''] @ (if fl_rateEnabled fl then [BenchMultiplexName] else [])"
    using run by (auto simp: run_benchmarks_def main_reports_def Let_def split: sum.splits prod.splits if_splits)
  then have "distinct (map Type (main_reports fl W))" by (simp add: BenchMultiplexName_def)
  moreover have "F' = fold (saveReport fl) (main_reports fl W) F" using run_benchmarks_files [of fl W F] run by simp
  ultimately show ?thesis
    using types fold_saveReport [OF assms(5,4), of "fl_framework fl" fl] main_reports_Framework [OF assms(3)] by blast
qed

section \<open>What can end a run\<close>

lemma checked_init:
  assumes "main_checks fl = None" and "\<not> fl_genReport fl"
  shows "\<exists>cs0. Connections_init ncpu (main_connections fl) = Inr cs0"
proof -
  have "\<exists>ports. GetFrameworkBenchmarkPorts (fl_framework fl) = Inr ports"
    using assms by (auto simp: main_checks_def split: option.splits sum.splits)
  then show ?thesis
    by (auto simp: Connections_init_def GetFrameworkBenchmarkAddrs_def Let_def Connections_settings_def main_connections_fresh)
qed

lemma run_echo_Inl:
  assumes "run_echo fl W setup conns = Inl e" and "0 < w_ncpu W"
  shows "e = EchoNoConnections \<and> conns = []"
proof -
  have "BenchEcho_Run (w_ncpu W) (w_echoRnd W) (w_warmup W) (w_benchmark W) (main_echo fl setup conns) = None" "e = EchoNoConnections"
    using assms(1) by (auto simp: run_echo_def Let_def split: option.splits prod.splits)
  then have "BenchEcho_init (w_ncpu W) (w_echoRnd W) (main_echo fl setup conns) = None"
    by (auto simp: BenchEcho_Run_def Let_def split: option.splits prod.splits)
  with BenchEcho_init_None [OF assms(2), of "w_echoRnd W" "main_echo fl setup conns"] \<open>e = EchoNoConnections\<close> show ?thesis
    by (simp add: main_echo_def BenchEcho_New_def)
qed

lemma run_rate_Inl:
  assumes "run_rate fl W setup conns = Inl e" and "main_checks fl = None" and "fl_rateEnabled fl" and "\<not> fl_genReport fl"
    and "conns \<noteq> []"
  shows "e = RateStopped NoConnections \<or> (\<exists>b n. e = RateStopped (TooFewStreams b n)) \<or> (\<exists>b n. e = RateStopped (WindowTooSmall b n))
    \<or> (\<exists>n. e = RateStopped (TickerPanic n) \<and> second < n \<and> n \<le> fl_rateSendRate fl)"
proof -
  obtain br where br: "BenchRate_init (w_rateRnd W) (main_rate fl setup conns) = Inr br"
    and rate: "rb_batch br * rb_tickRate br = max (fl_rateSendRate fl) 1"
    using main_rate_starts [OF assms(2-5)] by blast
  have tick: "second < rb_tickRate br \<and> rb_tickRate br \<le> fl_rateSendRate fl" if "second sdiv rb_tickRate br \<le> 0"
  proof -
    have "1 \<le> rb_batch br" "1 \<le> rb_tickRate br" using BenchRate_init_fresh(1,2) [OF br] .
    moreover from this have "rb_tickRate br \<le> rb_batch br * rb_tickRate br" by (simp add: mult_le_cancel_right1)
    ultimately show ?thesis
      using that rate pos_imp_zdiv_pos_iff [of "rb_tickRate br" second] by (auto simp: second_def signed_divide_int_def sgn_if)
  qed
  have lim: "(\<exists>b n. x = TooFewStreams b n) \<or> (\<exists>b n. x = WindowTooSmall b n)" if "checkLimits limits br = Some x" for limits x
    using that by (auto simp: checkLimits_def Let_def split: if_splits)
  let ?conns = "live_conns (w_broken W) (w_redialed W) br"
  show ?thesis
  proof (cases "checkLimits (map (\<lambda>c. w_limits W (rc_conn c)) ?conns) br")
    case None
    with assms(1) br tick show ?thesis
      by (auto simp: run_rate_def BenchRate_Run_def Let_def split: if_splits prod.splits)
  next
    case (Some x)
    with assms(1) br have "e = RateStopped NoConnections \<or> e = RateStopped x"
      by (auto simp: run_rate_def BenchRate_Run_def Let_def split: if_splits prod.splits)
    with lim [OF Some] show ?thesis by blast
  qed
qed

lemma echo_needs_connections: "run_echo fl W setup conns = Inr r \<Longrightarrow> 0 < w_ncpu W \<Longrightarrow> conns \<noteq> []"
  using BenchEcho_init_None [of "w_ncpu W" "w_echoRnd W" "main_echo fl setup conns"]
  by (auto simp: run_echo_def BenchEcho_Run_def main_echo_def BenchEcho_New_def split: option.splits)

text \<open>
  C11. What ends a client early, and what it has saved by then: a flag it refuses, before anything is dialed or written; no
  connection to any of the ports, with the Connections report saved; or, when the rate benchmark is asked for, a server that
  none of its connections can be used with any more or that cannot take a batch of the size or payload, or a rate of more than
  a batch a nanosecond, whose ticker panics, with both reports saved. A batch that does not divide the rate and a
  framework there is none of are always among the first. Running out of memory, as with more connections,
  streams or bytes of payload than a machine can allocate, is left aside.
\<close>

theorem main_exit_reasons:
  assumes "client_main fl P W F = (Some e, F')" and "\<not> fl_genReport fl" and "0 < w_ncpu W"
  shows "(\<exists>c. e = Refused c \<and> main_checks fl = Some c \<and> F' = F)
    \<or> main_checks fl = None \<and> F' = fold (saveReport fl) (main_reports fl W) F
      \<and> (e = EchoNoConnections \<and> map Type (main_reports fl W) = [''Connections'']
         \<or> fl_rateEnabled fl \<and> map Type (main_reports fl W) = [''Connections'', ''BenchEcho'']
           \<and> (e = RateStopped NoConnections \<or> (\<exists>b n. e = RateStopped (TooFewStreams b n) \<or> e = RateStopped (WindowTooSmall b n))
               \<or> (\<exists>n. e = RateStopped (TickerPanic n) \<and> 10 ^ 9 < n \<and> n \<le> fl_rateSendRate fl)))"
proof (cases "main_checks fl")
  case (Some c)
  with assms(1) show ?thesis by (simp add: client_main_def)
next
  case None
  with assms(1,2) have run: "run_benchmarks fl W F = (Some e, F')" by (simp add: client_main_def)
  obtain cs calc where cs: "Connections_Run (w_dial W) (w_client W) (w_ncpu W) (main_connections fl) = Inr (cs, calc)"
    using checked_init [OF None assms(2), of "w_ncpu W"] by (auto simp: Connections_Run_def case_prod_beta)
  let ?conns = "[0..<length (cs_conns cs)]" and ?psSetup = "main_setup fl W"
  have F': "F' = fold (saveReport fl) (main_reports fl W) F" using run_benchmarks_files [of fl W F] run by simp
  show ?thesis
  proof (cases "run_echo fl W ?psSetup ?conns")
    case (Inl x)
    have "map Type (main_reports fl W) = [''Connections'']" "e = x" using run by (simp_all add: main_reports_def run_benchmarks_def cs Inl)
    with None F' run_echo_Inl [OF Inl assms(3)] show ?thesis by simp
  next
    case (Inr r)
    obtain x where x: "run_rate fl W ?psSetup ?conns = Inl x" "fl_rateEnabled fl" "e = x"
      using run by (auto simp: run_benchmarks_def cs Inr Let_def split: if_splits sum.splits)
    have "map Type (main_reports fl W) = [''Connections'', ''BenchEcho'']" by (simp add: main_reports_def cs Inr x)
    with None F' x run_rate_Inl [OF x(1) None x(2) assms(2) echo_needs_connections [OF Inr assms(3)]] show ?thesis
      by (auto simp: second_def)
  qed
qed

section \<open>A run\<close>

text \<open>One connection to fib, one call that counts, and a server that is asked for its samples in vain.\<close>

definition one_dial :: "Connections \<Rightarrow> Connections \<times> calculator" where
  "one_dial cs =
     (cs\<lparr>cs_serverIdx := 1, cs_conns := [\<lparr>c_Addr = cs_serverAddrs cs ! slot (length (cs_serverAddrs cs)) 0, c_cc = 7\<rparr>]\<rparr>, sample_calc)"

lemma one_dial:
  assumes "dialable cs" and "cs_NumConnections cs = 1"
  shows "dial_bench one_dial cs"
proof -
  let ?addr = "cs_serverAddrs cs ! slot (length (cs_serverAddrs cs)) 0"
  let ?s = "dial_start cs"
  let ?t = "\<lparr>ds_calls = [\<lparr>d_i = 0, d_addr = Some ?addr, d_err = None, d_ret = None\<rparr>], ds_cs = cs\<lparr>cs_serverIdx := 1\<rparr>, ds_trail = [?addr]\<rparr>"
  let ?u = "\<lparr>ds_calls = [\<lparr>d_i = 1, d_addr = None, d_err = None, d_ret = Some None\<rparr>], ds_cs = fst (one_dial cs), ds_trail = [?addr]\<rparr>"
  have inv: "dials_inv cs ?s" using dials_inv_start assms(1) .
  obtain w' cs' addrs where "doOnce_turn d (new_dialer) cs = Some (w', cs', addrs)" for d
    using can_turn [OF inv, of new_dialer] assms(2) by (force simp: dial_start_def new_dialer_def doOnce_turn_def)
  then obtain addr cs' where na: "next_addr cs = Some (addr, cs')"
    using assms(1) by (auto simp: doOnce_turn_def doOnce_next_def new_dialer_def dialable_def)
  then have na': "next_addr cs = Some (?addr, cs\<lparr>cs_serverIdx := 1\<rparr>)"
    using next_addr_Some [OF na, of 0] assms(1) by (simp add: dialable_def)
  have "dials cs ?s" by (rule reach_start) simp
  moreover have "dial_move ?s ?t"
    using na' assms by (intro dial_move_eq [of 0, where d = "sample_dial True"])
      (simp_all add: dial_start_def new_dialer_def doOnce_turn_def doOnce_next_def dialable_def)
  ultimately have "dials cs ?t" by (rule reach_move)
  moreover have "dial_move ?t ?u"
    using assms by (intro dial_move_eq [of 0, where d = "sample_dial True"])
      (simp_all add: doOnce_turn_def doOnce_dialed_def dial_def sample_dial_def one_dial_def dialable_def)
  ultimately have "dials cs ?u" by (rule reach_move)
  then show ?thesis unfolding dial_bench_def by (intro exI [of _ ?u]) simp
qed

definition sample_world :: "(unit, unit) world" where
  "sample_world =
     \<lparr>w_ncpu = 4, w_dial = one_dial, w_client = \<lambda>_. (case NewClientConn () True None of Inr cc \<Rightarrow> cc),
      w_machine = \<lparr>stat_proc = False, read_proc = None, cmdline = \<lambda>_. None, ps_output = \<lambda>_. None, NewProcess = \<lambda>_. False,
        MemoryInfo = \<lambda>_. False, ParseIP = \<lambda>_. None, LookupIP = \<lambda>_. None, InterfaceAddrs = None\<rparr>,
      w_init = \<lambda>_ _. NoReply ''refused'', w_unmarshal = \<lambda>_. None, w_counter = \<lambda>_ _. sample_counter,
      w_echoRnd = \<lambda>i n. replicate n 0, w_warmup = \<lambda>be n. eb_chConns be, w_benchmark = \<lambda>be n. (eb_chConns be, sample_calc),
      w_echoProfile = None, w_echoSamples = [], w_echoPs = \<lambda>_ _. NoReply ''refused'',
      w_rateRnd = \<lambda>n. replicate n 0, w_broken = \<lambda>_. False, w_redialed = \<lambda>_. False, w_limits = \<lambda>_. (100, 65535),
      w_go = \<lambda>br conns. (\<lambda>i. br, 0), w_rateProfile = None, w_rateSamples = [], w_ratePs = \<lambda>_ _. NoReply ''refused''\<rparr>"

definition sample_flags :: flags where
  "sample_flags = default_flags\<lparr>fl_framework := ''fib'', fl_numConnections := 1, fl_echoTimes := 1, fl_psMode := PSModeRemote\<rparr>"

lemma sample_runs: "world_runs sample_flags sample_world"
proof -
  have "dial_bench one_dial cs0" if "Connections_init 4 (main_connections sample_flags) = Inr cs0" for cs0
  proof (rule one_dial)
    show "dialable cs0" using Connections_init_dialable [OF that] main_connections_fresh(1) by blast
    show "cs_NumConnections cs0 = 1" using that
      by (auto simp: Connections_init_def Connections_settings_def main_connections_def Connections_New_def sample_flags_def Let_def
          split: sum.splits)
  qed
  moreover have "rate_ran (\<lambda>br conns. (\<lambda>i. br, 0)) br conns" for br :: "unit BenchRate" and conns
    unfolding rate_ran_def
    by (rule exI [of _ "\<lambda>i. rate_start br conns (nat (rb_Concurrency br))"])
      (simp add: reach_start [of "\<lambda>s. s = rate_start br conns (nat (rb_Concurrency br))"], simp add: rate_start_def list_all_length)
  ultimately show ?thesis by (simp add: world_runs_def sample_world_def)
qed

lemma sample_connections:
  obtains cs where "Connections_Run (w_dial sample_world) (w_client sample_world) (w_ncpu sample_world) (main_connections sample_flags)
      = Inr (cs, sample_calc)" "length (cs_conns cs) = 1" "fits (ConnR (Connections_Report sample_calc cs))"
proof -
  have "main_checks sample_flags = None"
    using framework_ports [of "''fib''"]
    by (auto simp: main_checks_def sample_flags_def default_flags_def ValidateSort_def SortOrders_def ValidatePSMode_def
        FrameworkList_def)
  then obtain cs0 where init: "Connections_init 4 (main_connections sample_flags) = Inr cs0"
    using checked_init [of sample_flags 4] by (auto simp: sample_flags_def default_flags_def)
  have cs0: "cs_NumConnections cs0 = 1" "cs_Concurrency cs0 = 1" "cs_MaxStreams cs0 = 0" "cs_MinMaxStreams cs0 = 0"
    using init by (auto simp: Connections_init_def Connections_settings_def Connections_load_def main_connections_def Connections_New_def
        sample_flags_def default_flags_def Let_def split: sum.splits)
  let ?cs = "Connections_clean (Run_limits (w_client sample_world) (fst (one_dial cs0)))"
  have "Connections_Run (w_dial sample_world) (w_client sample_world) (w_ncpu sample_world) (main_connections sample_flags)
      = Inr (?cs, sample_calc)"
    using init by (simp add: Connections_Run_def sample_world_def one_dial_def)
  moreover have "cs_MinMaxStreams ?cs = 100"
    using cs0 by (simp add: Run_limits_def one_dial_def Connections_clean_def sample_world_def MaxStreams_def NewClientConn_def conn_Write_def)
  then have "fits (ConnR (Connections_Report sample_calc ?cs))"
    using cs0 by (cases "cs_EnalbeTPN cs0")
      (simp_all add: Connections_Report_def create_Connections_def sample_calc_def int64_def Connections_clean_def one_dial_def Let_def)
  ultimately show ?thesis using that by (simp add: Connections_clean_def one_dial_def)
qed

lemma GetFrameworkPsInfo_unreadable: "fst (GetFrameworkPsInfo (\<lambda>_. None) cpuAvg net framework ip) = None"
  by (simp add: GetFrameworkPsInfo_def Let_def split: sum.split option.split)

lemma sample_source: "Source (main_setup sample_flags sample_world) = RemotePSSource ''fib'' ''127.0.0.1''"
  by (simp add: main_setup_def SetupPS_def sample_flags_def default_flags_def PSModeRemote_def PSModeLocal_def PSModeAuto_def Let_def
      split: sum.split prod.split option.split)

lemma sample_echo_run:
  obtains r where "run_echo sample_flags sample_world (main_setup sample_flags sample_world) [0] = Inr r" "fits (EchoR r)"
proof -
  let ?be = "main_echo sample_flags (main_setup sample_flags sample_world) [0]"
  let ?rnd = "\<lambda>i n. replicate n 0 :: bytes"
  have be: "eb_Conns ?be = [0]" "eb_Streams ?be = 1" "eb_Total ?be = 1" "eb_Payload ?be = 1024"
    by (simp_all add: main_echo_def BenchEcho_New_def sample_flags_def default_flags_def)
  obtain be1 where be1: "BenchEcho_init 4 ?rnd ?be = Some be1" using BenchEcho_init_None [of 4 ?rnd ?be] be(1) by auto
  note ok = BenchEcho_init_ok [OF be1]
  have "eb_Payload be1 = 1024" using ok(14) be(4) by simp
  moreover have "eb_Concurrency be1 = 1" "eb_Streams be1 = 1" "eb_Conns be1 = [0]" "eb_Total be1 = 1" using ok(2,3,5,11,13) be by simp_all
  ultimately have fits: "list_all int64 [int (length (eb_Conns b)), eb_Concurrency b, eb_Streams b, eb_Payload b, eb_Total b]"
    if "b = (BenchEcho_clean be1)\<lparr>eb_PsSource := source\<rparr>" for b source
    by (simp add: that BenchEcho_clean_def int64_def)
  let ?b = "(BenchEcho_clean be1)\<lparr>eb_PsSource := Some (RemotePSSource ''fib'' ''127.0.0.1'')\<rparr>"
  have "fits (EchoR (BenchEcho_Report sample_calc None ?b))"
    by (rule BenchEcho_Report_fits [OF _ _ fits [OF refl]]) (simp_all add: calc_ok_def sample_calc_def)
  then have "fits (EchoR (main_echo_report sample_flags (main_setup sample_flags sample_world) (BenchEcho_Report sample_calc None ?b)))"
    by (simp add: main_echo_report_def)
  moreover have "run_echo sample_flags sample_world (main_setup sample_flags sample_world) [0]
      = Inr (main_echo_report sample_flags (main_setup sample_flags sample_world) (BenchEcho_Report sample_calc None ?b))"
  proof -
    have "BenchEcho_Run (w_ncpu sample_world) (w_echoRnd sample_world) (w_warmup sample_world) (w_benchmark sample_world) ?be
        = Some (BenchEcho_clean be1, sample_calc)"
      using be1 by (simp add: BenchEcho_Run_def sample_world_def BenchEcho_clean_def)
    moreover have "echo_profiled sample_flags (main_setup sample_flags sample_world) (w_echoProfile sample_world) b = b" for b
      by (simp add: echo_profiled_def sample_flags_def default_flags_def)
    moreover have "fst (eb_psInfo (w_unmarshal sample_world) pc_CPUAvg (w_counter sample_world) (w_echoPs sample_world) ?b) = None"
      using GetFrameworkPsInfo_unreadable by (simp add: eb_psInfo_def sample_world_def case_prod_beta)
    ultimately show ?thesis by (simp add: run_echo_def sample_source case_prod_beta)
  qed
  ultimately show ?thesis using that by blast
qed

theorem main_saves_reports_witness:
  "\<exists>F'. client_main sample_flags plain_fmt sample_world \<lparr>writable = \<lambda>_. True, files = \<lambda>_. None\<rparr> = (None, F')
     \<and> (\<forall>r \<in> set (main_reports sample_flags sample_world). read_report '''' '''' (create_like r) F' ''fib'' = Some (unprofiled r))"
proof -
  let ?F = "\<lparr>writable = \<lambda>_. True, files = \<lambda>_. None\<rparr> :: fs"
  obtain cs where cs: "Connections_Run (w_dial sample_world) (w_client sample_world) (w_ncpu sample_world) (main_connections sample_flags)
      = Inr (cs, sample_calc)" "length (cs_conns cs) = 1" "fits (ConnR (Connections_Report sample_calc cs))" by (rule sample_connections)
  obtain r where r: "run_echo sample_flags sample_world (main_setup sample_flags sample_world) [0] = Inr r" "fits (EchoR r)"
    by (rule sample_echo_run)
  have fl: "\<not> fl_rateEnabled sample_flags" "\<not> fl_genReport sample_flags" "main_checks sample_flags = None"
    "fl_preffix sample_flags = ''''" "fl_suffix sample_flags = ''''" "fl_framework sample_flags = ''fib''"
    using framework_ports [of "''fib''"]
    by (auto simp: main_checks_def sample_flags_def default_flags_def ValidateSort_def SortOrders_def ValidatePSMode_def
        FrameworkList_def)
  have fits: "list_all fits (main_reports sample_flags sample_world)" using cs r fl by (simp add: main_reports_def)
  obtain F' where main: "client_main sample_flags plain_fmt sample_world ?F = (None, F')"
    using cs r fl by (auto simp: client_main_def run_benchmarks_def Let_def)
  from main_saves_reports [OF main fl(2) sample_runs _ fits] main fl show ?thesis by simp
qed

theorem main_exit_reasons_witness:
  "fst (client_main (sample_flags\<lparr>fl_framework := ''spring''\<rparr>) plain_fmt sample_world \<lparr>writable = \<lambda>_. True, files = \<lambda>_. None\<rparr>)
   = Some (Refused (BadFramework (UnknownFramework ''spring'')))
   \<and> snd (client_main (sample_flags\<lparr>fl_framework := ''spring''\<rparr>) plain_fmt sample_world \<lparr>writable = \<lambda>_. True, files = \<lambda>_. None\<rparr>)
     = \<lparr>writable = \<lambda>_. True, files = \<lambda>_. None\<rparr>"
proof -
  let ?fl = "sample_flags\<lparr>fl_framework := ''spring''\<rparr>" and ?F = "\<lparr>writable = \<lambda>_. True, files = \<lambda>_. None\<rparr> :: fs"
  have checks: "main_checks ?fl = Some (BadFramework (UnknownFramework ''spring''))"
    using unknown_framework [of "''spring''"]
    by (simp add: main_checks_def sample_flags_def default_flags_def ValidateSort_def SortOrders_def ValidatePSMode_def FrameworkList_def)
  then obtain e F' where main: "client_main ?fl plain_fmt sample_world ?F = (Some e, F')" by (auto simp: client_main_def)
  have "\<not> fl_genReport ?fl" "0 < w_ncpu sample_world" by (simp_all add: sample_flags_def default_flags_def sample_world_def)
  from main_exit_reasons [OF main this] checks main show ?thesis by auto
qed

end
