(* ===== verification/ServerMain.thy ===== *)
theory ServerMain
  imports Server
begin

text \<open>
  The benchmark servers as programs: \<^verbatim>\<open>frameworks/frameworks.go\<close>, the control routes of \<^verbatim>\<open>frameworks/handlers.go\<close>, and the
  \<^verbatim>\<open>main\<close> of each \<^verbatim>\<open>frameworks/*/server.go\<close>.

  A \<^verbatim>\<open>main\<close> is a function of its flags and of what the machine lets it do to the error that ends the program, or to the
  servers it runs: for each port what it listens with, what it speaks, what it does to a connection
  it accepts and which routes it has. Waiting for the signal is the point between that and \<open>server_exit\<close>. The routers and the servers
  themselves are third-party code; what is registered with them and how they are set is here.
\<close>

section \<open>Flags and the machine\<close>

record server_flags =
  sf_nodelay :: bool
  sf_reuse :: bool
  sf_payload :: int
  sf_memLimit :: int
  sf_maxStreams :: int

definition default_server_flags :: server_flags where
  "default_server_flags =
     \<lparr>sf_nodelay = True, sf_reuse = True, sf_payload = 1024, sf_memLimit = 1024 * 1024 * 1024 * 2, sf_maxStreams = 250\<rparr>"

record server_env =
  env_bind :: "string \<Rightarrow> bool" \<comment> \<open>an address can be listened on\<close>
  env_psCounter :: bool \<comment> \<open>\<^verbatim>\<open>perf.NewPSCounter\<close> of the server's own pid succeeds\<close>
  env_fibBind :: "string list \<Rightarrow> bool" \<comment> \<open>\<^verbatim>\<open>fib.Bind\<close> succeeds on the addresses\<close>
  env_fibReuse :: bool \<comment> \<open>what \<^verbatim>\<open>fib.DefaultConfig\<close> says of \<^verbatim>\<open>SO_REUSEPORT\<close>\<close>

datatype server_fatal =
    BadMaxStreams int
  | NoControlAddr config_error
  | NoPSCounter
  | CannotListen listen_error
  | CannotBind nat

section \<open>Accepted connections\<close>

text \<open>A connection as the transport hands it over: whether TCP\_NODELAY is on, and whether it can be set.\<close>

record net_conn =
  nc_nodelay :: bool
  nc_has :: bool \<comment> \<open>it has the interface the option is set by: \<^verbatim>\<open>SetNoDelay\<close>, or hertz's descriptor\<close>
  nc_sockopt :: bool \<comment> \<open>setting the option succeeds\<close>
  nc_closed :: bool

definition SetNoDelay :: "net_conn \<Rightarrow> bool \<Rightarrow> net_conn" where
  "SetNoDelay c nodelay = (if nc_has c \<and> nc_sockopt c then c\<lparr>nc_nodelay := nodelay\<rparr> else c)"

definition noDelayListener_Accept :: "string + net_conn \<Rightarrow> string + net_conn" where
  "noDelayListener_Accept accepted = (case accepted of Inl e \<Rightarrow> Inl e | Inr c \<Rightarrow> Inr (SetNoDelay c False))"

definition listener_Accept :: "listener \<Rightarrow> string + net_conn \<Rightarrow> string + net_conn" where
  "listener_Accept sock accepted = (if ln_nodelay sock then accepted else noDelayListener_Accept accepted)"

text \<open>fib's \<^verbatim>\<open>OnOpen\<close> closes a connection the option cannot be set on; hertz's \<^verbatim>\<open>onAccept\<close> leaves it as it is.\<close>

definition fib_OnOpen :: "bool \<Rightarrow> net_conn \<Rightarrow> net_conn" where
  "fib_OnOpen nodelay c = (if \<not> nc_sockopt c then c\<lparr>nc_closed := True\<rparr> else c\<lparr>nc_nodelay := nodelay\<rparr>)"

definition hertz_onAccept :: "bool \<Rightarrow> net_conn \<Rightarrow> net_conn" where
  "hertz_onAccept nodelay c =
     (if \<not> nodelay then (if nc_has c then (if nc_sockopt c then c\<lparr>nc_nodelay := False\<rparr> else c) else c) else c)"

section \<open>The control server\<close>

datatype control_route = PprofIndex | PprofCmdline | PprofProfile | PprofSymbol | PprofTrace | InitRoute | PsRoute

text \<open>\<^verbatim>\<open>HandleCommon\<close>: the routes; \<open>None\<close> where there is no counter, which ends the program.\<close>

definition HandleCommon :: "bool \<Rightarrow> (string \<times> control_route) list option" where
  "HandleCommon psCounter =
     (let mux = [(''/debug/pprof/'', PprofIndex), (''/debug/pprof/cmdline'', PprofCmdline),
                 (''/debug/pprof/profile'', PprofProfile), (''/debug/pprof/symbol'', PprofSymbol), (''/debug/pprof/trace'', PprofTrace)]
      in if \<not> psCounter then None else Some (mux @ [(''/init'', InitRoute), (''/ps'', PsRoute)]))"

text \<open>
  \<^verbatim>\<open>http.ServeMux\<close> on patterns that are paths: a pattern that ends in a slash stands for every path below it, and the
  longest that fits is taken.
\<close>

definition mux_fits :: "string \<Rightarrow> string \<Rightarrow> bool" where
  "mux_fits path pattern \<longleftrightarrow> pattern = path \<or> (pattern \<noteq> [] \<and> last pattern = CHR ''/'' \<and> HasPrefix path pattern)"

definition mux_find :: "(string \<times> 'h) list \<Rightarrow> string \<Rightarrow> 'h option" where
  "mux_find mux path =
     (case filter (\<lambda>(pattern, h). mux_fits path pattern) mux of
        [] \<Rightarrow> None
      | r # rs \<Rightarrow> Some (snd (foldl (\<lambda>best r. if length (fst r) > length (fst best) then r else best) r rs)))"

record control_server =
  ct_addr :: string
  ct_mux :: "(string \<times> control_route) list"
  ct_closed :: bool

definition StartControlServer :: "server_env \<Rightarrow> string \<Rightarrow> server_fatal + control_server" where
  "StartControlServer E framework =
     (case GetFrameworkControlServerAddr framework of
        Inl e \<Rightarrow> Inl (NoControlAddr e)
      | Inr addr \<Rightarrow>
          (case HandleCommon (env_psCounter E) of
             None \<Rightarrow> Inl NoPSCounter
           | Some mux \<Rightarrow> Inr \<lparr>ct_addr = addr, ct_mux = mux, ct_closed = False\<rparr>))"

section \<open>Servers\<close>

text \<open>The routes a server has: methods and paths of a router, no method being any, or the framework's own function for everything.\<close>

datatype handler = Plain_onEcho | Gin_onEcho | Echo_onEcho | Beego_onEcho | Fib_onRequest | Hertz_onEcho

datatype routes = Router "(string option \<times> string) list" handler | Everything handler

record http_server =
  hs_handler :: routes
  hs_HTTP1 :: bool
  hs_UnencryptedHTTP2 :: bool
  hs_MaxConcurrentStreams :: int

definition NewHTTP2Server :: "int \<Rightarrow> routes \<Rightarrow> http_server" where
  "NewHTTP2Server maxStreams handler =
     \<lparr>hs_handler = handler, hs_HTTP1 = False, hs_UnencryptedHTTP2 = True, hs_MaxConcurrentStreams = maxStreams\<rparr>"

text \<open>What a benchmark port is set up to do, whatever serves it: \<open>po_open\<close> is what becomes of a connection the transport accepts.\<close>

record port =
  po_network :: string
  po_addr :: string
  po_reuse :: bool
  po_HTTP1 :: bool
  po_HTTP2 :: bool
  po_maxStreams :: int
  po_open :: "string + net_conn \<Rightarrow> string + net_conn"
  po_handler :: routes
  po_closed :: bool

definition Serve :: "listener \<Rightarrow> http_server \<Rightarrow> port" where
  "Serve sock server =
     \<lparr>po_network = ln_network sock, po_addr = ln_addr sock, po_reuse = ln_reuse sock, po_HTTP1 = hs_HTTP1 server,
      po_HTTP2 = hs_UnencryptedHTTP2 server, po_maxStreams = hs_MaxConcurrentStreams server, po_open = listener_Accept sock,
      po_handler = hs_handler server, po_closed = False\<rparr>"

definition ServeHTTP2 :: "routes \<Rightarrow> string \<Rightarrow> server_flags \<Rightarrow> server_env \<Rightarrow> server_fatal + port list" where
  "ServeHTTP2 handler framework fl E =
     (case ListenAll (env_bind E) (sf_reuse fl) (sf_nodelay fl) framework of
        Inl e \<Rightarrow> Inl (CannotListen e)
      | Inr socks \<Rightarrow> Inr (map (\<lambda>sock. Serve sock (NewHTTP2Server (sf_maxStreams fl) handler)) socks))"

record server_run =
  sv_control :: control_server
  sv_ports :: "port list"

text \<open>What every \<^verbatim>\<open>main\<close> does first, and what it leaves when it is told to stop.\<close>

definition start_server ::
  "string \<Rightarrow> (server_flags \<Rightarrow> server_env \<Rightarrow> server_fatal + port list) \<Rightarrow> server_flags \<Rightarrow> server_env \<Rightarrow> server_fatal + server_run" where
  "start_server framework serve fl E =
     (case server_Init (sf_maxStreams fl) of
        Some n \<Rightarrow> Inl (BadMaxStreams n)
      | None \<Rightarrow>
          (case StartControlServer E framework of
             Inl e \<Rightarrow> Inl e
           | Inr control \<Rightarrow> (case serve fl E of Inl e \<Rightarrow> Inl e | Inr ports \<Rightarrow> Inr \<lparr>sv_control = control, sv_ports = ports\<rparr>)))"

definition server_exit :: "server_run \<Rightarrow> server_run" where
  "server_exit run =
     run\<lparr>sv_ports := map (\<lambda>p. p\<lparr>po_closed := True\<rparr>) (sv_ports run), sv_control := (sv_control run)\<lparr>ct_closed := True\<rparr>\<rparr>"

section \<open>net/http and its routers\<close>

definition nethttp_main :: "server_flags \<Rightarrow> server_env \<Rightarrow> server_fatal + server_run" where
  "nethttp_main = start_server ''nethttp'' (ServeHTTP2 (Router [(None, EchoPath)] Plain_onEcho) ''nethttp'')"

definition chi_main :: "server_flags \<Rightarrow> server_env \<Rightarrow> server_fatal + server_run" where
  "chi_main = start_server ''chi'' (ServeHTTP2 (Router [(None, EchoPath)] Plain_onEcho) ''chi'')"

definition gorillamux_main :: "server_flags \<Rightarrow> server_env \<Rightarrow> server_fatal + server_run" where
  "gorillamux_main = start_server ''gorillamux'' (ServeHTTP2 (Router [(None, EchoPath)] Plain_onEcho) ''gorillamux'')"

definition goji_main :: "server_flags \<Rightarrow> server_env \<Rightarrow> server_fatal + server_run" where
  "goji_main = start_server ''goji'' (ServeHTTP2 (Router [(None, EchoPath)] Plain_onEcho) ''goji'')"

definition httprouter_main :: "server_flags \<Rightarrow> server_env \<Rightarrow> server_fatal + server_run" where
  "httprouter_main =
     start_server ''httprouter''
       (ServeHTTP2 (Router [(Some ''GET'', EchoPath), (Some ''POST'', EchoPath)] Plain_onEcho) ''httprouter'')"

definition gin_main :: "server_flags \<Rightarrow> server_env \<Rightarrow> server_fatal + server_run" where
  "gin_main = start_server ''gin'' (ServeHTTP2 (Router [(None, EchoPath)] Gin_onEcho) ''gin'')"

definition echo_main :: "server_flags \<Rightarrow> server_env \<Rightarrow> server_fatal + server_run" where
  "echo_main = start_server ''echo'' (ServeHTTP2 (Router [(None, EchoPath)] Echo_onEcho) ''echo'')"

definition beego_main :: "server_flags \<Rightarrow> server_env \<Rightarrow> server_fatal + server_run" where
  "beego_main = start_server ''beego'' (ServeHTTP2 (Router [(None, EchoPath)] Beego_onEcho) ''beego'')"

section \<open>fib\<close>

record fib_config =
  fc_HTTP2Only :: bool
  fc_MaxConcurrentStreams :: uint32
  fc_Network :: string
  fc_Addrs :: "string list"
  fc_nodelay :: bool
  fc_handler :: routes

definition fib_configure :: "server_flags \<Rightarrow> string list \<Rightarrow> fib_config" where
  "fib_configure fl addrs =
     \<lparr>fc_HTTP2Only = True, fc_MaxConcurrentStreams = word_of_int (sf_maxStreams fl), fc_Network = ''tcp4'', fc_Addrs = addrs,
      fc_nodelay = sf_nodelay fl, fc_handler = Everything Fib_onRequest\<rparr>"

text \<open>
  What that asks of each address, in the terms of a port; that fib serves HTTP/2 is relied on only of one told to serve nothing
  else.
\<close>

definition fib_ports :: "server_env \<Rightarrow> fib_config \<Rightarrow> port list" where
  "fib_ports E c =
     map (\<lambda>addr.
       \<lparr>po_network = fc_Network c, po_addr = addr, po_reuse = env_fibReuse E, po_HTTP1 = \<not> fc_HTTP2Only c,
        po_HTTP2 = fc_HTTP2Only c,
        po_maxStreams = uint (fc_MaxConcurrentStreams c), po_open = map_sum id (fib_OnOpen (fc_nodelay c)),
        po_handler = fc_handler c, po_closed = False\<rparr>) (fc_Addrs c)"

definition fib_serve :: "server_flags \<Rightarrow> server_env \<Rightarrow> server_fatal + port list" where
  "fib_serve fl E =
     (case ServerAddrs ''fib'' of
        Inl e \<Rightarrow> Inl (CannotListen (NoAddrs e))
      | Inr addrs \<Rightarrow> (let c = fib_configure fl addrs
                     in if \<not> env_fibBind E (fc_Addrs c) then Inl (CannotBind (length addrs)) else Inr (fib_ports E c)))"

definition fib_main :: "server_flags \<Rightarrow> server_env \<Rightarrow> server_fatal + server_run" where
  "fib_main = start_server ''fib'' fib_serve"

section \<open>hertz\<close>

datatype hertz_protocol = HTTP2Factory uint32 int | RefuseFactory

text \<open>The server \<^verbatim>\<open>refuseFactory\<close> makes: it returns, and the connection is closed with nothing read or written.\<close>

definition refuseServer_Serve :: "net_conn \<Rightarrow> net_conn" where
  "refuseServer_Serve c = c\<lparr>nc_closed := True\<rparr>"

record hertz_engine =
  he_listener :: listener
  he_H2C :: bool
  he_ReadTimeout :: int
  he_OnAccept :: "net_conn \<Rightarrow> net_conn"
  he_HTTP2 :: hertz_protocol
  he_HTTP1 :: hertz_protocol
  he_handler :: routes

definition newEngine :: "server_flags \<Rightarrow> listener \<Rightarrow> hertz_engine" where
  "newEngine fl sock =
     \<lparr>he_listener = sock, he_H2C = True, he_ReadTimeout = 0, he_OnAccept = hertz_onAccept (sf_nodelay fl),
      he_HTTP2 = HTTP2Factory (word_of_int (sf_maxStreams fl)) 0, he_HTTP1 = RefuseFactory,
      he_handler = Router [(None, EchoPath)] Hertz_onEcho\<rparr>"

text \<open>What an engine's settings ask of its port.\<close>

definition hertz_port :: "hertz_engine \<Rightarrow> port" where
  "hertz_port h =
     \<lparr>po_network = ln_network (he_listener h), po_addr = ln_addr (he_listener h), po_reuse = ln_reuse (he_listener h),
      po_HTTP1 = (he_HTTP1 h \<noteq> RefuseFactory), po_HTTP2 = (he_H2C h \<and> he_HTTP2 h \<noteq> RefuseFactory),
      po_maxStreams = (case he_HTTP2 h of HTTP2Factory n idle \<Rightarrow> uint n | RefuseFactory \<Rightarrow> 0),
      po_open = map_sum id (he_OnAccept h), po_handler = he_handler h, po_closed = False\<rparr>"

definition hertz_serve :: "server_flags \<Rightarrow> server_env \<Rightarrow> server_fatal + port list" where
  "hertz_serve fl E =
     (case ServerAddrs ''hertz'' of
        Inl e \<Rightarrow> Inl (CannotListen (NoAddrs e))
      | Inr addrs \<Rightarrow>
          (case listen_loop (ListenSocket (env_bind E) (sf_reuse fl) ''tcp'') addrs of
             Inl e \<Rightarrow> Inl (CannotListen e)
           | Inr socks \<Rightarrow> Inr (map (\<lambda>sock. hertz_port (newEngine fl sock)) socks)))"

definition hertz_main :: "server_flags \<Rightarrow> server_env \<Rightarrow> server_fatal + server_run" where
  "hertz_main = start_server ''hertz'' hertz_serve"

section \<open>What every server promises\<close>

text \<open>What a handler answers a request to a path, with the parameters of the handlers' models.\<close>

fun handler_answer ::
  "string \<Rightarrow> string \<Rightarrow> (nat \<Rightarrow> nat) \<Rightarrow> nat \<Rightarrow> (read_error \<Rightarrow> string) \<Rightarrow> handler \<Rightarrow> string \<Rightarrow> reader \<Rightarrow> int \<Rightarrow> nat list \<Rightarrow> response" where
  "handler_answer ginType echoType grow payload msg Plain_onEcho path body n pool = fst (OnEcho grow payload msg body n pool)"
| "handler_answer ginType echoType grow payload msg Gin_onEcho path body n pool = fst (gin_onEcho ginType grow payload msg body n pool)"
| "handler_answer ginType echoType grow payload msg Echo_onEcho path body n pool = fst (echo_onEcho echoType grow payload msg body n pool)"
| "handler_answer ginType echoType grow payload msg Beego_onEcho path body n pool = fst (beego_onEcho grow payload msg body n pool)"
| "handler_answer ginType echoType grow payload msg Fib_onRequest path body n pool = fst (fib_onRequest grow payload msg path body n pool)"
| "handler_answer ginType echoType grow payload msg Hertz_onEcho path body n pool = hertz_onEcho (rd_content body)"

definition handles :: "handler \<Rightarrow> string \<Rightarrow> bool" where
  "handles h path \<longleftrightarrow> (\<forall>ginType echoType grow payload msg body pool.
     let r = handler_answer ginType echoType grow payload msg h path body (int (length (rd_content body))) pool
     in rsp_status r = 200 \<and> rsp_body r = rd_content body)"

lemma handler_answer_echoes:
  assumes "n = int (length (rd_content body)) \<or> n = - 1 \<and> rd_end body = EOF"
  shows "rsp_status (handler_answer ginType echoType grow payload msg h EchoPath body n pool) = 200
    \<and> rsp_body (handler_answer ginType echoType grow payload msg h EchoPath body n pool) = rd_content body"
proof (cases "h = Hertz_onEcho")
  case True
  then show ?thesis by (simp add: hertz_onEcho_def)
next
  case False
  then obtain f where f: "handler_answer ginType echoType grow payload msg h EchoPath body n pool = fst (f grow payload msg body n pool)"
    "f \<in> {OnEcho, gin_onEcho ginType, echo_onEcho echoType, beego_onEcho, \<lambda>grow payload msg. fib_onRequest grow payload msg EchoPath}"
    by (cases h) auto
  have "- 1 \<le> n" using assms by auto
  with assms handlers_answer [OF f(2) this, of body grow payload msg pool] show ?thesis by (auto simp: f(1) Let_def)
qed

lemma handles_EchoPath [simp]: "handles h EchoPath"
  using handler_answer_echoes by (simp add: handles_def Let_def)

text \<open>
  The requests a port answers with an echo: the router has the route and its handler answers with the body, or a handler for
  everything does so on the path.
\<close>

fun echoes :: "routes \<Rightarrow> string \<Rightarrow> string \<Rightarrow> bool" where
  "echoes (Router rs h) meth path \<longleftrightarrow> list_ex (\<lambda>(m, p). (m = None \<or> m = Some meth) \<and> p = path) rs \<and> handles h path"
| "echoes (Everything h) meth path \<longleftrightarrow> handles h path"

definition good_port :: "server_flags \<Rightarrow> string \<Rightarrow> port \<Rightarrow> bool" where
  "good_port fl network p \<longleftrightarrow> po_network p = network \<and> \<not> po_HTTP1 p \<and> po_HTTP2 p \<and> po_maxStreams p = sf_maxStreams fl
     \<and> echoes (po_handler p) ''GET'' EchoPath \<and> echoes (po_handler p) ''POST'' EchoPath \<and> \<not> po_closed p
     \<and> (\<forall>c. nc_nodelay c \<and> nc_has c \<and> nc_sockopt c \<longrightarrow> po_open p (Inr c) = Inr (c\<lparr>nc_nodelay := sf_nodelay fl\<rparr>))"

locale benchmark_server =
  fixes framework :: string and serve :: "server_flags \<Rightarrow> server_env \<Rightarrow> server_fatal + port list"
    and network :: string and can_listen :: "server_env \<Rightarrow> string list \<Rightarrow> bool"
  assumes known: "framework \<in> set FrameworkList"
    and serves: "GetFrameworkServerAddrs framework = Inr addrs \<Longrightarrow> can_listen E addrs \<Longrightarrow>
      1 \<le> sf_maxStreams fl \<Longrightarrow> sf_maxStreams fl < 2 ^ 32 \<Longrightarrow>
      \<exists>ports. serve fl E = Inr ports \<and> map po_addr ports = addrs \<and> list_all (good_port fl network) ports"
    and stops: "GetFrameworkServerAddrs framework = Inr addrs \<Longrightarrow> serve fl E = Inr ports \<Longrightarrow> can_listen E addrs"
begin

lemma addrs: "\<exists>addrs control. GetFrameworkServerAddrs framework = Inr addrs \<and> GetFrameworkControlServerAddr framework = Inr control"
  using framework_ports [OF known] by (auto simp: GetFrameworkServerAddrs_def GetFrameworkControlServerAddr_def frameworkControlPort_def)

lemma starts:
  assumes "1 \<le> sf_maxStreams fl" and "sf_maxStreams fl < 2 ^ 32" and "env_psCounter E"
    and "GetFrameworkServerAddrs framework = Inr addrs" and "can_listen E addrs"
  shows "\<exists>run. start_server framework serve fl E = Inr run \<and> map po_addr (sv_ports run) = addrs
    \<and> list_all (good_port fl network) (sv_ports run)
    \<and> GetFrameworkControlServerAddr framework = Inr (ct_addr (sv_control run))
    \<and> HandleCommon True = Some (ct_mux (sv_control run)) \<and> \<not> ct_closed (sv_control run)"
  using serves [OF assms(4,5,1,2)] assms(1,3) addrs
  by (auto simp: start_server_def server_Init_def StartControlServer_def HandleCommon_def)

lemma started:
  assumes "start_server framework serve fl E = Inr run" and "GetFrameworkServerAddrs framework = Inr addrs"
  shows "1 \<le> sf_maxStreams fl \<and> env_psCounter E \<and> can_listen E addrs"
  using assms stops [OF assms(2)]
  by (auto simp: start_server_def server_Init_def StartControlServer_def HandleCommon_def split: if_splits sum.splits)

end

lemma ServeHTTP2_server:
  assumes "framework \<in> set FrameworkList" and "echoes h ''GET'' EchoPath" and "echoes h ''POST'' EchoPath"
  shows "benchmark_server framework (ServeHTTP2 h framework) ''tcp'' (\<lambda>E. list_all (env_bind E))"
proof (unfold_locales, goal_cases)
  case 1
  show ?case by (fact assms(1))
next
  case (2 addrs E fl)
  let ?listen = "Listen (env_bind E) (sf_reuse fl) (sf_nodelay fl) ''tcp''"
  have all: "list_all (\<lambda>a. ?listen a \<noteq> None) addrs" using 2(2) by simp
  have "\<forall>a \<in> set addrs. env_bind E a" using 2(2) by (simp add: list_all_iff)
  then have "\<forall>a \<in> set addrs. ln_addr (the (?listen a)) = a
      \<and> good_port fl ''tcp'' (Serve (the (?listen a)) (NewHTTP2Server (sf_maxStreams fl) h))"
    using assms(2,3) by (auto simp: good_port_def Serve_def NewHTTP2Server_def Listen_def ListenSocket_def listener_Accept_def
        noDelayListener_Accept_def SetNoDelay_def)
  moreover have "ServeHTTP2 h framework fl E
      = Inr (map (\<lambda>sock. Serve sock (NewHTTP2Server (sf_maxStreams fl) h)) (map (\<lambda>a. the (?listen a)) addrs))"
    using 2(1) listen_loop_ok [OF all] by (simp add: ServeHTTP2_def ListenAll_def ServerAddrs_def)
  ultimately show ?case by (auto simp: list_all_iff Serve_def o_def intro!: map_idI)
next
  case (3 addrs fl E ports)
  then show ?case using listen_loop_fails [of "Listen (env_bind E) (sf_reuse fl) (sf_nodelay fl) ''tcp''" addrs]
    by (auto simp: ServeHTTP2_def ListenAll_def ServerAddrs_def split: sum.splits)
qed

lemma uint_maxStreams: "0 \<le> n \<Longrightarrow> n < 2 ^ 32 \<Longrightarrow> uint (word_of_int n :: uint32) = n"
  by (simp add: uint_word_of_int)

interpretation nethttp: benchmark_server "''nethttp''" "ServeHTTP2 (Router [(None, EchoPath)] Plain_onEcho) ''nethttp''"
  "''tcp''" "\<lambda>E. list_all (env_bind E)"
  by (rule ServeHTTP2_server) (simp_all add: FrameworkList_def)

interpretation chi: benchmark_server "''chi''" "ServeHTTP2 (Router [(None, EchoPath)] Plain_onEcho) ''chi''"
  "''tcp''" "\<lambda>E. list_all (env_bind E)"
  by (rule ServeHTTP2_server) (simp_all add: FrameworkList_def)

interpretation gorillamux: benchmark_server "''gorillamux''" "ServeHTTP2 (Router [(None, EchoPath)] Plain_onEcho) ''gorillamux''"
  "''tcp''" "\<lambda>E. list_all (env_bind E)"
  by (rule ServeHTTP2_server) (simp_all add: FrameworkList_def)

interpretation goji: benchmark_server "''goji''" "ServeHTTP2 (Router [(None, EchoPath)] Plain_onEcho) ''goji''"
  "''tcp''" "\<lambda>E. list_all (env_bind E)"
  by (rule ServeHTTP2_server) (simp_all add: FrameworkList_def)

interpretation httprouter: benchmark_server "''httprouter''"
  "ServeHTTP2 (Router [(Some ''GET'', EchoPath), (Some ''POST'', EchoPath)] Plain_onEcho) ''httprouter''"
  "''tcp''" "\<lambda>E. list_all (env_bind E)"
  by (rule ServeHTTP2_server) (simp_all add: FrameworkList_def)

interpretation gin: benchmark_server "''gin''" "ServeHTTP2 (Router [(None, EchoPath)] Gin_onEcho) ''gin''"
  "''tcp''" "\<lambda>E. list_all (env_bind E)"
  by (rule ServeHTTP2_server) (simp_all add: FrameworkList_def)

interpretation echo: benchmark_server "''echo''" "ServeHTTP2 (Router [(None, EchoPath)] Echo_onEcho) ''echo''"
  "''tcp''" "\<lambda>E. list_all (env_bind E)"
  by (rule ServeHTTP2_server) (simp_all add: FrameworkList_def)

interpretation beego: benchmark_server "''beego''" "ServeHTTP2 (Router [(None, EchoPath)] Beego_onEcho) ''beego''"
  "''tcp''" "\<lambda>E. list_all (env_bind E)"
  by (rule ServeHTTP2_server) (simp_all add: FrameworkList_def)

interpretation fib: benchmark_server "''fib''" fib_serve "''tcp4''" env_fibBind
proof (unfold_locales, goal_cases)
  case 1
  show ?case by (simp add: FrameworkList_def)
next
  case (2 addrs E fl)
  have "list_all (good_port fl ''tcp4'') (fib_ports E (fib_configure fl addrs))"
    using 2(3,4) by (auto simp: good_port_def fib_ports_def fib_configure_def list_all_iff fib_OnOpen_def uint_maxStreams)
  moreover have "map po_addr (fib_ports E (fib_configure fl addrs)) = addrs"
    by (simp add: fib_ports_def fib_configure_def o_def)
  ultimately show ?case using 2(1,2) by (simp add: fib_serve_def ServerAddrs_def fib_configure_def)
next
  case (3 addrs fl E ports)
  then show ?case by (auto simp: fib_serve_def ServerAddrs_def fib_configure_def Let_def split: if_splits)
qed

interpretation hertz: benchmark_server "''hertz''" hertz_serve "''tcp''" "\<lambda>E. list_all (env_bind E)"
proof (unfold_locales, goal_cases)
  case 1
  show ?case by (simp add: FrameworkList_def)
next
  case (2 addrs E fl)
  let ?listen = "ListenSocket (env_bind E) (sf_reuse fl) ''tcp''"
  have all: "list_all (\<lambda>a. ?listen a \<noteq> None) addrs" using 2(2) by simp
  have "\<forall>a \<in> set addrs. env_bind E a" using 2(2) by (simp add: list_all_iff)
  then have "\<forall>a \<in> set addrs. ln_addr (the (?listen a)) = a \<and> good_port fl ''tcp'' (hertz_port (newEngine fl (the (?listen a))))"
    using 2(3,4) by (auto simp: good_port_def hertz_port_def newEngine_def ListenSocket_def hertz_onAccept_def uint_maxStreams)
  moreover have "hertz_serve fl E = Inr (map (\<lambda>sock. hertz_port (newEngine fl sock)) (map (\<lambda>a. the (?listen a)) addrs))"
    using 2(1) listen_loop_ok [OF all] by (simp add: hertz_serve_def ServerAddrs_def)
  ultimately show ?case by (auto simp: list_all_iff hertz_port_def newEngine_def o_def intro!: map_idI)
next
  case (3 addrs fl E ports)
  then show ?case using listen_loop_fails [of "ListenSocket (env_bind E) (sf_reuse fl) ''tcp''" addrs]
    by (auto simp: hertz_serve_def ServerAddrs_def split: sum.splits)
qed

text \<open>The servers, by the framework they are for.\<close>

definition go_servers :: "(string \<times> (server_flags \<Rightarrow> server_env \<Rightarrow> server_fatal + server_run)) list" where
  "go_servers =
     [(''beego'', beego_main), (''chi'', chi_main), (''echo'', echo_main), (''fib'', fib_main), (''gin'', gin_main), (''goji'', goji_main),
      (''gorillamux'', gorillamux_main), (''hertz'', hertz_main), (''httprouter'', httprouter_main), (''nethttp'', nethttp_main)]"

lemmas server_mains = beego_main_def chi_main_def echo_main_def fib_main_def gin_main_def goji_main_def gorillamux_main_def
  hertz_main_def httprouter_main_def nethttp_main_def

definition can_serve :: "string \<Rightarrow> server_env \<Rightarrow> string list \<Rightarrow> bool" where
  "can_serve fw E addrs \<longleftrightarrow> (if fw = ''fib'' then env_fibBind E addrs else list_all (env_bind E) addrs)"

lemma go_servers_are:
  assumes "(fw, main) \<in> set go_servers"
  obtains serve where "main = start_server fw serve"
    "benchmark_server fw serve (if fw = ''fib'' then ''tcp4'' else ''tcp'') (can_serve fw)"
proof -
  have can: "can_serve fw = (if fw = ''fib'' then env_fibBind else (\<lambda>E. list_all (env_bind E)))"
    by (auto simp: can_serve_def fun_eq_iff)
  have ex: "\<exists>serve. main = start_server fw serve
      \<and> benchmark_server fw serve (if fw = ''fib'' then ''tcp4'' else ''tcp'') (if fw = ''fib'' then env_fibBind else (\<lambda>E. list_all (env_bind E)))"
    using assms nethttp.benchmark_server_axioms chi.benchmark_server_axioms gorillamux.benchmark_server_axioms
      goji.benchmark_server_axioms httprouter.benchmark_server_axioms gin.benchmark_server_axioms echo.benchmark_server_axioms
      beego.benchmark_server_axioms fib.benchmark_server_axioms hertz.benchmark_server_axioms
    unfolding go_servers_def server_mains by (auto 4 3)
  then show ?thesis using that unfolding can by blast
qed

text \<open>
  C12. Every Go server is set up alike: started with a number of streams that fits in 32 bits, with its ports free and its process
  there to sample, it listens on the fifty ports config gives its framework, and on each of them speaks
  HTTP/2 in cleartext and nothing else, advertises the streams it was told, sets TCP\_NODELAY as it was told and
  echoes GET and POST on the echo path; its control routes are on the port config gives them. It is fib alone that
  listens on IPv4 only. There is such a server for every framework that config says is written in Go.
\<close>

theorem server_mains_agree:
  assumes "(fw, main) \<in> set go_servers" and "1 \<le> sf_maxStreams fl" and "sf_maxStreams fl < 2 ^ 32" and "env_psCounter E"
    and "GetFrameworkServerAddrs fw = Inr addrs" and "can_serve fw E addrs"
  shows "map fst go_servers = filter (\<lambda>f. FrameworkLang f = ''go'') FrameworkList
    \<and> (\<exists>run. main fl E = Inr run \<and> map po_addr (sv_ports run) = addrs \<and> length addrs = 50
      \<and> (\<forall>p \<in> set (sv_ports run). good_port fl (if fw = ''fib'' then ''tcp4'' else ''tcp'') p)
      \<and> GetFrameworkControlServerAddr fw = Inr (ct_addr (sv_control run))
      \<and> HandleCommon True = Some (ct_mux (sv_control run)))"
proof (rule conjI)
  show "map fst go_servers = filter (\<lambda>f. FrameworkLang f = ''go'') FrameworkList"
    by (simp add: go_servers_def FrameworkList_def FrameworkLang_def Langs_def)
  obtain serve where main: "main = start_server fw serve"
    and server: "benchmark_server fw serve (if fw = ''fib'' then ''tcp4'' else ''tcp'') (can_serve fw)"
    using go_servers_are [OF assms(1)] by blast
  have "length addrs = 50"
    using assms(5) framework_ports [OF benchmark_server.known [OF server]] by (auto simp: GetFrameworkServerAddrs_def)
  with benchmark_server.starts [OF server assms(2-6)] show "\<exists>run. main fl E = Inr run \<and> map po_addr (sv_ports run) = addrs
      \<and> length addrs = 50 \<and> (\<forall>p \<in> set (sv_ports run). good_port fl (if fw = ''fib'' then ''tcp4'' else ''tcp'') p)
      \<and> GetFrameworkControlServerAddr fw = Inr (ct_addr (sv_control run)) \<and> HandleCommon True = Some (ct_mux (sv_control run))"
    unfolding main list_all_iff by blast
qed

definition sample_env :: server_env where
  "sample_env = \<lparr>env_bind = \<lambda>_. True, env_psCounter = True, env_fibBind = \<lambda>_. True, env_fibReuse = True\<rparr>"

theorem server_mains_agree_witness:
  "\<exists>run. fib_main default_server_flags sample_env = Inr run \<and> length (sv_ports run) = 50
     \<and> (\<forall>p \<in> set (sv_ports run). good_port default_server_flags ''tcp4'' p)"
proof -
  obtain addrs where "GetFrameworkServerAddrs ''fib'' = Inr addrs" using fib.addrs by blast
  moreover have "can_serve ''fib'' sample_env addrs" by (simp add: can_serve_def sample_env_def)
  moreover have "(''fib'', fib_main) \<in> set go_servers" by (simp add: go_servers_def)
  ultimately show ?thesis
    using server_mains_agree [of "''fib''" fib_main default_server_flags sample_env addrs]
    by (auto simp: default_server_flags_def sample_env_def dest: arg_cong [of _ _ length])
qed

text \<open>
  A server refuses to start when it is told to allow no streams, has no process of its own to sample, or cannot listen on
  one of its ports, and for no other reason.
\<close>

theorem server_starts_iff:
  assumes "(fw, main) \<in> set go_servers" and "sf_maxStreams fl < 2 ^ 32" and "GetFrameworkServerAddrs fw = Inr addrs"
  shows "(\<exists>run. main fl E = Inr run) \<longleftrightarrow> 1 \<le> sf_maxStreams fl \<and> env_psCounter E \<and> can_serve fw E addrs"
proof -
  obtain serve where main: "main = start_server fw serve"
    and server: "benchmark_server fw serve (if fw = ''fib'' then ''tcp4'' else ''tcp'') (can_serve fw)"
    using go_servers_are [OF assms(1)] by blast
  show ?thesis
    using benchmark_server.starts [OF server _ assms(2) _ assms(3)] benchmark_server.started [OF server _ assms(3)]
    unfolding main by blast
qed

theorem server_starts_iff_witness:
  "\<not> (\<exists>run. hertz_main (default_server_flags\<lparr>sf_maxStreams := 0\<rparr>) sample_env = Inr run)"
proof -
  obtain addrs where "GetFrameworkServerAddrs ''hertz'' = Inr addrs" using hertz.addrs by blast
  then show ?thesis
    using server_starts_iff [of "''hertz''" hertz_main "default_server_flags\<lparr>sf_maxStreams := 0\<rparr>" addrs sample_env]
    by (simp add: go_servers_def)
qed

section \<open>The control routes\<close>

text \<open>The paths the clients ask for reach the handlers they are meant for, the heap profile through the index.\<close>

lemma control_routes:
  assumes "HandleCommon True = Some mux"
  shows "mux_find mux ''/init'' = Some InitRoute" and "mux_find mux ''/ps'' = Some PsRoute"
    and "mux_find mux ''/debug/pprof/profile'' = Some PprofProfile" and "mux_find mux ''/debug/pprof/heap'' = Some PprofIndex"
    and "mux_find mux EchoPath = None"
  using assms by (auto simp: HandleCommon_def mux_find_def mux_fits_def HasPrefix_def EchoPath_def)

text \<open>A server that was told to stop has closed everything it opened.\<close>

lemma server_exit_closes: "ct_closed (sv_control (server_exit run))" "list_all po_closed (sv_ports (server_exit run))"
  by (simp_all add: server_exit_def list_all_iff)

end
