(* ===== verification/Spec2Isabelle.thy ===== *)
theory Spec2Isabelle
  imports ConnRecv ClientMain ServerMain
begin

text \<open>
  A verification of go-http2-benchmark: the HTTP/2 client it measures servers with, the benchmarks built on it, the
  reports they end in, and the servers they are run against.

  \<^bold>\<open>The program.\<close> \<^verbatim>\<open>benchcli-go\<close> dials connections to one of eleven servers
  (\<^verbatim>\<open>connections\<close>), each an HTTP/2 connection of its own making (\<^verbatim>\<open>protocol\<close>), and runs two benchmarks over
  them: requests each answered before the next (\<^verbatim>\<open>benchecho\<close>), and batches multiplexed at a rate
  (\<^verbatim>\<open>benchrate\<close>). Each ends in a report (\<^verbatim>\<open>report\<close>) with the server's CPU and memory, sampled on this machine or asked of the
  server (\<^verbatim>\<open>config\<close>), which is written to a file; the files of all servers make the ranked tables. The servers
  (\<^verbatim>\<open>frameworks\<close>) share the reading and echoing of a body, their ports and their control routes.

  \<^bold>\<open>Shared theories.\<close> \<open>Prelude\<close> has the named collections, list, option and word lemmas, decimal
  printing and parsing. \<open>Codec\<close> has the interface of byte codecs. \<open>Float64\<close> is IEEE double precision
  as rational numbers rounded to 53 bits, with infinities and NaN and no negative zero. \<open>GoStrings\<close> has the functions of
  \<^verbatim>\<open>strings\<close>, \<^verbatim>\<open>net\<close> and \<^verbatim>\<open>unicode/utf8\<close> the program uses. \<open>StableSort\<close> has the interface of a stable sort, as a
  locale, and the sort of \<^verbatim>\<open>sort.SliceStable\<close>. \<open>Reach\<close> has what the concurrent parts share: reachable states, schedules, and the
  contracts of an invariant, of an invariant on top of another and of a system that winds down, as locales; the client
  connection, the calls that dial, the echo benchmark's channel and the rate benchmark interpret them.

  \<^bold>\<open>The protocol\<close> (\<^verbatim>\<open>benchcli-go/protocol\<close>).
  \<^item> \<open>Frames\<close>: the frame writers and the preface of \<^verbatim>\<open>http2.go\<close>, byte for byte, read back by the frame layout of RFC 9113.
  \<^item> \<open>Hpack\<close>: the header block encoder, read back by a decoder for RFC 7541.
  \<^item> \<open>Request\<close>: cached requests, batches and their size. A cached request is what the plain writers write, a batch is
    read back request by request, and the batch chosen is the largest that divides the rate and fits.
  \<^item> \<open>ClientConn\<close>: the connection of \<^verbatim>\<open>clientconn.go\<close>, a record of the source's fields with the streams in a heap of references.
    \<^verbatim>\<open>Do\<close>, \<^verbatim>\<open>WriteBatch\<close> and the handlers of the reader are functions on it, cut at the points
    where a lock is given up.
  \<^item> \<open>ConnSteps\<close>, \<open>ConnExec\<close>: any number of calls and the reader, interleaved in every order, as a step relation and as an
    executable step that agrees with it.
  \<^item> \<open>ConnInv\<close>, \<open>ConnSafety\<close>: the invariant of every reachable state. A stream object is in one place, the \<open>done\<close> channel of a
    call holds one value at most and none while its stream is in the map or pooled, the active count is exact, admission keeps the
    server's limit, and once the reader has exited every call returns.
  \<^item> \<open>ConnWire\<close>: what is on the wire. Stream identifiers are opened in order, and DATA never exceeds the connection's window.
  \<^item> \<open>ConnRecv\<close>: what a caller is told: bodies, responses, settings, GOAWAY and the end of a connection. A GOAWAY fails the streams
    it refuses and keeps the others; but a call in the middle of a request it keeps sends no more of it and waits.

  \<^bold>\<open>Configuration and sampling\<close> (\<^verbatim>\<open>config\<close>).
  \<^item> \<open>Config\<close>: ports, addresses and control requests. The client dials the ports the server listens on, and
    a request is retried until it is answered and no longer.
  \<^item> \<open>PsSource\<close>: where the CPU and memory numbers come from. A sampler only ever samples the one process listed with the name of
    this framework's server; whatever fails there is a source to report from, and samples are kept through errors and after the source is stopped.

  \<^bold>\<open>Reports\<close> (\<^verbatim>\<open>benchcli-go/report\<close>).
  \<^item> \<open>Report\<close>: the three structs, with their fields and tags as a list, which is what reflection sees.
  \<^item> \<open>ReportRank\<close>: columns, ranking, percentages. The ranking is a permutation with the bigger result first, equal ones in the
    order they came in, shown by interpreting the locale of \<open>StableSort\<close>; a percentage is right to two billionths in spite of rounding.
  \<^item> \<open>ReportTable\<close>: tables. Every line is equally wide in characters, a table of reports has a cell for each title, and
    with a filter it has not.
  \<^item> \<open>ReportSummary\<close>: the table of parameters, which refines a set of who said what.
  \<^item> \<open>ReportFiles\<close>: the files over a file system whose writes may fail. What is written is read back. The interface
    \<^verbatim>\<open>Report\<close> is the locale \<open>report_kind\<close>, which the three structs interpret.

  \<^bold>\<open>Benchmarks and client\<close> (\<^verbatim>\<open>benchcli-go\<close>).
  \<^item> \<open>Dialing\<close>: the calls that dial, moving in every order, an attempt's address and its dial being two moves. The attempts go
    round the addresses, every schedule ends with every call returned, and a run leaves connections to the framework's ports alone.
  \<^item> \<open>EchoBench\<close>: the channel of connections under every order of the workers, one request, the run and the report. No worker
    waits for a connection, however many requests are never answered, and every call is counted once. A run whose
    requests are all answered ends.
  \<^item> \<open>RateBench\<close>: writers and readers in every order. Every addition to a shared counter is a move of its own. Fewer than five
    batches are unanswered on a connection, the counters agree up to what is in the middle of being counted, a run that starts sends
    the rate it was asked for, and its report counts whole batches, with the bytes of answers that may lag behind their number.
  \<^item> \<open>Client\<close>: flags, the checks of \<^verbatim>\<open>main\<close> and the generation of reports. A batch that was accepted is never refused later.
  \<^item> \<open>ClientMain\<close>: \<^verbatim>\<open>main\<close> from its flags to the last report, over the record \<open>world\<close> of what is answered from outside. It
    refines the list of reports a run has to save, which are read back from the files it leaves; and the ways it can end early are told.

  \<^bold>\<open>Servers\<close> (\<^verbatim>\<open>frameworks\<close>).
  \<^item> \<open>Server\<close>: reading a body of known or unknown length, in whatever chunks it arrives, the echo handlers, \<^verbatim>\<open>/init\<close>
    and \<^verbatim>\<open>/ps\<close>, and listening.
  \<^item> \<open>ServerMain\<close>: the \<^verbatim>\<open>main\<close> of each Go server, the control routes, and what is set on an accepted connection. The contract of a
    benchmark server is the locale \<open>benchmark_server\<close>, which all ten interpret: they are set up alike, but for fib, which listens on IPv4 only.

  \<^bold>\<open>Across them.\<close> This theory has what the client and the servers promise each other: the pid a client asks for is the
  one the server's control route answers, and what an echo handler answers to a request, read off the request's own bytes by the
  decoders for RFC 9113 and RFC 7541, is what the echo benchmark counts as a success.

  \<^bold>\<open>Conventions.\<close> Errors are values of a sum or an option. A Go panic from an index, a slice bound, a division or
  a ticker without an interval is a value too, \<open>None\<close> or one of its own; running out of memory, and an allocation too large to
  make, are not. 32-bit
  integers that wrap are words; counters of 64 bits are integers, and where a theorem depends on their range it says
  so. A slice that may be nil is an option. Loops are recursive functions with termination proofs, by a measure where the
  recursion is not structural. Only the decoder the encoders are held to (\<open>Codec\<close>) has fuel, the length of its buffer,
  which is enough since every item takes at least a byte. Where the source waits for the network, what arrives is an argument:
  a list of rounds, a reader's chunks, or the outcome of each attempt. Concurrent parts are step relations. The calls on a
  connection are cut wherever they give up a lock, the calls that dial at the shared index and the dial, the echo benchmark at the
  channel and the rate benchmark at every addition to a shared counter. The connection's reader is coarser: handling one
  frame is one step and so is its exit, although it gives up \<^verbatim>\<open>mu\<close> between taking a stream out of the map and finishing it.
  In between, the stream is in no map and no pool and its \<open>done\<close> channel is empty; what is stated of all
  reachable states (no stream object in two places, one value at most in \<open>done\<close>, the count of the map's entries) is
  true of that moment as well, and what a frame leads to is stated of the state it leaves.

  \<^bold>\<open>Parameters.\<close> Code outside the repository is an argument of the definitions that use it: the framer and HPACK decoder
  of \<^verbatim>\<open>golang.org/x/net\<close>, the number formats, the calculator and the counter of \<^verbatim>\<open>perf\<close>, the processes of
  \<^verbatim>\<open>gopsutil\<close>, and what the operating system and the network answer. What is relied on of the calculator and of the scheduling of
  goroutines is named: \<open>dial_bench\<close>, \<open>echo_warm\<close>, \<open>echo_bench\<close> and \<open>rate_ran\<close>, each of which says that what comes out is a
  state some order of the modelled moves reaches.

  \<^bold>\<open>Not modelled.\<close> The text of log lines; when the timers that fetch profiles fire, of which only what they fetched in time is
  an argument; deadlines and rate limiters, which only delay; what the third-party routers and servers do with the settings and routes
  they are given; a control port that is taken, which ends a server from a goroutine of its own; the Rust
  client and server, which are another implementation in another language; the scripts. The JSON text between writing and
  reading a report is its keys and literals, and text in it is taken to be valid UTF-8. A write to a connection that fails is
  recorded as if all of it had been sent, and may succeed after the connection was closed here: the wire of the model
  has at least what the real one has.
\<close>

section \<open>The client and its servers\<close>

lemma itoa_no_space: "list_all (\<lambda>c. \<not> is_space c) (itoa v)"
proof -
  have "\<not> is_space c" if "is_digit c" for c using that by (auto simp: is_space_def is_digit_def)
  then have "list_all (\<lambda>c. \<not> is_space c) (itoa_nat n)" for n
    using itoa_nat_digits [of n] by (auto simp: list_all_iff)
  then show ?thesis by (auto simp: itoa_def is_space_def)
qed

lemma TrimSpace_id: "list_all (\<lambda>c. \<not> is_space c) s \<Longrightarrow> TrimSpace s = s"
proof -
  have "list_all (\<lambda>c. \<not> is_space c) t \<Longrightarrow> dropWhile is_space t = t" for t by (cases t) auto
  then show "list_all (\<lambda>c. \<not> is_space c) s \<Longrightarrow> TrimSpace s = s" by (simp add: TrimSpace_def)
qed

text \<open>The URL of a control route, from the address the server itself listens on.\<close>

definition control_url :: "string \<Rightarrow> string \<Rightarrow> string \<Rightarrow> string" where
  "control_url fw ip route =
     (case GetFrameworkControlServerAddr fw of Inl _ \<Rightarrow> [] | Inr addr \<Rightarrow> ''http://'' @ urlHost ip @ addr @ route)"

text \<open>
  C14. A client that asks a framework's server for its pid learns it: of the attempts it makes, the first that is answered by
  the server's route \<^verbatim>\<open>/init\<close>, on the port its control routes listen on, brings the pid, and the address the client gives for
  profiles is that of the same port. The server is sampling from then on.
\<close>

theorem init_answers_pid:
  assumes "fw \<in> set FrameworkList" and "1 \<le> k" and "k \<le> controlAttempts" and "\<forall>j. 1 \<le> j \<and> j < k \<longrightarrow> \<not> replied (net (control_url fw ip ''/init'') j)"
    and "control_init psInterval msg pid (Inl body) s = (r, s')"
    and "net (control_url fw ip ''/init'') k = Reply (rsp_status r) (rsp_body r)"
    and "0 < pid" and "pid < 2 ^ 63"
  shows "\<exists>port. GetFrameworkControlServerAddr fw = Inr ('':'' @ port)
    \<and> InitAndGetFrameworkPid net fw ip = (pid, ''http://'' @ urlHost ip @ '':'' @ port, None) \<and> psStarted s'"
proof -
  have r: "rsp_status r = 200" "rsp_body r = bytes_of (itoa pid)" "psStarted s'"
    using assms(5) by (auto simp: control_init_def split: if_splits)
  obtain port where port: "frameworkControlPort fw = Inr port"
    using framework_ports [OF assms(1)] by (auto simp: frameworkControlPort_def)
  let ?url = "control_url fw ip ''/init''"
  have "net ?url k = Reply 200 (bytes_of (itoa pid))" using assms(6) r by simp
  note run = controlRequest_replied [where net = "net ?url", OF assms(2-4) this]
  have url: "?url = ''http://'' @ urlHost ip @ '':'' @ itoa port @ ''/init''"
    using port by (simp add: control_url_def GetFrameworkControlServerAddr_def)
  have "atoi (TrimSpace (itoa pid)) = Some pid"
    using atoi_itoa [of pid] assms(7,8) by (simp add: TrimSpace_id [OF itoa_no_space])
  with run [unfolded url] port r(3) show ?thesis
    by (simp add: InitAndGetFrameworkPid_def GetFrameworkControlServerAddr_def FrameworkControlAddr_def)
qed

theorem init_answers_pid_witness:
  "\<exists>port. InitAndGetFrameworkPid (\<lambda>_ j. if j < 2 then NoReply ''reset'' else Reply 200 (bytes_of (itoa 4242))) ''gin'' ''::1''
     = (4242, ''http://[::1]:'' @ port, None)"
proof -
  obtain r s' where r: "control_init (\<lambda>_. 0) (\<lambda>_. '''') 4242 (Inl []) \<lparr>psStarted = False, ps_starts = []\<rparr> = (r, s')"
    "rsp_status r = 200" "rsp_body r = bytes_of (itoa 4242)" by (auto simp: control_init_def)
  have "urlHost ''::1'' = ''[::1]''" by (simp add: urlHost_def HasPrefix_def)
  with init_answers_pid [of "''gin''" 2 "\<lambda>_ j. if j < 2 then NoReply ''reset'' else Reply 200 (bytes_of (itoa 4242))" "''::1''", OF _ _ _ _ r(1)] r(2,3)
  show ?thesis by (auto simp: FrameworkList_def controlAttempts_def)
qed

text \<open>
  What a request is to whoever reads the bytes of it off stream \<open>sid\<close>, by the RFCs: the header fields of the block in its first
  frame, and the bytes its DATA frames carry.
\<close>

definition request_received :: "bytes \<Rightarrow> uint32 \<Rightarrow> ((string \<times> string) list \<times> bytes) option" where
  "request_received bs sid =
     (case parse_frames bs of
        Some (f # fs) \<Rightarrow>
          if f_type f = frameHeaders \<and> list_all (\<lambda>g. f_stream g = sid) (f # fs)
          then map_option (\<lambda>hdrs. (hdrs, concat (map f_payload (filter (\<lambda>g. f_type g = frameData) fs)))) (decode_block (f_payload f))
          else None
      | _ \<Rightarrow> None)"

lemma request_received_is:
  assumes "b \<noteq> []" and "length b < 2 ^ 63" and "length authority < 2 ^ 21" and "sid \<le> maxStreamID"
  shows "request_received (AppendTo (NewRequest ''POST'' authority EchoPath (Some b)) [] sid) sid
    = Some (request_fields ''POST'' authority EchoPath (Some b), b)"
proof -
  let ?r = "NewRequest ''POST'' authority EchoPath (Some b)"
  have r: "req_Block ?r = EncodeHeaderBlock ''POST'' authority EchoPath (Some b)" "req_Body ?r = Some b"
    by (simp_all add: NewRequest_def Let_def split: prod.splits)
  have "length (req_Block ?r) < 2 ^ 24"
    using length_EncodeHeaderBlock [of "Some b" "''POST''" authority EchoPath] assms(2,3)
    unfolding r(1) by (simp add: slice_len_def EchoPath_def)
  then have "parse_frames (AppendTo ?r [] sid) = Some (headers_frame sid (req_Block ?r) False # data_frames sid b True)"
    using request_impl.parse_append_to [of ?r sid] assms(1,4) r(2) by (auto simp: made_request_def request_frames_def slice_bytes_def)
  moreover have "decode_block (req_Block ?r) = Some (request_fields ''POST'' authority EchoPath (Some b))"
    unfolding r using assms(2,3) by (intro decode_EncodeHeaderBlock) (simp_all add: slice_len_def EchoPath_def)
  moreover have "list_all (\<lambda>g. f_type g = frameData \<and> f_stream g = sid) (data_frames sid b True)"
    by (auto simp: data_frames_def list_all_iff Let_def)
  then have "filter (\<lambda>g. f_type g = frameData) (data_frames sid b True) = data_frames sid b True"
    "list_all (\<lambda>g. f_stream g = sid) (data_frames sid b True)" by (auto simp: list_all_iff filter_id_conv)
  ultimately show ?thesis by (simp add: request_received_def headers_frame_def data_frames_payloads)
qed

text \<open>
  C13. What the servers promise is what the benchmark checks: a request of the echo benchmark, read off the bytes it is written as
  on a stream of a connection that works, its path, its length and its body, and given to any of the Go servers' handlers,
  in whatever chunks and with its length declared or not, whose answer comes back as it was made, counts as a success.
\<close>

theorem echo_round_trip:
  assumes "BenchEcho_init ncpu rnd be = Some be'" and "\<forall>i n. length (rnd i n) = n" and "idx < 1024"
    and "eb_Payload be' < 2 ^ 63" and "length (eb_Ip be') < 2 ^ 20" and "sid \<le> maxStreamID"
    and "request_received (AppendTo (eb_requests be' ! idx) [] sid) sid = Some (hdrs, content)"
    and "map_of hdrs '':path'' = Some path" and "rd_content body = content"
    and "map_option atoi (map_of hdrs ''content-length'') = Some (Some contentLength) \<or> contentLength = - 1 \<and> rd_end body = EOF"
    and "r = handler_answer ginType echoType grow payload msg h path body contentLength pool"
    and "Err (c_cc conn) = None"
    and "Do (c_cc conn) (eb_requests be' ! idx) (eb_checkValid be')
      = \<lparr>res_Status = rsp_status r, res_Body = (if eb_checkValid be' then rsp_body r else []), res_N = int (length (rsp_body r)), res_Err = None\<rparr>"
  shows "doOnce_result be' conn c' later Err d idx Do = None"
proof -
  note ok = BenchEcho_init_ok [OF assms(1) assms(2) [rule_format]]
  let ?b = "eb_pbuffers be' ! idx"
  have len: "int (length ?b) = eb_Payload be'" using ok(8) assms(3) by blast
  have "?b \<noteq> []" "length ?b < 2 ^ 63" "length (Host (eb_Ip be')) < 2 ^ 21" using len ok(4) assms(4,5) by (auto simp: Host_def)
  from request_received_is [OF this assms(6)] assms(7) ok(9) [of idx] assms(3)
  have f: "hdrs = request_fields ''POST'' (Host (eb_Ip be')) EchoPath (Some ?b)" "content = ?b" by auto
  have path: "path = EchoPath" using assms(8) f(1) by (simp add: request_fields_def)
  have "atoi (itoa (eb_Payload be')) = Some (eb_Payload be')" using assms(4) ok(4) by (intro atoi_itoa) auto
  then have n: "contentLength = eb_Payload be' \<or> contentLength = - 1 \<and> rd_end body = EOF"
    using assms(10) f(1) by (auto simp: request_fields_def carries_body_def slice_len_def len)
  have "rsp_status r = 200 \<and> rsp_body r = ?b"
    using handler_answer_echoes [of contentLength body ginType echoType grow payload msg h pool] n len assms(9)
    by (auto simp: assms(11) path f(2))
  then show ?thesis using assms(12,13) by (simp add: doOnce_result_def getBuffers_def Let_def)
qed

theorem echo_round_trip_witness:
  "\<exists>be' body. BenchEcho_init 4 (\<lambda>i n. replicate n 0) sample_eb = Some be'
     \<and> request_received (AppendTo (eb_requests be' ! 3) [] 7) 7 = Some (request_fields ''POST'' ''127.0.0.1'' EchoPath (Some body), body)
     \<and> doOnce_result be' \<lparr>c_Addr = ''a'', c_cc = 0\<rparr> \<lparr>c_Addr = ''a'', c_cc = 0\<rparr> id (\<lambda>_. None) (sample_dial True) 3
         (\<lambda>cc req keep. let r = fst (OnEcho (\<lambda>n. n) 0 (\<lambda>_. []) \<lparr>rd_chunks = [body], rd_end = EOF, rd_eager = True\<rparr> (- 1) [])
            in \<lparr>res_Status = rsp_status r, res_Body = (if keep then rsp_body r else []), res_N = int (length (rsp_body r)), res_Err = None\<rparr>)
       = None"
proof -
  obtain be1 where be1: "BenchEcho_init 4 (\<lambda>i n. replicate n 0) sample_eb = Some be1" by (rule sample_echo_init)
  note ok = BenchEcho_init_ok [OF be1]
  let ?b = "eb_pbuffers be1 ! 3"
  have be: "eb_Payload be1 = 1024" "eb_Ip be1 = ''127.0.0.1''"
    using be1 by (auto simp: BenchEcho_init_def sample_eb_def BenchEcho_New_def echo_settings_def echo_load_def Let_def split: if_splits)
  have "int (length ?b) = 1024" using ok(8) [of 3] be by simp
  then have "?b \<noteq> []" "length ?b < 2 ^ 63" by auto
  moreover have "Host ''127.0.0.1'' = ''127.0.0.1''" by (simp add: Host_def)
  ultimately have got: "request_received (AppendTo (eb_requests be1 ! 3) [] 7) 7 = Some (request_fields ''POST'' ''127.0.0.1'' EchoPath (Some ?b), ?b)"
    using request_received_is [of ?b "''127.0.0.1''" 7] ok(9) [of 3] be by (simp add: maxStreamID_def)
  let ?body = "\<lparr>rd_chunks = [?b], rd_end = EOF, rd_eager = True\<rparr>"
  let ?r = "fst (OnEcho (\<lambda>n. n) 0 (\<lambda>_. []) ?body (- 1) [])"
  have "doOnce_result be1 \<lparr>c_Addr = ''a'', c_cc = 0\<rparr> \<lparr>c_Addr = ''a'', c_cc = 0\<rparr> id (\<lambda>_. None) (sample_dial True) 3
      (\<lambda>cc req keep. \<lparr>res_Status = rsp_status ?r, res_Body = (if keep then rsp_body ?r else []),
        res_N = int (length (rsp_body ?r)), res_Err = None\<rparr>) = None"
    by (rule echo_round_trip [OF be1 _ _ _ _ _ got, where h = Plain_onEcho and body = ?body and r = ?r and contentLength = "- 1"
        and path = EchoPath and grow = "\<lambda>n. n" and payload = 0 and msg = "\<lambda>_. []" and pool = "[]" and ginType = "[]" and echoType = "[]"])
      (simp_all add: rd_content_def be maxStreamID_def request_fields_def)
  with be1 got show ?thesis by (auto simp: Let_def)
qed

end
